(* ===== verification/Gateway_Prelude.thy ===== *)
theory Gateway_Prelude
  imports Complex_Main "HOL-Library.Signed_Division" "HOL-Library.Char_ord"
    "HOL-Library.List_Lexorder" "HOL-Library.Word"
begin

text \<open>
  Shared vocabulary of the development: the Go machine integers, durations and byte strings
  the gateway uses, the few functions of Go's \<^verbatim>\<open>strings\<close> and \<^verbatim>\<open>strconv\<close> packages it calls, the
  forward ``keep the best index'' scan that three routing strategies are instances of, and the
  lemma collections the component theories feed and use.

  A Go \<^verbatim>\<open>int\<close>, \<^verbatim>\<open>int64\<close> or \<^verbatim>\<open>time.Duration\<close> is an \<open>int\<close> whose arithmetic passes through
  \<open>wrap64\<close> wherever the code can leave the 64-bit range; a Go \<^verbatim>\<open>string\<close> is a byte string, which
  is what HOL's \<open>string\<close> is.
\<close>

named_theorems go_arith \<open>range facts of the 64-bit integers\<close>
named_theorems gw_frame \<open>what an operation leaves unchanged\<close>
named_theorems gw_inv \<open>an operation keeps its component's invariant\<close>

section \<open>Machine integers and durations\<close>

type_synonym duration = int
type_synonym instant = int

definition wrap64 :: "int \<Rightarrow> int" where
  "wrap64 x = (x + 2 ^ 63) mod 2 ^ 64 - 2 ^ 63"

definition in_int64 :: "int \<Rightarrow> bool" where
  "in_int64 x \<longleftrightarrow> - (2 ^ 63) \<le> x \<and> x < 2 ^ 63"

definition sat64 :: "int \<Rightarrow> int" where
  "sat64 x = (if x < - (2 ^ 63) then - (2 ^ 63) else if 2 ^ 63 \<le> x then 2 ^ 63 - 1 else x)"

definition nanosPerSecond :: int where
  "nanosPerSecond = 1000000000"

definition nanosPerMilli :: int where
  "nanosPerMilli = 1000000"

section \<open>Byte strings\<close>

definition HasPrefix :: "string \<Rightarrow> string \<Rightarrow> bool" where
  "HasPrefix s p \<longleftrightarrow> take (length p) s = p"

definition TrimPrefix :: "string \<Rightarrow> string \<Rightarrow> string" where
  "TrimPrefix s p = (if HasPrefix s p then drop (length p) s else s)"

definition CutPrefix :: "string \<Rightarrow> string \<Rightarrow> string \<times> bool" where
  "CutPrefix s p = (if HasPrefix s p then (drop (length p) s, True) else (s, False))"

fun strings_Join :: "string list \<Rightarrow> string \<Rightarrow> string" where
  "strings_Join [] sep = []"
| "strings_Join [x] sep = x"
| "strings_Join (x # y # xs) sep = x @ sep @ strings_Join (y # xs) sep"

fun strings_Contains :: "string \<Rightarrow> string \<Rightarrow> bool" where
  "strings_Contains [] p = (p = [])"
| "strings_Contains (c # cs) p = (HasPrefix (c # cs) p \<or> strings_Contains cs p)"

definition ascii_lower :: "char \<Rightarrow> char" where
  "ascii_lower c = (let n = of_char c :: nat in if 65 \<le> n \<and> n \<le> 90 then char_of (n + 32) else c)"

text \<open>
  \<^verbatim>\<open>strings.TrimSpace\<close> strips every code point with Unicode's White_Space property; these are
  their UTF-8 encodings, ASCII first.
\<close>

definition space_seqs :: "string list" where
  "space_seqs = map (map char_of)
     ([[9], [10], [11], [12], [13], [32], [194, 133], [194, 160], [225, 154, 128],
       [226, 128, 168], [226, 128, 169], [226, 128, 175], [226, 129, 159], [227, 128, 128],
       [226, 128, 128], [226, 128, 129], [226, 128, 130], [226, 128, 131], [226, 128, 132],
       [226, 128, 133], [226, 128, 134], [226, 128, 135], [226, 128, 136], [226, 128, 137],
       [226, 128, 138]] :: nat list list)"

definition find_space :: "(string \<Rightarrow> string) \<Rightarrow> string \<Rightarrow> string option" where
  "find_space f s = find (\<lambda>w. HasPrefix s (f w)) space_seqs"

lemma space_seqs_nonempty: "[] \<notin> set space_seqs"
  by (simp add: space_seqs_def)

lemma find_space_nonempty: "find_space f s = Some w \<Longrightarrow> w \<noteq> []"
  using space_seqs_nonempty by (metis find_space_def find_Some_iff nth_mem)

function trim_left :: "(string \<Rightarrow> string) \<Rightarrow> string \<Rightarrow> string" where
  "trim_left f s = (case find_space f s of
      None \<Rightarrow> s
    | Some w \<Rightarrow> (if s = [] then [] else trim_left f (drop (length w) s)))"
  by pat_completeness auto
termination
  by (relation "measure (\<lambda>(f, s). length s)") (auto dest: find_space_nonempty)

declare trim_left.simps [simp del]

definition TrimSpace :: "string \<Rightarrow> string" where
  "TrimSpace s = rev (trim_left rev (rev (trim_left id s)))"

section \<open>Decimal numbers\<close>

definition digit_char :: "nat \<Rightarrow> char" where
  "digit_char d = char_of (48 + d)"

definition is_digit :: "char \<Rightarrow> bool" where
  "is_digit c \<longleftrightarrow> 48 \<le> (of_char c :: nat) \<and> (of_char c :: nat) \<le> 57"

fun nat_digits :: "nat \<Rightarrow> string" where
  "nat_digits n = (if n < 10 then [digit_char n] else nat_digits (n div 10) @ [digit_char (n mod 10)])"

declare nat_digits.simps [simp del]

definition Itoa :: "int \<Rightarrow> string" where
  "Itoa n = (if n < 0 then CHR ''-'' # nat_digits (nat (- n)) else nat_digits (nat n))"

fun parse_digits :: "nat \<Rightarrow> string \<Rightarrow> nat option" where
  "parse_digits acc [] = Some acc"
| "parse_digits acc (c # cs) =
     (if is_digit c then parse_digits (acc * 10 + (of_char c - 48)) cs else None)"

definition Atoi :: "string \<Rightarrow> int option" where
  "Atoi s =
     (let (neg, ds) = (case s of
          [] \<Rightarrow> (False, [])
        | c # cs \<Rightarrow> if c = CHR ''-'' then (True, cs) else if c = CHR ''+'' then (False, cs) else (False, s))
      in if ds = [] then None
         else case parse_digits 0 ds of
             None \<Rightarrow> None
           | Some n \<Rightarrow> (let v = (if neg then - int n else int n) in if in_int64 v then Some v else None))"

section \<open>Forward scans\<close>

text \<open>
  \<open>scan_best lt key i best xs\<close> is the loop \<^verbatim>\<open>for i, c := range xs\<close> that skips elements without
  a key and keeps the index whose key is strictly below the best one so far.
\<close>

fun scan_best ::
  "('b \<Rightarrow> 'b \<Rightarrow> bool) \<Rightarrow> ('a \<Rightarrow> 'b option) \<Rightarrow> nat \<Rightarrow> (nat \<times> 'b) option \<Rightarrow> 'a list \<Rightarrow> (nat \<times> 'b) option"
where
  "scan_best lt key i best [] = best"
| "scan_best lt key i best (x # xs) =
     scan_best lt key (Suc i)
       (case key x of
          None \<Rightarrow> best
        | Some v \<Rightarrow> (case best of
            None \<Rightarrow> Some (i, v)
          | Some (j, b) \<Rightarrow> if lt v b then Some (i, v) else best)) xs"

section \<open>Lemmas on machine integers\<close>

lemma wrap64_range [go_arith]: "in_int64 (wrap64 x)"
proof -
  have "0 \<le> (x + 2 ^ 63) mod 2 ^ 64" by simp
  moreover have "(x + 2 ^ 63) mod 2 ^ 64 < (2 ^ 64 :: int)" by simp
  moreover have "(2 ^ 64 :: int) = 2 * 2 ^ 63" by simp
  ultimately show ?thesis unfolding wrap64_def in_int64_def by linarith
qed

lemma wrap64_id [simp]: "in_int64 x \<Longrightarrow> wrap64 x = x"
  by (simp add: wrap64_def in_int64_def)

lemma sat64_range [go_arith]: "in_int64 (sat64 x)"
  by (simp add: sat64_def in_int64_def)

lemma sat64_mono: "x \<le> y \<Longrightarrow> sat64 x \<le> sat64 y"
  by (simp add: sat64_def)

lemma sat64_id [simp]: "in_int64 x \<Longrightarrow> sat64 x = x"
  by (simp add: sat64_def in_int64_def)

lemma sat64_ge_iff: "in_int64 c \<Longrightarrow> - (2 ^ 63) < c \<Longrightarrow> c \<le> sat64 x \<longleftrightarrow> c \<le> x"
  by (auto simp: sat64_def in_int64_def)

section \<open>Lemmas on strings\<close>

lemma HasPrefix_append [simp]: "HasPrefix (p @ s) p"
  by (simp add: HasPrefix_def)

lemma HasPrefix_iff: "HasPrefix s p \<longleftrightarrow> (\<exists>t. s = p @ t)"
  by (metis HasPrefix_def HasPrefix_append append_take_drop_id)

lemma TrimPrefix_append [simp]: "TrimPrefix (p @ s) p = s"
  by (simp add: TrimPrefix_def)

lemma CutPrefix_append [simp]: "CutPrefix (p @ s) p = (s, True)"
  by (simp add: CutPrefix_def)

lemma CutPrefix_True: "CutPrefix s p = (t, True) \<longleftrightarrow> s = p @ t"
  by (auto simp: CutPrefix_def HasPrefix_iff split: if_splits)

lemma of_char_digit_char [simp]: "d < 10 \<Longrightarrow> (of_char (digit_char d) :: nat) = 48 + d"
  by (simp add: digit_char_def)

lemma is_digit_digit_char [simp]: "d < 10 \<Longrightarrow> is_digit (digit_char d)"
  by (simp add: is_digit_def)

lemma nat_digits_are_digits: "c \<in> set (nat_digits n) \<Longrightarrow> is_digit c"
proof (induction n rule: nat_digits.induct)
  case (1 n)
  then show ?case
    by (cases "n < 10") (auto simp: nat_digits.simps [of n])
qed

lemma nat_digits_nonempty [simp]: "nat_digits n \<noteq> []"
  by (subst nat_digits.simps) simp

lemma parse_digits_append:
  "parse_digits a (xs @ ys) = (case parse_digits a xs of None \<Rightarrow> None | Some b \<Rightarrow> parse_digits b ys)"
  by (induction a xs rule: parse_digits.induct) auto

lemma parse_digits_nat_digits: "parse_digits 0 (nat_digits n) = Some n"
proof (induction n rule: nat_digits.induct)
  case (1 n)
  then show ?case
    by (cases "n < 10") (simp_all add: nat_digits.simps [of n] parse_digits_append)
qed

lemma nat_digits_inj: "nat_digits m = nat_digits n \<Longrightarrow> m = n"
  by (metis option.inject parse_digits_nat_digits)

lemma hd_nat_digits_not_sign: "hd (nat_digits n) \<noteq> CHR ''-''" "hd (nat_digits n) \<noteq> CHR ''+''"
  using nat_digits_are_digits [of "hd (nat_digits n)" n] by (auto simp: is_digit_def)

lemma Atoi_Itoa: "in_int64 n \<Longrightarrow> Atoi (Itoa n) = Some n"
proof -
  assume n: "in_int64 n"
  show ?thesis
  proof (cases "n < 0")
    case True
    with n show ?thesis by (simp add: Atoi_def Itoa_def parse_digits_nat_digits)
  next
    case False
    obtain c cs where ds: "nat_digits (nat n) = c # cs"
      by (cases "nat_digits (nat n)") simp_all
    with hd_nat_digits_not_sign [of "nat n"] have "c \<noteq> CHR ''-''" "c \<noteq> CHR ''+''" by simp_all
    with ds parse_digits_nat_digits [of "nat n"] n False show ?thesis
      by (simp add: Atoi_def Itoa_def)
  qed
qed

section \<open>Lemmas on scans\<close>

text \<open>
  The scan returns the first minimum. The comparison only has to be a strict order on the keys
  that occur: \<open>f\<close> embeds those (the values satisfying \<open>P\<close>) into a linear order.
\<close>

lemma scan_best_append:
  "scan_best lt key i best (xs @ ys) = scan_best lt key (i + length xs) (scan_best lt key i best xs) ys"
  by (induction lt key i best xs rule: scan_best.induct) auto

lemma scan_best_None_iff:
  "scan_best lt key i best xs = None \<longleftrightarrow> best = None \<and> (\<forall>x \<in> set xs. key x = None)"
  by (induction lt key i best xs rule: scan_best.induct) (auto split: option.splits if_splits)

definition first_min :: "('b \<Rightarrow> 'c::linorder) \<Rightarrow> ('a \<Rightarrow> 'b option) \<Rightarrow> 'a list \<Rightarrow> nat \<Rightarrow> 'b \<Rightarrow> bool" where
  "first_min f key xs j v \<longleftrightarrow>
     j < length xs \<and> key (xs ! j) = Some v \<and>
     (\<forall>i < length xs. \<forall>w. key (xs ! i) = Some w \<longrightarrow> f v \<le> f w \<and> (i < j \<longrightarrow> f v < f w))"

lemma scan_best_first_min:
  fixes f :: "'b \<Rightarrow> 'c::linorder"
  assumes lt: "\<And>a b. P a \<Longrightarrow> P b \<Longrightarrow> lt a b \<longleftrightarrow> f a < f b"
    and keys: "\<And>x w. x \<in> set xs \<Longrightarrow> key x = Some w \<Longrightarrow> P w"
    and res: "scan_best lt key 0 None xs = Some (j, v)"
  shows "first_min f key xs j v"
  using keys res
proof (induction xs arbitrary: j v rule: rev_induct)
  case Nil
  then show ?case by simp
next
  case (snoc x xs)
  let ?s = "scan_best lt key 0 None xs"
  have keys: "\<And>x w. x \<in> set xs \<Longrightarrow> key x = Some w \<Longrightarrow> P w"
    using snoc.prems(1) by auto
  show ?case
  proof (cases ?s)
    case None
    then have "\<forall>x \<in> set xs. key x = None" by (simp add: scan_best_None_iff)
    then have none: "\<And>i. i < length xs \<Longrightarrow> key (xs ! i) = None" by simp
    from None snoc.prems(2) have "key x = Some v" "j = length xs"
      by (auto simp: scan_best_append split: option.splits)
    with none show ?thesis
      by (auto simp: first_min_def nth_append less_Suc_eq)
  next
    case (Some jb)
    obtain k b where jb: "jb = (k, b)" by (cases jb)
    with Some snoc.IH keys have IH: "first_min f key xs k b" by blast
    then have k: "k < length xs" "key (xs ! k) = Some b" by (simp_all add: first_min_def)
    show ?thesis
    proof (cases "key x")
      case None
      with Some jb snoc.prems(2) have "j = k" "v = b" by (auto simp: scan_best_append)
      with IH None show ?thesis by (auto simp: first_min_def nth_append less_Suc_eq)
    next
      case (Some w)
      have "P b" using keys k by (meson nth_mem)
      moreover have "P w" using snoc.prems(1) [of x w] Some by simp
      ultimately have lt_iff: "lt w b \<longleftrightarrow> f w < f b" by (simp add: lt)
      show ?thesis
      proof (cases "f w < f b")
        case True
        with lt_iff Some jb \<open>?s = Some jb\<close> snoc.prems(2) have "j = length xs" "v = w"
          by (auto simp: scan_best_append)
        with IH Some True show ?thesis
          by (fastforce simp: first_min_def nth_append less_Suc_eq)
      next
        case False
        with lt_iff Some jb \<open>?s = Some jb\<close> snoc.prems(2) have "j = k" "v = b"
          by (auto simp: scan_best_append)
        with IH Some False k show ?thesis
          by (auto simp: first_min_def nth_append less_Suc_eq)
      qed
    qed
  qed
qed

end
