(* ===== verification/Float64.thy ===== *)
theory Float64
  imports Gateway_Prelude
begin

text \<open>
  Go's \<^verbatim>\<open>float64\<close>: IEEE 754 binary64 with round-to-nearest-even, as the routing strategies, the
  retry backoff and the \<^verbatim>\<open>Retry-After\<close> header compute with it. A value is a rational, an
  infinity or NaN (the sign of zero, which no comparison or sum in the gateway can observe, is
  dropped). \<open>rnd\<close> rounds a rational to 53 significant bits with the subnormal floor at
  \<open>2 powi (-1074)\<close>; \<open>f64_round\<close> adds the overflow to infinity. The lemmas the components use are
  monotonicity of rounding, exactness on representable values and the enclosure they give.
\<close>

section \<open>Values and rounding\<close>

datatype float64 = Fin rat | PosInf | NegInf | NaN

fun nlog2 :: "nat \<Rightarrow> nat" where
  "nlog2 n = (if n < 2 then 0 else Suc (nlog2 (n div 2)))"

declare nlog2.simps [simp del]

definition pow2 :: "int \<Rightarrow> rat" where
  "pow2 k = (if 0 \<le> k then 2 ^ nat k else 1 / 2 ^ nat (- k))"

definition ilog2 :: "rat \<Rightarrow> int" where
  "ilog2 x = (let (n, d) = quotient_of x; k = int (nlog2 (nat n)) - int (nlog2 (nat d))
     in if pow2 k \<le> x then k else k - 1)"

definition round_half_even :: "rat \<Rightarrow> int" where
  "round_half_even x = (let f = \<lfloor>x\<rfloor>; r = x - of_int f in
     if r < 1 / 2 then f else if 1 / 2 < r then f + 1 else if even f then f else f + 1)"

definition ulp_exp :: "rat \<Rightarrow> int" where
  "ulp_exp x = max (- 1074) (ilog2 \<bar>x\<bar> - 52)"

definition rnd :: "rat \<Rightarrow> rat" where
  "rnd x = (if x = 0 then 0
     else of_int (round_half_even (x / pow2 (ulp_exp x))) * pow2 (ulp_exp x))"

definition f64_round :: "rat \<Rightarrow> float64" where
  "f64_round x = (let y = rnd x in
     if 2 ^ 1024 \<le> y then PosInf else if y \<le> - (2 ^ 1024) then NegInf else Fin y)"

section \<open>Operations\<close>

definition f64_of_int :: "int \<Rightarrow> float64" where
  "f64_of_int n = f64_round (of_int n)"

fun f64_add :: "float64 \<Rightarrow> float64 \<Rightarrow> float64" where
  "f64_add (Fin a) (Fin b) = f64_round (a + b)"
| "f64_add NaN _ = NaN"
| "f64_add _ NaN = NaN"
| "f64_add PosInf NegInf = NaN"
| "f64_add NegInf PosInf = NaN"
| "f64_add PosInf _ = PosInf"
| "f64_add _ PosInf = PosInf"
| "f64_add NegInf _ = NegInf"
| "f64_add _ NegInf = NegInf"

fun f64_neg :: "float64 \<Rightarrow> float64" where
  "f64_neg (Fin a) = Fin (- a)"
| "f64_neg PosInf = NegInf"
| "f64_neg NegInf = PosInf"
| "f64_neg NaN = NaN"

definition f64_sub :: "float64 \<Rightarrow> float64 \<Rightarrow> float64" where
  "f64_sub a b = f64_add a (f64_neg b)"

fun f64_sgn :: "float64 \<Rightarrow> int" where
  "f64_sgn (Fin a) = (if 0 < a then 1 else if a < 0 then - 1 else 0)"
| "f64_sgn PosInf = 1"
| "f64_sgn NegInf = - 1"
| "f64_sgn NaN = 0"

definition f64_inf_of_sgn :: "int \<Rightarrow> float64" where
  "f64_inf_of_sgn s = (if 0 < s then PosInf else if s < 0 then NegInf else NaN)"

fun f64_mul :: "float64 \<Rightarrow> float64 \<Rightarrow> float64" where
  "f64_mul (Fin a) (Fin b) = f64_round (a * b)"
| "f64_mul NaN _ = NaN"
| "f64_mul _ NaN = NaN"
| "f64_mul a b = f64_inf_of_sgn (f64_sgn a * f64_sgn b)"

text \<open>Division is only ever by a positive finite number in the gateway; a zero divisor is kept
  for totality (\<^verbatim>\<open>x/0\<close> is an infinity of the sign of \<^verbatim>\<open>x\<close>, the divisor being \<^verbatim>\<open>+0\<close>).\<close>

fun f64_div :: "float64 \<Rightarrow> float64 \<Rightarrow> float64" where
  "f64_div (Fin a) (Fin b) = (if b = 0 then f64_inf_of_sgn (f64_sgn (Fin a)) else f64_round (a / b))"
| "f64_div NaN _ = NaN"
| "f64_div _ NaN = NaN"
| "f64_div (Fin a) _ = Fin 0"
| "f64_div a (Fin b) = f64_inf_of_sgn (f64_sgn a * (if b < 0 then - 1 else 1))"
| "f64_div _ _ = NaN"

fun f64_less :: "float64 \<Rightarrow> float64 \<Rightarrow> bool" where
  "f64_less (Fin a) (Fin b) = (a < b)"
| "f64_less (Fin _) PosInf = True"
| "f64_less NegInf (Fin _) = True"
| "f64_less NegInf PosInf = True"
| "f64_less _ _ = False"

fun f64_eq :: "float64 \<Rightarrow> float64 \<Rightarrow> bool" where
  "f64_eq NaN _ = False"
| "f64_eq _ NaN = False"
| "f64_eq a b = (a = b)"

text \<open>
  \<^verbatim>\<open>int64(x)\<close> truncates; a value that does not fit (or an infinity, or NaN) gives an
  implementation-dependent result, which the argument \<open>conv\<close> supplies.
\<close>

fun f64_to_int64 :: "(float64 \<Rightarrow> int) \<Rightarrow> float64 \<Rightarrow> int" where
  "f64_to_int64 conv (Fin a) =
     (let t = (if 0 \<le> a then \<lfloor>a\<rfloor> else \<lceil>a\<rceil>) in if in_int64 t then t else conv (Fin a))"
| "f64_to_int64 conv x = conv x"

fun f64_ceil :: "float64 \<Rightarrow> float64" where
  "f64_ceil (Fin a) = Fin (of_int \<lceil>a\<rceil>)"
| "f64_ceil x = x"

definition is_f64 :: "rat \<Rightarrow> bool" where
  "is_f64 x \<longleftrightarrow> rnd x = x \<and> \<bar>x\<bar> < 2 ^ 1024"

section \<open>Powers of two and the binary exponent\<close>

lemma pow2_powr: "(of_rat (pow2 k) :: real) = 2 powr (of_int k)"
  by (simp add: pow2_def of_rat_power of_rat_divide powr_realpow [symmetric] powr_minus_divide)

lemma pow2_pos [simp]: "0 < pow2 k"
  by (simp add: pow2_def)

lemma pow2_nonneg [simp]: "0 \<le> pow2 k"
  by (rule less_imp_le) (rule pow2_pos)

lemma pow2_abs [simp]: "\<bar>pow2 k\<bar> = pow2 k"
  by simp

lemma pow2_nonzero [simp]: "pow2 k \<noteq> 0"
  using pow2_pos [of k] by linarith

lemma pow2_add: "pow2 (j + k) = pow2 j * pow2 k"
proof -
  have "(of_rat (pow2 (j + k)) :: real) = of_rat (pow2 j * pow2 k)"
    by (simp add: pow2_powr of_rat_mult powr_add)
  then show ?thesis by (simp only: of_rat_eq_iff)
qed

lemma pow2_Suc: "pow2 (k + 1) = 2 * pow2 k"
  using pow2_add [of k 1] by (simp add: pow2_def [of 1])

lemma pow2_le_iff [simp]: "pow2 j \<le> pow2 k \<longleftrightarrow> j \<le> k"
proof -
  have "pow2 j \<le> pow2 k \<longleftrightarrow> (of_rat (pow2 j) :: real) \<le> of_rat (pow2 k)"
    by (simp only: of_rat_less_eq)
  then show ?thesis by (simp add: pow2_powr)
qed

lemma pow2_less_iff [simp]: "pow2 j < pow2 k \<longleftrightarrow> j < k"
  by (metis pow2_le_iff linorder_not_le)

lemma pow2_nat: "0 \<le> k \<Longrightarrow> pow2 k = of_int (2 ^ nat k)"
  by (simp add: pow2_def)

lemma pow2_diff: "pow2 (j - k) = pow2 j / pow2 k"
  using pow2_add [of "j - k" k] by (simp add: field_simps)

lemma nlog2_bounds: "0 < n \<Longrightarrow> 2 ^ nlog2 n \<le> n \<and> n < 2 ^ Suc (nlog2 n)"
proof (induction n rule: nlog2.induct)
  case (1 n)
  show ?case
  proof (cases "n < 2")
    case True
    with "1.prems" show ?thesis by (simp add: nlog2.simps [of n])
  next
    case False
    with "1.IH" have "2 ^ nlog2 (n div 2) \<le> n div 2 \<and> n div 2 < 2 ^ Suc (nlog2 (n div 2))" by simp
    with False show ?thesis by (auto simp: nlog2.simps [of n])
  qed
qed

lemma ilog2_bounds:
  assumes "0 < x"
  shows "pow2 (ilog2 x) \<le> x" and "x < pow2 (ilog2 x + 1)"
proof -
  obtain n d where q: "quotient_of x = (n, d)" by (cases "quotient_of x")
  have d: "0 < d" using q by (rule quotient_of_denom_pos)
  have x: "x = of_int n / of_int d" using q by (rule quotient_of_div)
  with assms d have n: "0 < n" by (simp add: zero_less_divide_iff)
  let ?a = "nlog2 (nat n)" and ?b = "nlog2 (nat d)"
  let ?k = "int ?a - int ?b"
  have bn: "2 ^ ?a \<le> n" "n < 2 ^ Suc ?a"
    using nlog2_bounds [of "nat n"] n by (auto simp: nat_less_iff le_nat_iff)
  have bd: "2 ^ ?b \<le> d" "d < 2 ^ Suc ?b"
    using nlog2_bounds [of "nat d"] d by (auto simp: nat_less_iff le_nat_iff)
  have rn: "(2::rat) ^ ?a \<le> of_int n" "of_int n < (2::rat) ^ Suc ?a"
    using bn by (metis of_int_le_iff of_int_numeral of_int_power, metis of_int_less_iff of_int_numeral of_int_power)
  have rd: "(2::rat) ^ ?b \<le> of_int d" "of_int d < (2::rat) ^ Suc ?b"
    using bd by (metis of_int_le_iff of_int_numeral of_int_power, metis of_int_less_iff of_int_numeral of_int_power)
  have dpos: "(0::rat) < of_int d" using d by simp
  have pk: "pow2 ?k = 2 ^ ?a / 2 ^ ?b" by (simp add: pow2_diff, simp add: pow2_def)
  have "x < 2 ^ Suc ?a / 2 ^ ?b"
  proof -
    have "x \<le> of_int n / 2 ^ ?b"
      unfolding x using rd(1) n dpos by (intro divide_left_mono) auto
    also have "\<dots> < 2 ^ Suc ?a / 2 ^ ?b" using rn(2) by (intro divide_strict_right_mono) auto
    finally show ?thesis .
  qed
  then have up: "x < pow2 (?k + 1)" by (simp add: pow2_Suc pk)
  have "2 ^ ?a / 2 ^ Suc ?b < x"
  proof -
    have "2 ^ ?a / 2 ^ Suc ?b < (2::rat) ^ ?a / of_int d"
      using rd(2) dpos by (intro divide_strict_left_mono) auto
    also have "\<dots> \<le> x" unfolding x using rn(1) dpos by (intro divide_right_mono) auto
    finally show ?thesis .
  qed
  then have lo: "pow2 (?k - 1) < x" by (simp add: pow2_diff pk) (simp add: pow2_def)
  have il: "ilog2 x = (if pow2 ?k \<le> x then ?k else ?k - 1)"
    by (simp add: ilog2_def q Let_def)
  show "pow2 (ilog2 x) \<le> x" using lo by (simp add: il)
  show "x < pow2 (ilog2 x + 1)" using up by (auto simp: il)
qed

lemma ilog2_eqI:
  assumes "pow2 k \<le> x" "x < pow2 (k + 1)"
  shows "ilog2 x = k"
proof -
  have pos: "0 < x" using assms(1) pow2_pos [of k] by linarith
  have "pow2 (ilog2 x) < pow2 (k + 1)" using ilog2_bounds(1) [OF pos] assms(2) by linarith
  moreover have "pow2 k < pow2 (ilog2 x + 1)" using ilog2_bounds(2) [OF pos] assms(1) by linarith
  ultimately show ?thesis by simp
qed

lemma ilog2_mono: "0 < x \<Longrightarrow> x \<le> y \<Longrightarrow> ilog2 x \<le> ilog2 y"
proof -
  assume a: "0 < x" "x \<le> y"
  then have "pow2 (ilog2 x) < pow2 (ilog2 y + 1)"
    using ilog2_bounds(1) [of x] ilog2_bounds(2) [of y] by linarith
  then show ?thesis by simp
qed

section \<open>Rounding\<close>

lemma round_half_even_of_int [simp]: "round_half_even (of_int n) = n"
  by (simp add: round_half_even_def)

lemma round_half_even_bounds:
  "of_int (round_half_even x) \<le> x + 1 / 2" "x - 1 / 2 \<le> of_int (round_half_even x)"
  by (auto simp: round_half_even_def Let_def; linarith)+

lemma round_half_even_floor: "round_half_even x = \<lfloor>x\<rfloor> \<or> round_half_even x = \<lfloor>x\<rfloor> + 1"
  by (simp add: round_half_even_def Let_def)

lemma round_half_even_mono: "x \<le> y \<Longrightarrow> round_half_even x \<le> round_half_even y"
proof -
  assume xy: "x \<le> y"
  then have fl: "\<lfloor>x\<rfloor> \<le> \<lfloor>y\<rfloor>" by (rule floor_mono)
  show ?thesis
  proof (cases "\<lfloor>x\<rfloor> = \<lfloor>y\<rfloor>")
    case True
    with xy show ?thesis by (auto simp: round_half_even_def Let_def)
  next
    case False
    with fl have "\<lfloor>x\<rfloor> + 1 \<le> \<lfloor>y\<rfloor>" by simp
    with round_half_even_floor [of x] round_half_even_floor [of y] show ?thesis by linarith
  qed
qed

lemma round_half_even_minus: "round_half_even (- x) = - round_half_even x"
proof (cases "x = of_int \<lfloor>x\<rfloor>")
  case True
  then have "- x = of_int (- \<lfloor>x\<rfloor>)" by simp
  then show ?thesis using True by (metis round_half_even_of_int)
next
  case False
  then have fl: "\<lfloor>- x\<rfloor> = - \<lfloor>x\<rfloor> - 1" by linarith
  then have "even \<lfloor>- x\<rfloor> \<longleftrightarrow> odd \<lfloor>x\<rfloor>" by simp
  with fl show ?thesis by (auto simp: round_half_even_def Let_def field_simps)
qed

lemma rnd_0 [simp]: "rnd 0 = 0"
  by (simp add: rnd_def)

lemma rnd_minus: "rnd (- x) = - rnd x"
  by (simp add: rnd_def ulp_exp_def round_half_even_minus)

lemma rnd_error: "\<bar>rnd x - x\<bar> \<le> pow2 (ulp_exp x) / 2"
proof (cases "x = 0")
  case False
  let ?p = "pow2 (ulp_exp x)"
  have "\<bar>of_int (round_half_even (x / ?p)) - x / ?p\<bar> \<le> 1 / 2"
    using round_half_even_bounds [of "x / ?p"] by linarith
  then have "\<bar>of_int (round_half_even (x / ?p)) - x / ?p\<bar> * ?p \<le> 1 / 2 * ?p"
    by (rule mult_right_mono) (simp add: less_imp_le)
  moreover have "\<bar>of_int (round_half_even (x / ?p)) - x / ?p\<bar> * ?p = \<bar>rnd x - x\<bar>"
  proof -
    have "\<bar>of_int (round_half_even (x / ?p)) - x / ?p\<bar> * ?p
        = \<bar>(of_int (round_half_even (x / ?p)) - x / ?p) * ?p\<bar>"
      by (simp add: abs_mult)
    also have "(of_int (round_half_even (x / ?p)) - x / ?p) * ?p = rnd x - x"
      using False by (simp add: rnd_def left_diff_distrib)
    finally show ?thesis .
  qed
  ultimately show ?thesis by simp
qed (simp add: less_imp_le)

lemma rnd_of_multiple:
  assumes "x = of_int m * pow2 (ulp_exp x)"
  shows "rnd x = x"
proof (cases "x = 0")
  case False
  have "x / pow2 (ulp_exp x) = of_int m" using assms by (metis nonzero_mult_div_cancel_right pow2_nonzero)
  then show ?thesis using False assms by (simp add: rnd_def)
qed simp

lemma multiple_pow2_lower:
  assumes "x = of_int m * pow2 e" "k \<le> e"
  shows "x = of_int (m * 2 ^ nat (e - k)) * pow2 k"
proof -
  have "pow2 e = pow2 (e - k) * pow2 k" by (simp add: pow2_add [symmetric])
  then show ?thesis using assms by (simp add: pow2_nat)
qed

lemma rnd_exact:
  assumes x: "x = of_int m * pow2 e" and m: "\<bar>m\<bar> \<le> 2 ^ 53" and e: "- 1074 \<le> e"
  shows "rnd x = x"
proof (cases "m = 0")
  case True
  with x show ?thesis by simp
next
  case nz: False
  have ax: "\<bar>x\<bar> = of_int \<bar>m\<bar> * pow2 e" using x by (simp add: abs_mult less_imp_le)
  show ?thesis
  proof (cases "\<bar>m\<bar> < 2 ^ 53")
    case True
    have "\<bar>x\<bar> < pow2 53 * pow2 e"
      unfolding ax using True
      by (intro mult_strict_right_mono) (simp_all add: pow2_nat del: of_int_abs)
    then have "\<bar>x\<bar> < pow2 (e + 53)" by (simp add: pow2_add mult.commute)
    moreover have pos: "0 < \<bar>x\<bar>" using nz x by simp
    ultimately have "pow2 (ilog2 \<bar>x\<bar>) < pow2 (e + 53)" using ilog2_bounds(1) [OF pos] by linarith
    then have "ulp_exp x \<le> e" using e by (simp add: ulp_exp_def)
    from multiple_pow2_lower [OF x this] show ?thesis by (rule rnd_of_multiple)
  next
    case False
    with m have m53: "\<bar>m\<bar> = 2 ^ 53" by simp
    have "\<bar>x\<bar> = pow2 (e + 53)" unfolding ax m53 by (simp add: pow2_add pow2_nat)
    then have "ilog2 \<bar>x\<bar> = e + 53" by (intro ilog2_eqI) simp_all
    then have ul: "ulp_exp x = e + 1" using e by (simp add: ulp_exp_def)
    have "x = of_int (sgn m * 2 ^ 52) * pow2 (e + 1)"
    proof -
      have "m = sgn m * 2 ^ 53" using m53 by (metis mult_sgn_abs)
      then have "x = of_int (sgn m * 2 ^ 53) * pow2 e" using x by simp
      then show ?thesis by (simp add: pow2_Suc)
    qed
    then show ?thesis using ul by (metis rnd_of_multiple)
  qed
qed

lemma rnd_of_int [simp]: "\<bar>n\<bar> \<le> 2 ^ 53 \<Longrightarrow> rnd (of_int n) = of_int n"
  by (rule rnd_exact [where m = n and e = 0]) (simp_all add: pow2_def)

lemma rnd_pow2 [simp]: "- 1074 \<le> e \<Longrightarrow> rnd (pow2 e) = pow2 e"
  by (rule rnd_exact [where m = 1 and e = e]) simp_all

lemma rnd_le_pow2:
  assumes "0 < x" "x \<le> pow2 k" "ulp_exp x \<le> k"
  shows "rnd x \<le> pow2 k"
proof -
  let ?u = "ulp_exp x"
  have "pow2 k = of_int (2 ^ nat (k - ?u)) * pow2 ?u"
    using multiple_pow2_lower [of "pow2 k" 1 k ?u] assms(3) by simp
  then have "x / pow2 ?u \<le> of_int (2 ^ nat (k - ?u))"
    using assms(2) by (simp add: divide_le_eq)
  then have "round_half_even (x / pow2 ?u) \<le> 2 ^ nat (k - ?u)"
    by (metis round_half_even_mono round_half_even_of_int)
  then have "of_int (round_half_even (x / pow2 ?u)) * pow2 ?u \<le> of_int (2 ^ nat (k - ?u)) * pow2 ?u"
    by (intro mult_right_mono) (simp_all add: less_imp_le del: of_int_power)
  then show ?thesis using assms(1) \<open>pow2 k = _\<close> by (simp add: rnd_def)
qed

lemma rnd_ge_pow2:
  assumes "pow2 k \<le> x" "ulp_exp x \<le> k"
  shows "pow2 k \<le> rnd x"
proof -
  let ?u = "ulp_exp x"
  have pos: "0 < x" using assms(1) pow2_pos [of k] by linarith
  have "pow2 k = of_int (2 ^ nat (k - ?u)) * pow2 ?u"
    using multiple_pow2_lower [of "pow2 k" 1 k ?u] assms(2) by simp
  then have "of_int (2 ^ nat (k - ?u)) \<le> x / pow2 ?u"
    using assms(1) by (simp add: le_divide_eq)
  then have "2 ^ nat (k - ?u) \<le> round_half_even (x / pow2 ?u)"
    by (metis round_half_even_mono round_half_even_of_int)
  then have "of_int (2 ^ nat (k - ?u)) * pow2 ?u \<le> of_int (round_half_even (x / pow2 ?u)) * pow2 ?u"
    by (intro mult_right_mono) (simp_all add: less_imp_le del: of_int_power)
  then show ?thesis using pos \<open>pow2 k = _\<close> by (simp add: rnd_def)
qed

lemma rnd_mono_pos:
  assumes "0 < x" "x \<le> y"
  shows "rnd x \<le> rnd y"
proof (cases "ulp_exp x = ulp_exp y")
  case True
  then have "x / pow2 (ulp_exp x) \<le> y / pow2 (ulp_exp y)"
    using assms by (simp add: divide_right_mono less_imp_le)
  then have "of_int (round_half_even (x / pow2 (ulp_exp x))) \<le> (of_int (round_half_even (y / pow2 (ulp_exp y))) :: rat)"
    by (simp add: round_half_even_mono)
  then show ?thesis
    using assms True by (simp add: rnd_def mult_right_mono less_imp_le)
next
  case False
  have pos: "0 < y" using assms by linarith
  let ?k = "ilog2 y"
  have "ilog2 x \<le> ?k" using assms by (rule ilog2_mono)
  with False assms pos have lt: "ilog2 x < ?k" "- 1074 \<le> ?k - 52" "ulp_exp y = ?k - 52"
    by (auto simp: ulp_exp_def max_def split: if_splits)
  have "x < pow2 (ilog2 x + 1)" using assms by (simp add: ilog2_bounds)
  also have "\<dots> \<le> pow2 ?k" using lt by simp
  finally have "x \<le> pow2 ?k" by simp
  moreover have "ulp_exp x \<le> ?k" using lt assms by (simp add: ulp_exp_def)
  ultimately have "rnd x \<le> pow2 ?k" using assms by (intro rnd_le_pow2)
  also have "\<dots> \<le> rnd y" using lt pos by (intro rnd_ge_pow2) (simp_all add: ilog2_bounds)
  finally show ?thesis .
qed

lemma rnd_nonneg: "0 \<le> x \<Longrightarrow> 0 \<le> rnd x"
proof (cases "x = 0")
  case False
  assume "0 \<le> x"
  then have "(of_int 0 :: rat) \<le> x / pow2 (ulp_exp x)" by (simp add: less_imp_le)
  then have "0 \<le> round_half_even (x / pow2 (ulp_exp x))"
    by (metis round_half_even_mono round_half_even_of_int)
  with False show ?thesis by (simp add: rnd_def less_imp_le)
qed simp

theorem rnd_mono: "x \<le> y \<Longrightarrow> rnd x \<le> rnd y"
proof -
  assume xy: "x \<le> y"
  consider "0 < x" | "x \<le> 0" "0 \<le> y" | "y < 0" by linarith
  then show ?thesis
  proof cases
    case 1
    with xy show ?thesis by (simp add: rnd_mono_pos)
  next
    case 2
    have "rnd x \<le> 0" using rnd_nonneg [of "- x"] 2 by (simp add: rnd_minus)
    also have "0 \<le> rnd y" using 2 by (simp add: rnd_nonneg)
    finally show ?thesis .
  next
    case 3
    with xy rnd_mono_pos [of "- y" "- x"] show ?thesis by (simp add: rnd_minus)
  qed
qed

lemma rnd_between: "a \<le> x \<Longrightarrow> x \<le> b \<Longrightarrow> rnd a = a \<Longrightarrow> rnd b = b \<Longrightarrow> a \<le> rnd x \<and> rnd x \<le> b"
  using rnd_mono [of a x] rnd_mono [of x b] by simp

section \<open>The operations on finite values\<close>

lemma f64_round_finite: "\<bar>x\<bar> \<le> 2 ^ 1023 \<Longrightarrow> f64_round x = Fin (rnd x)"
proof -
  assume "\<bar>x\<bar> \<le> 2 ^ 1023"
  then have "- (pow2 1023) \<le> x" "x \<le> pow2 1023" by (auto simp: pow2_def)
  then have "- (pow2 1023) \<le> rnd x \<and> rnd x \<le> pow2 1023"
    by (intro rnd_between) (simp_all add: rnd_minus)
  moreover have "pow2 1023 < pow2 1024" by simp
  moreover have "pow2 1024 = 2 ^ 1024" by (simp add: pow2_def)
  ultimately show ?thesis by (simp add: f64_round_def Let_def)
qed

lemma f64_of_int_small: "\<bar>n\<bar> \<le> 2 ^ 53 \<Longrightarrow> f64_of_int n = Fin (of_int n)"
proof -
  assume n: "\<bar>n\<bar> \<le> 2 ^ 53"
  then have "\<bar>of_int n :: rat\<bar> \<le> of_int (2 ^ 53)" by linarith
  also have "\<dots> \<le> 2 ^ 1023" by simp
  finally show ?thesis using n by (simp add: f64_of_int_def f64_round_finite)
qed

lemma f64_less_Fin [simp]: "f64_less (Fin a) (Fin b) \<longleftrightarrow> a < b"
  by simp

lemma f64_less_irrefl [simp]: "\<not> f64_less a a"
  by (cases a) simp_all

section \<open>Rounding against a product with a fraction below one\<close>

lemma pow2_minus53: "pow2 (- 53) = 1 / 2 ^ 53"
  by (simp add: pow2_def)

lemma ulp_exp_eqI: "pow2 e \<le> x \<Longrightarrow> x < pow2 (e + 1) \<Longrightarrow> - 1022 \<le> e \<Longrightarrow> ulp_exp x = e - 52"
  using ilog2_eqI [of e x] less_le_trans [OF pow2_pos [of e], of x] by (simp add: ulp_exp_def abs_of_pos)

lemma rnd_below_int:
  assumes T: "1 \<le> T" "T \<le> 2 ^ 53"
  shows "rnd ((1 - 1 / 2 ^ 53) * of_int T) < of_int T"
proof -
  let ?T = "of_int T :: rat"
  let ?x = "(1 - 1 / 2 ^ 53) * ?T"
  define e where "e = ilog2 ?T"
  have Tpos: "0 < ?T" using T by simp
  have e: "pow2 e \<le> ?T" "?T < pow2 (e + 1)" unfolding e_def using ilog2_bounds [OF Tpos] by simp_all
  have "pow2 0 \<le> ?T" using T by (simp add: pow2_def)
  then have "pow2 0 < pow2 (e + 1)" using e(2) by (rule le_less_trans)
  then have e0: "0 \<le> e" by simp
  have p53: "pow2 (e - 53) = pow2 e / 2 ^ 53" by (simp add: pow2_diff pow2_def [of 53])
  have xT: "?x = ?T - ?T / 2 ^ 53" by (simp add: algebra_simps)
  show ?thesis
  proof (cases "?T = pow2 e")
    case True
    have "?x = of_int (2 ^ 53 - 1) * pow2 (e - 53)" unfolding p53 True by (simp add: field_simps)
    then have "rnd ?x = ?x" by (rule rnd_exact) (use e0 in simp_all)
    then show ?thesis using Tpos by simp
  next
    case False
    have pe: "pow2 e = of_int (2 ^ nat e)" using e0 by (rule pow2_nat)
    have "pow2 e < ?T" using False e(1) by simp
    then have "2 ^ nat e < T" unfolding pe by (simp only: of_int_less_iff)
    then have "2 ^ nat e + 1 \<le> T" by simp
    then have step: "pow2 e + 1 \<le> ?T" unfolding pe by (metis of_int_1 of_int_add of_int_le_iff)
    have "?T \<le> of_int (2 ^ 53)" using T(2) by (simp only: of_int_le_iff)
    then have "?T / 2 ^ 53 \<le> 1" by simp
    then have lo: "pow2 e \<le> ?x" using step unfolding xT by linarith
    have "0 < ?T / 2 ^ 53" using Tpos by simp
    then have hi: "?x < pow2 (e + 1)" using e(2) unfolding xT by linarith
    have "ulp_exp ?x = e - 52" by (rule ulp_exp_eqI [OF lo hi]) (use e0 in simp)
    then have "\<bar>rnd ?x - ?x\<bar> \<le> pow2 (e - 52) / 2" using rnd_error [of ?x] by simp
    moreover have "pow2 (e - 52) / 2 = pow2 e / 2 ^ 53" by (simp add: pow2_diff pow2_def [of 52])
    moreover have "pow2 e / 2 ^ 53 < ?T / 2 ^ 53" using \<open>pow2 e < ?T\<close> by (simp add: divide_strict_right_mono)
    ultimately show ?thesis using xT by linarith
  qed
qed

lemma rnd_fraction:
  assumes "0 \<le> u" "u \<le> 1 - 1 / 2 ^ 53" "1 \<le> T" "T \<le> 2 ^ 53"
  shows "0 \<le> rnd (u * of_int T) \<and> rnd (u * of_int T) < of_int T"
proof -
  have T: "0 \<le> (of_int T :: rat)" using assms(3) by simp
  have "u * of_int T \<le> (1 - 1 / 2 ^ 53) * of_int T" by (rule mult_right_mono [OF assms(2) T])
  from rnd_mono [OF this] rnd_below_int [OF assms(3,4)] show ?thesis
    using assms(1) T by (auto intro!: rnd_nonneg)
qed

section \<open>Convex combinations below a power of two\<close>

lemma rnd_repr: "\<exists>m e. rnd x = of_int m * pow2 e \<and> \<bar>m\<bar> \<le> 2 ^ 53 \<and> - 1074 \<le> e"
proof (cases "x = 0")
  case True
  then show ?thesis by (intro exI [of _ 0]) auto
next
  case False
  let ?e = "ulp_exp x"
  let ?y = "x / pow2 ?e"
  have "\<bar>x\<bar> < pow2 (ilog2 \<bar>x\<bar> + 1)" using False by (intro ilog2_bounds) simp
  also have "\<dots> \<le> pow2 (?e + 53)" by (simp add: ulp_exp_def)
  also have "\<dots> = 2 ^ 53 * pow2 ?e" by (simp add: pow2_add pow2_def [of 53])
  finally have "\<bar>?y\<bar> < 2 ^ 53" by (simp add: field_simps abs_mult)
  then have y: "?y \<le> of_int (2 ^ 53)" "of_int (- (2 ^ 53)) \<le> ?y"
    using abs_ge_self [of ?y] abs_ge_minus_self [of ?y] by (simp_all only: of_int_minus of_int_power of_int_numeral)
  have "round_half_even ?y \<le> 2 ^ 53"
    using round_half_even_mono [OF y(1)] by (simp only: round_half_even_of_int)
  moreover have "- (2 ^ 53) \<le> round_half_even ?y"
    using round_half_even_mono [OF y(2)] by (simp only: round_half_even_of_int)
  ultimately have "\<bar>round_half_even ?y\<bar> \<le> 2 ^ 53" by linarith
  moreover have "rnd x = of_int (round_half_even ?y) * pow2 ?e" using False by (simp add: rnd_def)
  moreover have "- 1074 \<le> ?e" by (simp add: ulp_exp_def)
  ultimately show ?thesis by blast
qed

lemma rnd_idem [simp]: "rnd (rnd x) = rnd x"
  using rnd_repr [of x] rnd_exact by metis

lemma rnd_scale:
  assumes "rnd a = a" "0 \<le> k"
  shows "rnd (a * pow2 k) = a * pow2 k"
proof -
  obtain m e where me: "a = of_int m * pow2 e" "\<bar>m\<bar> \<le> 2 ^ 53" "- 1074 \<le> e"
    using rnd_repr [of a] assms(1) by auto
  have "a * pow2 k = of_int m * pow2 (e + k)" by (simp add: me(1) pow2_add)
  then show ?thesis by (rule rnd_exact) (use me assms(2) in simp_all)
qed

lemma rnd_one_plus_half_ulp:
  assumes "0 \<le> k"
  shows "rnd (pow2 k * (1 + 1 / 2 ^ 53)) = pow2 k"
proof -
  let ?x = "pow2 k * (1 + 1 / 2 ^ 53)"
  have u: "ulp_exp ?x = k - 52"
  proof (rule ulp_exp_eqI)
    show "pow2 k \<le> ?x" by simp
    show "?x < pow2 (k + 1)" unfolding pow2_Suc by simp
  qed (use assms in simp)
  have "pow2 (k - 52) = pow2 k / 2 ^ 52" by (simp add: pow2_diff pow2_def [of 52])
  then have q: "?x / pow2 (k - 52) = 2 ^ 52 + 1 / 2" by (simp add: field_simps)
  have f: "\<lfloor>9007199254740993 / 2 :: rat\<rfloor> = 4503599627370496" by (simp add: floor_eq_iff)
  have "round_half_even (2 ^ 52 + 1 / 2) = 2 ^ 52" by (simp add: round_half_even_def Let_def f)
  moreover have "?x \<noteq> 0" by simp
  ultimately have "rnd ?x = of_int (2 ^ 52) * pow2 (k - 52)" by (simp only: rnd_def u q if_False)
  then show ?thesis by (simp add: pow2_diff pow2_def [of 52])
qed

lemma rnd_convex:
  assumes a: "0 \<le> a" "a \<le> 1" "rnd a = a" and s: "0 \<le> s" "s \<le> pow2 k" and p: "0 \<le> p" "p \<le> pow2 k" and k: "0 \<le> k"
  shows "0 \<le> rnd (a * s) + rnd (rnd (1 - a) * p)"
    and "rnd (a * s) + rnd (rnd (1 - a) * p) \<le> pow2 k * (1 + 1 / 2 ^ 53)"
    and "rnd (rnd (a * s) + rnd (rnd (1 - a) * p)) \<le> pow2 k"
proof -
  let ?b = "rnd (1 - a)"
  have b0: "0 \<le> ?b" using a by (intro rnd_nonneg) simp
  show pos: "0 \<le> rnd (a * s) + rnd (?b * p)"
    using a s p b0 by (intro add_nonneg_nonneg rnd_nonneg mult_nonneg_nonneg) simp_all
  have "rnd (a * s) \<le> rnd (a * pow2 k)" using a s by (intro rnd_mono mult_left_mono) simp_all
  then have 1: "rnd (a * s) \<le> a * pow2 k" using rnd_scale [OF a(3) k] by simp
  have "rnd (?b * p) \<le> rnd (?b * pow2 k)" using b0 p by (intro rnd_mono mult_left_mono) simp_all
  then have 2: "rnd (?b * p) \<le> ?b * pow2 k" using rnd_scale [of ?b, OF _ k] by simp
  have "?b \<le> 1 - a + 1 / 2 ^ 53"
  proof (cases "a = 1")
    case False
    then have x: "0 < 1 - a" using a(2) by simp
    have "ilog2 (1 - a) \<le> ilog2 1" using x a(1) by (intro ilog2_mono) simp_all
    also have "ilog2 1 = 0" by (rule ilog2_eqI) (simp_all add: pow2_def)
    finally have "ulp_exp (1 - a) \<le> - 52" using x by (simp add: ulp_exp_def)
    then have "pow2 (ulp_exp (1 - a)) / 2 \<le> pow2 (- 52) / 2" by simp
    also have "\<dots> = 1 / 2 ^ 53" by (simp add: pow2_def)
    finally show ?thesis using rnd_error [of "1 - a"] by linarith
  qed simp
  then have "(a + ?b) * pow2 k \<le> (1 + 1 / 2 ^ 53) * pow2 k" by (intro mult_right_mono) simp_all
  then show le: "rnd (a * s) + rnd (?b * p) \<le> pow2 k * (1 + 1 / 2 ^ 53)"
    using 1 2 by (simp add: algebra_simps)
  show "rnd (rnd (a * s) + rnd (?b * p)) \<le> pow2 k"
    using rnd_mono [OF le] rnd_one_plus_half_ulp [OF k] by simp
qed

end
