(* ===== verification/Chat_Model.thy ===== *)
theory Chat_Model
  imports Float64
begin

text \<open>
  The data the gateway passes around: the OpenAI-shaped requests, responses and stream chunks of
  \<^verbatim>\<open>internal/model/chat.go\<close>, the errors of \<^verbatim>\<open>internal/model/errors.go\<close>, and the stream events of
  \<^verbatim>\<open>internal/provider/provider.go\<close>. A Go pointer that may be nil is an \<open>option\<close>, and so is a
  slice whose JSON text tells nil (\<^verbatim>\<open>null\<close>) from empty. A Go \<^verbatim>\<open>error\<close> is
  a \<open>go_error\<close>: a plain text, a text wrapped around another error with \<^verbatim>\<open>%w\<close>, one of the
  package-level sentinels, or a \<^verbatim>\<open>*ProviderError\<close>.
\<close>

section \<open>Requests and responses\<close>

record Message =
  Role :: string
  Content :: string
  Name :: string

record ChatCompletionRequest =
  reqModel :: string
  Messages :: "Message list"
  Temperature :: "float64 option"
  TopP :: "float64 option"
  reqN :: "int option"
  Stream :: bool
  Stop :: "string list"
  MaxTokens :: "int option"
  PresencePenalty :: "float64 option"
  FrequencyPenalty :: "float64 option"
  reqUser :: string

record Usage =
  PromptTokens :: int
  CompletionTokens :: int
  TotalTokens :: int

record Choice =
  Index :: int
  choiceMessage :: Message
  FinishReason :: string

record ChatCompletionResponse =
  ID :: string
  Object :: string
  Created :: int
  respModel :: string
  Choices :: "Choice list option"
  respUsage :: Usage
  SystemFingerprint :: string

record DeltaMessage =
  deltaRole :: string
  deltaContent :: string

record ChunkChoice =
  chunkIndex :: int
  Delta :: DeltaMessage
  chunkFinishReason :: "string option"

record ChatCompletionChunk =
  chunkID :: string
  chunkObject :: string
  chunkCreated :: int
  chunkModel :: string
  chunkChoices :: "ChunkChoice list option"
  chunkUsage :: "Usage option"

definition zeroUsage :: Usage where
  "zeroUsage = \<lparr>PromptTokens = 0, CompletionTokens = 0, TotalTokens = 0\<rparr>"

definition zeroRequest :: ChatCompletionRequest where
  "zeroRequest = \<lparr>reqModel = [], Messages = [], Temperature = None, TopP = None, reqN = None, Stream = False,
     Stop = [], MaxTokens = None, PresencePenalty = None, FrequencyPenalty = None, reqUser = []\<rparr>"

section \<open>Errors\<close>

record ProviderError =
  StatusCode :: int
  peType :: string
  peMessage :: string
  Retryable :: bool
  RetryAfter :: duration

datatype sentinel =
    ErrUnknownModel | ErrNoHealthyProviders
  | ErrNotFound | ErrInvalidKey | ErrNoRows
  | ErrCanceled | ErrDeadlineExceeded

datatype go_error =
    ErrText string
  | ErrWrapped string go_error
  | ErrSentinel sentinel
  | ErrProvider ProviderError

fun sentinel_text :: "sentinel \<Rightarrow> string" where
  "sentinel_text ErrUnknownModel = ''unknown model''"
| "sentinel_text ErrNoHealthyProviders = ''no healthy providers''"
| "sentinel_text ErrNotFound = ''not found''"
| "sentinel_text ErrInvalidKey = ''invalid api key''"
| "sentinel_text ErrNoRows = ''no rows in result set''"
| "sentinel_text ErrCanceled = ''context canceled''"
| "sentinel_text ErrDeadlineExceeded = ''context deadline exceeded''"

definition ProviderError_Error :: "ProviderError \<Rightarrow> string" where
  "ProviderError_Error e = ''provider error ('' @ Itoa (StatusCode e) @ ''): '' @ peMessage e"

fun err_Error :: "go_error \<Rightarrow> string" where
  "err_Error (ErrText s) = s"
| "err_Error (ErrWrapped s e) = s @ '': '' @ err_Error e"
| "err_Error (ErrSentinel x) = sentinel_text x"
| "err_Error (ErrProvider pe) = ProviderError_Error pe"

text \<open>\<^verbatim>\<open>errors.Is\<close> against a sentinel and \<^verbatim>\<open>errors.As\<close> against \<^verbatim>\<open>*ProviderError\<close> follow the \<^verbatim>\<open>%w\<close> chain.\<close>

fun errors_Is :: "go_error \<Rightarrow> sentinel \<Rightarrow> bool" where
  "errors_Is (ErrSentinel y) x = (y = x)"
| "errors_Is (ErrWrapped s e) x = errors_Is e x"
| "errors_Is _ x = False"

fun errors_As_ProviderError :: "go_error \<Rightarrow> ProviderError option" where
  "errors_As_ProviderError (ErrProvider pe) = Some pe"
| "errors_As_ProviderError (ErrWrapped s e) = errors_As_ProviderError e"
| "errors_As_ProviderError _ = None"

text \<open>
  \<^verbatim>\<open>ParseRetryAfter\<close>. The RFC 1123 date parser of the standard library is the argument
  \<open>parseRFC1123\<close> (nanoseconds since the epoch, or None on a parse error) and \<open>now\<close> is the clock
  that \<^verbatim>\<open>time.Until\<close> reads; \<^verbatim>\<open>time.Until\<close> saturates, \<^verbatim>\<open>time.Duration(secs) * time.Second\<close> wraps.
\<close>

definition ParseRetryAfter :: "(string \<Rightarrow> instant option) \<Rightarrow> instant \<Rightarrow> string \<Rightarrow> duration" where
  "ParseRetryAfter parseRFC1123 now header =
     (if header = [] then 0
      else case Atoi header of
          Some secs \<Rightarrow> wrap64 (secs * nanosPerSecond)
        | None \<Rightarrow> (case parseRFC1123 header of
            Some t \<Rightarrow> (let d = sat64 (t - now) in if 0 < d then d else 0)
          | None \<Rightarrow> 0))"

section \<open>Stream events\<close>

datatype StreamEvent = ChunkEvent ChatCompletionChunk | ErrEvent go_error

fun evt_Err :: "StreamEvent \<Rightarrow> go_error option" where
  "evt_Err (ChunkEvent c) = None"
| "evt_Err (ErrEvent e) = Some e"

section \<open>Lemmas\<close>

lemma Atoi_nonempty: "Atoi s = Some n \<Longrightarrow> s \<noteq> []"
  by (auto simp: Atoi_def)

lemma Itoa_nonempty [simp]: "Itoa n \<noteq> []"
  by (simp add: Itoa_def)

lemma ParseRetryAfter_seconds:
  "in_int64 n \<Longrightarrow> ParseRetryAfter p now (Itoa n) = wrap64 (n * nanosPerSecond)"
  by (simp add: ParseRetryAfter_def Atoi_Itoa)

lemma ParseRetryAfter_in_int64: "in_int64 (ParseRetryAfter p now h)"
proof -
  have "in_int64 0" by (simp add: in_int64_def)
  then show ?thesis
    by (auto simp: ParseRetryAfter_def Let_def go_arith split: option.splits)
qed

text \<open>
  \<^verbatim>\<open>ParseRetryAfter\<close> reads a delay-seconds header exactly: the decimal text of \<open>n\<close> seconds gives
  \<open>n\<close> seconds in nanoseconds, for every \<open>n\<close> whose nanosecond count fits in 64 bits.
\<close>

theorem ParseRetryAfter_delay_seconds:
  assumes "0 \<le> n" and "n \<le> 9223372036"
  shows "ParseRetryAfter parseRFC1123 now (Itoa n) = n * nanosPerSecond"
proof -
  have "in_int64 n" "in_int64 (n * nanosPerSecond)"
    using assms by (simp_all add: in_int64_def nanosPerSecond_def)
  then show ?thesis by (simp add: ParseRetryAfter_seconds)
qed

theorem ParseRetryAfter_delay_seconds_witness:
  "ParseRetryAfter (\<lambda>_. None) 0 (Itoa 120) = 120000000000"
  using ParseRetryAfter_delay_seconds [of 120 "\<lambda>_. None" 0] by (simp add: nanosPerSecond_def)

end
