(* ===== verification/Metrics.thy ===== *)
theory Metrics
  imports Chat_Model
begin

text \<open>
  \<^verbatim>\<open>internal/metrics/metrics.go\<close>. The Prometheus client is not part of the repository: an emission is
  the list of calls made on its collectors (\<open>metric_call\<close>), in order, and what the histogram
  exports is the input of \<open>ProviderLatencyTotals\<close>.
\<close>

datatype metric_call =
    Inc string "string list"
  | Observe string "string list" float64
  | SetGauge string "string list" float64

text \<open>\<^verbatim>\<open>Duration.Seconds\<close> of the standard library: whole seconds plus the nanosecond rest over 1e9.\<close>

definition duration_Seconds :: "duration \<Rightarrow> float64" where
  "duration_Seconds d =
     f64_add (f64_of_int (d sdiv nanosPerSecond))
       (f64_div (f64_of_int (d smod nanosPerSecond)) (Fin 1000000000))"

definition statusClass :: "int \<Rightarrow> string" where
  "statusClass status =
     (if 200 \<le> status \<and> status < 300 then ''2xx''
      else if 300 \<le> status \<and> status < 400 then ''3xx''
      else if 400 \<le> status \<and> status < 500 then ''4xx''
      else if 500 \<le> status \<and> status < 600 then ''5xx''
      else ''other'')"

definition RecordRequest :: "string \<Rightarrow> string \<Rightarrow> int \<Rightarrow> duration \<Rightarrow> metric_call list" where
  "RecordRequest method pathTemplate status duration =
     [Inc ''gateway_requests_total'' [method, pathTemplate, statusClass status],
      Observe ''gateway_request_duration_seconds'' [method, pathTemplate] (duration_Seconds duration)]"

definition RecordProviderRequest :: "string \<Rightarrow> int \<Rightarrow> duration \<Rightarrow> metric_call list" where
  "RecordProviderRequest provider status duration =
     [Inc ''gateway_provider_requests_total'' [provider, statusClass status],
      Observe ''gateway_provider_request_duration_seconds'' [provider] (duration_Seconds duration)]"

definition RecordRateLimit :: "string \<Rightarrow> metric_call list" where
  "RecordRateLimit outcome = [Inc ''gateway_ratelimit_hits_total'' [outcome]]"

definition RecordAuthFailure :: "string \<Rightarrow> metric_call list" where
  "RecordAuthFailure reason = [Inc ''gateway_auth_failures_total'' [reason]]"

definition SetProviderHealth :: "string \<Rightarrow> bool \<Rightarrow> metric_call list" where
  "SetProviderHealth provider healthy =
     [SetGauge ''gateway_provider_health'' [provider] (if healthy then Fin 1 else Fin 0)]"

record LatencyTotal =
  Sum :: float64
  Count :: "64 word"

record collected =
  writeFails :: bool
  histogram :: "LatencyTotal option"
  labelPairs :: "(string \<times> string) list"

definition label_value :: "(string \<times> string) list \<Rightarrow> string" where
  "label_value lps = (case find (\<lambda>lp. fst lp = ''provider'') lps of None \<Rightarrow> [] | Some lp \<Rightarrow> snd lp)"

fun ProviderLatencyTotals :: "(string \<rightharpoonup> LatencyTotal) \<Rightarrow> collected list \<Rightarrow> (string \<rightharpoonup> LatencyTotal)" where
  "ProviderLatencyTotals out [] = out"
| "ProviderLatencyTotals out (m # ms) =
     ProviderLatencyTotals
       (if writeFails m then out
        else case histogram m of
            None \<Rightarrow> out
          | Some h \<Rightarrow> (let provider = label_value (labelPairs m) in
              if provider = [] then out else out(provider \<mapsto> h))) ms"

section \<open>Lemmas\<close>

lemma statusClass_range: "statusClass s \<in> {''2xx'', ''3xx'', ''4xx'', ''5xx'', ''other''}"
  by (simp add: statusClass_def)

lemma ProviderLatencyTotals_no_empty:
  "out [] = None \<Longrightarrow> ProviderLatencyTotals out ms [] = None"
  by (induction ms arbitrary: out) (auto simp: Let_def split: option.splits)

end
