(* ===== verification/Provider_Health.thy ===== *)
theory Provider_Health
  imports Metrics
begin

text \<open>
  The per-provider circuit breaker of \<^verbatim>\<open>internal/provider/health.go\<close>. Every method of the Go type
  runs under its mutex, so a concurrent execution is some sequence of whole method calls and the
  model is a state (\<open>ProviderHealth\<close>) with one function per method; the clock \<^verbatim>\<open>h.now()\<close> is an
  argument. An \<open>instant\<close> counts nanoseconds from Go's zero \<^verbatim>\<open>time.Time\<close>, so the zero time is 0 and
  \<^verbatim>\<open>Time.Sub\<close> is a saturating difference.
\<close>

section \<open>State and operations\<close>

record HealthConfig =
  FailureThreshold :: int
  CooldownPeriod :: duration

record HealthStatus =
  Healthy :: bool
  ConsecutiveFails :: int
  LastSuccess :: "instant option"
  LastFailure :: "instant option"
  LastError :: string

record ProviderHealth =
  consecutiveFails :: int
  lastSuccess :: instant
  lastFailure :: instant
  lastError :: string
  healthy :: bool
  failureThreshold :: int
  cooldownPeriod :: duration

definition time_Sub :: "instant \<Rightarrow> instant \<Rightarrow> duration" where
  "time_Sub t u = sat64 (t - u)"

definition NewProviderHealth :: "HealthConfig \<Rightarrow> ProviderHealth" where
  "NewProviderHealth cfg =
     (let threshold = (if FailureThreshold cfg \<le> 0 then 5 else FailureThreshold cfg);
          cooldown = (if CooldownPeriod cfg \<le> 0 then 30 * nanosPerSecond else CooldownPeriod cfg)
      in \<lparr>consecutiveFails = 0, lastSuccess = 0, lastFailure = 0, lastError = [], healthy = True,
          failureThreshold = threshold, cooldownPeriod = cooldown\<rparr>)"

definition RecordSuccess :: "instant \<Rightarrow> ProviderHealth \<Rightarrow> ProviderHealth" where
  "RecordSuccess now h = h\<lparr>consecutiveFails := 0, lastSuccess := now, healthy := True\<rparr>"

definition RecordFailure :: "instant \<Rightarrow> go_error option \<Rightarrow> ProviderHealth \<Rightarrow> bool \<times> ProviderHealth" where
  "RecordFailure now err h =
     (let h1 = h\<lparr>consecutiveFails := wrap64 (consecutiveFails h + 1), lastFailure := now\<rparr>;
          h2 = (case err of None \<Rightarrow> h1 | Some e \<Rightarrow> h1\<lparr>lastError := err_Error e\<rparr>);
          h3 = (if failureThreshold h2 \<le> consecutiveFails h2 then h2\<lparr>healthy := False\<rparr> else h2)
      in (healthy h3, h3))"

definition IsHealthy :: "instant \<Rightarrow> ProviderHealth \<Rightarrow> bool" where
  "IsHealthy now h \<longleftrightarrow> (if healthy h then True else cooldownPeriod h \<le> time_Sub now (lastFailure h))"

definition HealthyStrict :: "ProviderHealth \<Rightarrow> bool" where
  "HealthyStrict h = healthy h"

definition Status :: "instant \<Rightarrow> ProviderHealth \<Rightarrow> HealthStatus" where
  "Status now h =
     (let ok = healthy h;
          ok = (if \<not> ok \<and> cooldownPeriod h \<le> time_Sub now (lastFailure h) then True else ok)
      in \<lparr>Healthy = ok, ConsecutiveFails = consecutiveFails h,
          LastSuccess = (if lastSuccess h = 0 then None else Some (lastSuccess h)),
          LastFailure = (if lastFailure h = 0 then None else Some (lastFailure h)),
          LastError = lastError h\<rparr>)"

section \<open>Histories and the abstract breaker\<close>

text \<open>
  A history is the sequence of recorded outcomes, oldest first. The specification of the breaker
  looks at nothing but the run of failures at its end.
\<close>

datatype outcome = Succeeded instant | Failed instant "go_error option"

fun record_outcome :: "ProviderHealth \<Rightarrow> outcome \<Rightarrow> ProviderHealth" where
  "record_outcome h (Succeeded t) = RecordSuccess t h"
| "record_outcome h (Failed t e) = snd (RecordFailure t e h)"

definition run_outcomes :: "ProviderHealth \<Rightarrow> outcome list \<Rightarrow> ProviderHealth" where
  "run_outcomes h os = fold (\<lambda>x h. record_outcome h x) os h"

fun is_failure :: "outcome \<Rightarrow> bool" where
  "is_failure (Succeeded t) = False"
| "is_failure (Failed t e) = True"

definition trailing_failures :: "outcome list \<Rightarrow> nat" where
  "trailing_failures os = length (takeWhile is_failure (rev os))"

fun last_failure_time :: "outcome list \<Rightarrow> instant" where
  "last_failure_time os = (case find is_failure (rev os) of Some (Failed t e) \<Rightarrow> t | _ \<Rightarrow> 0)"

definition health_inv :: "ProviderHealth \<Rightarrow> bool" where
  "health_inv h \<longleftrightarrow>
     0 < failureThreshold h \<and> 0 < cooldownPeriod h \<and> 0 \<le> consecutiveFails h \<and>
     in_int64 (failureThreshold h) \<and> in_int64 (cooldownPeriod h) \<and>
     (healthy h \<longleftrightarrow> consecutiveFails h < failureThreshold h)"

section \<open>The interface other components rely on\<close>

text \<open>
  \<open>circuit_breaker\<close> is what the retry decorator and the router know of a provider's health: a
  count of consecutive failures, a strict flag derived from it, and a permissive view that lets a
  tripped breaker through once its cooldown has passed.
\<close>

locale circuit_breaker =
  fixes succeed :: "instant \<Rightarrow> 'h \<Rightarrow> 'h"
    and failed :: "instant \<Rightarrow> go_error option \<Rightarrow> 'h \<Rightarrow> bool \<times> 'h"
    and strict :: "'h \<Rightarrow> bool"
    and usable :: "instant \<Rightarrow> 'h \<Rightarrow> bool"
    and fails :: "'h \<Rightarrow> int"
    and threshold :: "'h \<Rightarrow> int"
    and cooldown :: "'h \<Rightarrow> duration"
    and invar :: "'h \<Rightarrow> bool"
  assumes invar_succeed: "invar h \<Longrightarrow> invar (succeed t h)"
    and invar_failed: "invar h \<Longrightarrow> fails h < 2 ^ 63 - 1 \<Longrightarrow> invar (snd (failed t e h))"
    and fails_succeed: "fails (succeed t h) = 0"
    and fails_failed: "invar h \<Longrightarrow> fails h < 2 ^ 63 - 1 \<Longrightarrow> fails (snd (failed t e h)) = fails h + 1"
    and threshold_succeed: "threshold (succeed t h) = threshold h"
    and threshold_failed: "threshold (snd (failed t e h)) = threshold h"
    and cooldown_succeed: "cooldown (succeed t h) = cooldown h"
    and cooldown_failed: "cooldown (snd (failed t e h)) = cooldown h"
    and threshold_pos: "invar h \<Longrightarrow> 0 < threshold h"
    and strict_iff: "invar h \<Longrightarrow> strict h \<longleftrightarrow> fails h < threshold h"
    and failed_flag: "fst (failed t e h) = strict (snd (failed t e h))"
    and strict_usable: "strict h \<Longrightarrow> usable t h"
    and tripped_usable: "invar h \<Longrightarrow> \<not> strict (snd (failed t e h)) \<Longrightarrow>
          usable u (snd (failed t e h)) \<longleftrightarrow> cooldown h \<le> sat64 (u - t)"
begin

lemma strict_succeed: "invar h \<Longrightarrow> strict (succeed t h)"
  using strict_iff [OF invar_succeed] fails_succeed threshold_pos [OF invar_succeed] by simp

lemma failed_reports: "invar h \<Longrightarrow> fails h < 2 ^ 63 - 1 \<Longrightarrow>
    fst (failed t e h) \<longleftrightarrow> fails h + 1 < threshold h"
  using strict_iff [OF invar_failed] by (simp add: failed_flag fails_failed threshold_failed)

fun fail_many :: "(instant \<times> go_error option) list \<Rightarrow> 'h \<Rightarrow> 'h" where
  "fail_many [] h = h"
| "fail_many ((t, e) # xs) h = fail_many xs (snd (failed t e h))"

lemma fail_many_counts:
  "invar h \<Longrightarrow> fails h + int (length xs) < 2 ^ 63 \<Longrightarrow>
     invar (fail_many xs h) \<and> fails (fail_many xs h) = fails h + int (length xs) \<and>
     threshold (fail_many xs h) = threshold h"
  by (induction xs h rule: fail_many.induct) (auto simp: invar_failed fails_failed threshold_failed)

end

section \<open>The breaker keeps its invariant\<close>

lemma RecordSuccess_simps [simp]:
  "consecutiveFails (RecordSuccess t h) = 0"
  "healthy (RecordSuccess t h) = True"
  "failureThreshold (RecordSuccess t h) = failureThreshold h"
  "cooldownPeriod (RecordSuccess t h) = cooldownPeriod h"
  "lastFailure (RecordSuccess t h) = lastFailure h"
  by (simp_all add: RecordSuccess_def)

lemma RecordFailure_simps [simp]:
  "consecutiveFails (snd (RecordFailure t e h)) = wrap64 (consecutiveFails h + 1)"
  "failureThreshold (snd (RecordFailure t e h)) = failureThreshold h"
  "cooldownPeriod (snd (RecordFailure t e h)) = cooldownPeriod h"
  "lastFailure (snd (RecordFailure t e h)) = t"
  "healthy (snd (RecordFailure t e h)) \<longleftrightarrow>
     healthy h \<and> wrap64 (consecutiveFails h + 1) < failureThreshold h"
  by (auto simp: RecordFailure_def Let_def split: option.splits)

lemma RecordFailure_flag: "fst (RecordFailure t e h) = healthy (snd (RecordFailure t e h))"
  by (simp add: RecordFailure_def Let_def)

lemma NewProviderHealth_inv [gw_inv]:
  "in_int64 (FailureThreshold cfg) \<Longrightarrow> in_int64 (CooldownPeriod cfg) \<Longrightarrow> health_inv (NewProviderHealth cfg)"
  by (auto simp: health_inv_def NewProviderHealth_def Let_def in_int64_def nanosPerSecond_def)

lemma RecordSuccess_inv [gw_inv]: "health_inv h \<Longrightarrow> health_inv (RecordSuccess t h)"
  by (simp add: health_inv_def)

lemma fails_next: "health_inv h \<Longrightarrow> consecutiveFails h < 2 ^ 63 - 1 \<Longrightarrow>
    wrap64 (consecutiveFails h + 1) = consecutiveFails h + 1"
  by (simp add: health_inv_def in_int64_def)

lemma RecordFailure_inv [gw_inv]:
  "health_inv h \<Longrightarrow> consecutiveFails h < 2 ^ 63 - 1 \<Longrightarrow> health_inv (snd (RecordFailure t e h))"
  using fails_next [of h] by (auto simp: health_inv_def)

interpretation breaker: circuit_breaker
  RecordSuccess RecordFailure HealthyStrict IsHealthy
  consecutiveFails failureThreshold cooldownPeriod health_inv
  by unfold_locales
    (auto simp: gw_inv fails_next RecordFailure_flag HealthyStrict_def IsHealthy_def time_Sub_def
       health_inv_def)

section \<open>The breaker against its specification\<close>

lemma trailing_failures_Nil [simp]: "trailing_failures [] = 0"
  by (simp add: trailing_failures_def)

lemma trailing_failures_snoc [simp]:
  "trailing_failures (os @ [x]) = (if is_failure x then Suc (trailing_failures os) else 0)"
  by (simp add: trailing_failures_def)

lemma trailing_failures_le: "trailing_failures os \<le> length os"
  by (simp add: trailing_failures_def) (metis length_rev length_takeWhile_le)

lemma run_outcomes_Nil [simp]: "run_outcomes h [] = h"
  by (simp add: run_outcomes_def)

lemma run_outcomes_snoc [simp]: "run_outcomes h (os @ [x]) = record_outcome (run_outcomes h os) x"
  by (simp add: run_outcomes_def)

lemma run_outcomes_state:
  assumes "health_inv h" "consecutiveFails h = 0" "lastFailure h = 0" "length os < 2 ^ 63 - 1"
  shows "health_inv (run_outcomes h os) \<and>
     consecutiveFails (run_outcomes h os) = int (trailing_failures os) \<and>
     lastFailure (run_outcomes h os) = last_failure_time os \<and>
     failureThreshold (run_outcomes h os) = failureThreshold h \<and>
     cooldownPeriod (run_outcomes h os) = cooldownPeriod h"
  using assms(4)
proof (induction os rule: rev_induct)
  case Nil
  with assms show ?case by simp
next
  case (snoc x os)
  then have IH: "health_inv (run_outcomes h os)"
      "consecutiveFails (run_outcomes h os) = int (trailing_failures os)"
      "lastFailure (run_outcomes h os) = last_failure_time os"
      "failureThreshold (run_outcomes h os) = failureThreshold h"
      "cooldownPeriod (run_outcomes h os) = cooldownPeriod h"
    by simp_all
  have "int (trailing_failures os) < 2 ^ 63 - 1"
    using snoc.prems trailing_failures_le [of os] by simp
  moreover from this have "wrap64 (int (trailing_failures os) + 1) = int (trailing_failures os) + 1"
    by (intro wrap64_id) (simp add: in_int64_def)
  ultimately show ?case
    using IH by (cases x) (simp_all add: gw_inv)
qed

text \<open>
  C1. The circuit breaker implements its specification: after any history of recorded outcomes
  (shorter than the 64-bit counter) the strict flag is up exactly when the run of failures at the
  end of the history is below the configured threshold, the reported count is the length of that
  run, and the provider is offered to the router exactly when the flag is up or the cooldown has
  passed since the last failure.
\<close>

theorem breaker_implements_spec:
  assumes "in_int64 (FailureThreshold cfg)" and "in_int64 (CooldownPeriod cfg)"
    and "length os < 2 ^ 63 - 1"
  defines "h0 \<equiv> NewProviderHealth cfg"
  defines "h \<equiv> run_outcomes h0 os"
  shows "(HealthyStrict h \<longleftrightarrow> int (trailing_failures os) < failureThreshold h0) \<and>
    ConsecutiveFails (Status now h) = int (trailing_failures os) \<and>
    (IsHealthy now h \<longleftrightarrow> int (trailing_failures os) < failureThreshold h0 \<or>
       cooldownPeriod h0 \<le> sat64 (now - last_failure_time os)) \<and>
    Healthy (Status now h) = IsHealthy now h"
proof -
  have "health_inv h0" unfolding h0_def using assms(1,2) by (rule NewProviderHealth_inv)
  moreover have "consecutiveFails h0 = 0" "lastFailure h0 = 0"
    by (simp_all add: h0_def NewProviderHealth_def Let_def)
  ultimately have st: "health_inv h" "consecutiveFails h = int (trailing_failures os)"
      "lastFailure h = last_failure_time os" "failureThreshold h = failureThreshold h0"
      "cooldownPeriod h = cooldownPeriod h0"
    unfolding h_def using run_outcomes_state assms(3) by blast+
  then have "healthy h \<longleftrightarrow> int (trailing_failures os) < failureThreshold h0"
    by (simp add: health_inv_def)
  with st show ?thesis
    by (auto simp: HealthyStrict_def IsHealthy_def Status_def Let_def time_Sub_def)
qed

theorem breaker_implements_spec_witness:
  "IsHealthy 40 (run_outcomes (NewProviderHealth \<lparr>FailureThreshold = 2, CooldownPeriod = 50\<rparr>)
     [Failed 10 None, Succeeded 20, Failed 30 None]) \<and>
   \<not> IsHealthy 40 (run_outcomes (NewProviderHealth \<lparr>FailureThreshold = 2, CooldownPeriod = 50\<rparr>)
     [Succeeded 10, Failed 20 None, Failed 30 None])"
  using breaker_implements_spec [of "\<lparr>FailureThreshold = 2, CooldownPeriod = 50\<rparr>"
      "[Failed 10 None, Succeeded 20, Failed 30 None]" 40]
    breaker_implements_spec [of "\<lparr>FailureThreshold = 2, CooldownPeriod = 50\<rparr>"
      "[Succeeded 10, Failed 20 None, Failed 30 None]" 40]
  by (simp add: in_int64_def trailing_failures_def NewProviderHealth_def sat64_def)

end
