(* ===== verification/Provider_Retry.thy ===== *)
theory Provider_Retry
  imports Provider_Health
begin

text \<open>
  The retrying, health-tracking decorator of \<^verbatim>\<open>internal/provider/health_decorator.go\<close>. The wrapped
  provider, the clock, the retry timer racing with \<^verbatim>\<open>ctx.Done()\<close>, the random source and the
  implementation-defined float conversion are the fields of an environment over a world \<open>'w\<close>;
  \<open>'r\<close> is what a call yields, a response for \<^verbatim>\<open>ChatCompletion\<close> and the events of a channel for
  \<^verbatim>\<open>ChatCompletionStream\<close>.
\<close>

section \<open>Environment and state\<close>

record ('w, 'r) provider_env =
  env_call :: "ChatCompletionRequest \<Rightarrow> 'w \<Rightarrow> (go_error + 'r) \<times> 'w"
  env_wait :: "duration \<Rightarrow> 'w \<Rightarrow> go_error option \<times> 'w"
  env_now :: "'w \<Rightarrow> instant"
  env_rand :: "'w \<Rightarrow> float64 \<times> 'w"
  env_conv :: "float64 \<Rightarrow> int"

record RetryConfig =
  MaxRetries :: int
  RetryBackoff :: duration

record HealthTrackingProvider =
  wrappedName :: string
  wrappedModels :: "string list"
  Health :: ProviderHealth
  retry :: RetryConfig

definition NewHealthTrackingProvider ::
  "string \<Rightarrow> string list \<Rightarrow> HealthConfig \<Rightarrow> RetryConfig \<Rightarrow> HealthTrackingProvider" where
  "NewHealthTrackingProvider name models healthCfg retryCfg =
     \<lparr>wrappedName = name, wrappedModels = models, Health = NewProviderHealth healthCfg, retry = retryCfg\<rparr>"

section \<open>Backoff\<close>

definition maxBackoff :: duration where
  "maxBackoff = 30 * nanosPerSecond"

definition StatusTooManyRequests :: int where
  "StatusTooManyRequests = 429"

definition isRetryable :: "go_error \<Rightarrow> bool" where
  "isRetryable err = (case errors_As_ProviderError err of Some pe \<Rightarrow> Retryable pe | None \<Rightarrow> False)"

definition asProviderError :: "go_error option \<Rightarrow> ProviderError option" where
  "asProviderError err = (case err of None \<Rightarrow> None | Some e \<Rightarrow> errors_As_ProviderError e)"

text \<open>\<^verbatim>\<open>math.Pow(2, y)\<close> for integral \<open>y\<close>: exact between the smallest subnormal and the overflow.\<close>

definition math_Pow_2 :: "int \<Rightarrow> float64" where
  "math_Pow_2 y = (if 1023 < y then PosInf else if y < - 1074 then Fin 0 else Fin (pow2 y))"

definition computed_backoff ::
  "('w, 'r) provider_env \<Rightarrow> RetryConfig \<Rightarrow> int \<Rightarrow> 'w \<Rightarrow> duration \<times> 'w" where
  "computed_backoff env cfg attempt w =
     (let base = (if RetryBackoff cfg \<le> 0 then nanosPerSecond else RetryBackoff cfg);
          multiplier = math_Pow_2 (attempt - 1);
          d = f64_to_int64 (env_conv env) (f64_mul (f64_of_int base) multiplier);
          d = (if maxBackoff < d then maxBackoff else d);
          (r, w) = env_rand env w;
          jitter = f64_add (Fin (1 / 2)) (f64_mul r (Fin (1 / 2)))
      in (f64_to_int64 (env_conv env) (f64_mul (f64_of_int d) jitter), w))"

definition backoffDuration ::
  "('w, 'r) provider_env \<Rightarrow> RetryConfig \<Rightarrow> int \<Rightarrow> go_error option \<Rightarrow> 'w \<Rightarrow> duration \<times> 'w" where
  "backoffDuration env cfg attempt err w =
     (case asProviderError err of
        Some pe \<Rightarrow>
          if StatusCode pe = StatusTooManyRequests \<and> 0 < RetryAfter pe then (RetryAfter pe, w)
          else computed_backoff env cfg attempt w
      | None \<Rightarrow> computed_backoff env cfg attempt w)"

section \<open>Recording an outcome\<close>

text \<open>Both return the decorator with its new health and the metric calls made.\<close>

definition recordHealthSuccess ::
  "instant \<Rightarrow> instant \<Rightarrow> HealthTrackingProvider \<Rightarrow> HealthTrackingProvider \<times> metric_call list" where
  "recordHealthSuccess start now p =
     (p\<lparr>Health := RecordSuccess now (Health p)\<rparr>,
      SetProviderHealth (wrappedName p) True @
      RecordProviderRequest (wrappedName p) 200 (time_Sub now start))"

definition recordHealthFailure ::
  "go_error option \<Rightarrow> instant \<Rightarrow> instant \<Rightarrow> HealthTrackingProvider \<Rightarrow> HealthTrackingProvider \<times> metric_call list" where
  "recordHealthFailure err start now p =
     (let (ok, h) = RecordFailure now err (Health p);
          status = (case asProviderError err of
              Some pe \<Rightarrow> if 0 < StatusCode pe then StatusCode pe else 500
            | None \<Rightarrow> 500)
      in (p\<lparr>Health := h\<rparr>,
          SetProviderHealth (wrappedName p) ok @
          RecordProviderRequest (wrappedName p) status (time_Sub now start)))"

section \<open>The retry loop\<close>

text \<open>
  The four ways out of \<^verbatim>\<open>for attempt := 0; attempt <= h.retry.MaxRetries; attempt++\<close>: the call
  succeeded, the context was cancelled during a backoff, the call failed with an error that is not
  retryable, or the attempts ran out (\<open>lastErr\<close> is nil only when the body never ran).
\<close>

datatype 'r loop_exit =
    CallSucceeded 'r
  | WaitCancelled go_error
  | NotRetryable go_error
  | AttemptsExhausted "go_error option"

definition backoff_wait ::
  "('w, 'r) provider_env \<Rightarrow> RetryConfig \<Rightarrow> int \<Rightarrow> go_error option \<Rightarrow> 'w \<Rightarrow> go_error option \<times> 'w"
where
  "backoff_wait env cfg attempt lastErr w =
     (if 0 < attempt
      then let (backoff, w) = backoffDuration env cfg attempt lastErr w in env_wait env backoff w
      else (None, w))"

function retry_loop ::
  "('w, 'r) provider_env \<Rightarrow> RetryConfig \<Rightarrow> ChatCompletionRequest \<Rightarrow> int \<Rightarrow> go_error option \<Rightarrow> 'w \<Rightarrow>
     'r loop_exit \<times> 'w"
where
  "retry_loop env cfg req attempt lastErr w =
     (if MaxRetries cfg < attempt then (AttemptsExhausted lastErr, w)
      else
        case backoff_wait env cfg attempt lastErr w of
          (Some ctxErr, w) \<Rightarrow> (WaitCancelled ctxErr, w)
        | (None, w) \<Rightarrow>
            (case env_call env req w of
               (Inr resp, w) \<Rightarrow> (CallSucceeded resp, w)
             | (Inl err, w) \<Rightarrow>
                 if \<not> isRetryable err then (NotRetryable err, w)
                 else if attempt = MaxRetries cfg then (AttemptsExhausted (Some err), w)
                 else retry_loop env cfg req (attempt + 1) (Some err) w))"
  by pat_completeness auto
termination
  by (relation "measure (\<lambda>(env, cfg, req, attempt, lastErr, w). nat (MaxRetries cfg + 1 - attempt))") auto

declare retry_loop.simps [simp del]

text \<open>A Go call returns a pair of a possibly nil pointer and a possibly nil error.\<close>

definition HTP_ChatCompletion ::
  "('w, ChatCompletionResponse) provider_env \<Rightarrow> HealthTrackingProvider \<Rightarrow> ChatCompletionRequest \<Rightarrow> 'w \<Rightarrow>
     (ChatCompletionResponse option \<times> go_error option) \<times> HealthTrackingProvider \<times> metric_call list \<times> 'w"
where
  "HTP_ChatCompletion env p req w =
     (let start = env_now env w in
      case retry_loop env (retry p) req 0 None w of
        (CallSucceeded resp, w) \<Rightarrow>
          (let (p, ms) = recordHealthSuccess start (env_now env w) p in ((Some resp, None), p, ms, w))
      | (WaitCancelled ctxErr, w) \<Rightarrow> ((None, Some ctxErr), p, [], w)
      | (NotRetryable err, w) \<Rightarrow>
          (let (p, ms) = recordHealthFailure (Some err) start (env_now env w) p in ((None, Some err), p, ms, w))
      | (AttemptsExhausted lastErr, w) \<Rightarrow>
          (let (p, ms) = recordHealthFailure lastErr start (env_now env w) p in ((None, lastErr), p, ms, w)))"

section \<open>Streams\<close>

text \<open>
  \<open>trackStream stopAt lastErr evts\<close> is the goroutine of \<^verbatim>\<open>trackStreamHealth\<close> over the events \<open>evts\<close> the
  inner channel delivers before it is closed; \<open>stopAt = Some n\<close> says that the \<^verbatim>\<open>select\<close> takes
  \<^verbatim>\<open>ctx.Done()\<close> when the \<open>n\<close>-th event is to be forwarded. The result is what reaches the outer
  channel and how the loop ended: \<open>None\<close> abandoned, \<open>Some e\<close> drained with the last stream error.
\<close>

fun trackStream ::
  "nat option \<Rightarrow> go_error option \<Rightarrow> StreamEvent list \<Rightarrow> StreamEvent list \<times> go_error option option"
where
  "trackStream stopAt lastErr [] = ([], Some lastErr)"
| "trackStream stopAt lastErr (evt # evts) =
     (let lastErr = (case evt_Err evt of None \<Rightarrow> lastErr | Some e \<Rightarrow> Some e) in
      if stopAt = Some 0 then ([], None)
      else let (out, fin) = trackStream (map_option (\<lambda>n. n - 1) stopAt) lastErr evts in (evt # out, fin))"

definition trackStreamHealth ::
  "nat option \<Rightarrow> instant \<Rightarrow> instant \<Rightarrow> StreamEvent list \<Rightarrow> HealthTrackingProvider \<Rightarrow>
     StreamEvent list \<times> HealthTrackingProvider \<times> metric_call list"
where
  "trackStreamHealth stopAt start now evts p =
     (let (out, fin) = trackStream stopAt None evts in
      case fin of
        None \<Rightarrow> (out, p, [])
      | Some None \<Rightarrow> (let (p, ms) = recordHealthSuccess start now p in (out, p, ms))
      | Some (Some e) \<Rightarrow> (let (p, ms) = recordHealthFailure (Some e) start now p in (out, p, ms)))"

text \<open>
  \<^verbatim>\<open>ChatCompletionStream\<close> up to the return of the channel: \<open>Some evts\<close> is the inner channel handed
  to \<^verbatim>\<open>trackStreamHealth\<close> together with the start time, \<open>None\<close> a nil channel.
\<close>

definition HTP_ChatCompletionStream ::
  "('w, StreamEvent list) provider_env \<Rightarrow> HealthTrackingProvider \<Rightarrow> ChatCompletionRequest \<Rightarrow> 'w \<Rightarrow>
     ((StreamEvent list \<times> instant) option \<times> go_error option) \<times> HealthTrackingProvider \<times> metric_call list \<times> 'w"
where
  "HTP_ChatCompletionStream env p req w =
     (let start = env_now env w in
      case retry_loop env (retry p) req 0 None w of
        (CallSucceeded ch, w) \<Rightarrow> ((Some (ch, start), None), p, [], w)
      | (WaitCancelled ctxErr, w) \<Rightarrow> ((None, Some ctxErr), p, [], w)
      | (NotRetryable err, w) \<Rightarrow>
          (let (p, ms) = recordHealthFailure (Some err) start (env_now env w) p in ((None, Some err), p, ms, w))
      | (AttemptsExhausted lastErr, w) \<Rightarrow>
          (let (p, ms) = recordHealthFailure lastErr start (env_now env w) p in ((None, lastErr), p, ms, w)))"

section \<open>Specification vocabulary\<close>

definition effective_base :: "RetryConfig \<Rightarrow> duration" where
  "effective_base cfg = (if RetryBackoff cfg \<le> 0 then nanosPerSecond else RetryBackoff cfg)"

definition backoff_cap :: "RetryConfig \<Rightarrow> int \<Rightarrow> duration" where
  "backoff_cap cfg attempt = min maxBackoff (effective_base cfg * 2 ^ nat (attempt - 1))"

text \<open>
  \<open>scripted\<close> is an environment whose wrapped provider answers from a list of outcomes and whose
  context is never cancelled; \<open>counting\<close> adds a counter of the wrapped calls to any environment.
\<close>

definition scripted :: "float64 \<Rightarrow> (float64 \<Rightarrow> int) \<Rightarrow> instant \<Rightarrow> ((go_error + 'r) list, 'r) provider_env" where
  "scripted r conv now =
     \<lparr>env_call = (\<lambda>req w. case w of [] \<Rightarrow> (Inl (ErrText ''no more outcomes''), []) | x # xs \<Rightarrow> (x, xs)),
      env_wait = (\<lambda>d w. (None, w)), env_now = (\<lambda>w. now), env_rand = (\<lambda>w. (r, w)), env_conv = conv\<rparr>"

definition counting :: "('w, 'r) provider_env \<Rightarrow> (nat \<times> 'w, 'r) provider_env" where
  "counting env =
     \<lparr>env_call = (\<lambda>req (n, w). case env_call env req w of (x, w') \<Rightarrow> (x, Suc n, w')),
      env_wait = (\<lambda>d (n, w). case env_wait env d w of (x, w') \<Rightarrow> (x, n, w')),
      env_now = (\<lambda>(n, w). env_now env w),
      env_rand = (\<lambda>(n, w). case env_rand env w of (x, w') \<Rightarrow> (x, n, w')),
      env_conv = env_conv env\<rparr>"

definition retryable_outcome :: "go_error + 'r \<Rightarrow> bool" where
  "retryable_outcome x = (case x of Inl e \<Rightarrow> isRetryable e | Inr r \<Rightarrow> False)"

definition exit_of :: "go_error + 'r \<Rightarrow> 'r loop_exit" where
  "exit_of x = (case x of
       Inr r \<Rightarrow> CallSucceeded r
     | Inl e \<Rightarrow> if isRetryable e then AttemptsExhausted (Some e) else NotRetryable e)"

definition decisive :: "nat \<Rightarrow> (go_error + 'r) list \<Rightarrow> nat" where
  "decisive maxRetries outs = min maxRetries (length (takeWhile retryable_outcome outs))"

definition gauge_of :: "HealthTrackingProvider \<Rightarrow> metric_call" where
  "gauge_of p = SetGauge ''gateway_provider_health'' [wrappedName p]
     (if HealthyStrict (Health p) then Fin 1 else Fin 0)"

definition last_stream_error :: "StreamEvent list \<Rightarrow> go_error option" where
  "last_stream_error evts = (case rev (List.map_filter evt_Err evts) of [] \<Rightarrow> None | e # es \<Rightarrow> Some e)"

section \<open>Backoff bounds\<close>

lemma jitter_range:
  assumes "0 \<le> x" "x \<le> 1"
  obtains j where "f64_add (Fin (1 / 2)) (f64_mul (Fin x) (Fin (1 / 2))) = Fin j" "1 / 2 \<le> j" "j \<le> 1"
proof -
  have h: "rnd (1 / 2) = 1 / 2" using rnd_pow2 [of "- 1"] by (simp add: pow2_def)
  have one: "rnd 1 = 1" using rnd_of_int [of 1] by simp
  let ?y = "rnd (x * (1 / 2))"
  have y: "0 \<le> ?y \<and> ?y \<le> 1 / 2" using assms h by (intro rnd_between) simp_all
  have fy: "f64_mul (Fin x) (Fin (1 / 2)) = Fin ?y"
    using assms by (simp add: f64_round_finite)
  have "\<bar>1 / 2 + ?y\<bar> \<le> 1" using y by simp
  then have "f64_add (Fin (1 / 2)) (Fin ?y) = Fin (rnd (1 / 2 + ?y))"
    using f64_round_finite [of "1 / 2 + ?y"] by simp
  moreover have "1 / 2 \<le> rnd (1 / 2 + ?y) \<and> rnd (1 / 2 + ?y) \<le> 1"
    using y h one by (intro rnd_between) simp_all
  ultimately show ?thesis using that fy by simp
qed

lemma scaled_by_jitter:
  assumes d: "0 \<le> d" "d \<le> maxBackoff" and j: "1 / 2 \<le> j" "j \<le> 1"
  shows "d div 2 \<le> f64_to_int64 conv (f64_mul (f64_of_int d) (Fin j))"
    and "f64_to_int64 conv (f64_mul (f64_of_int d) (Fin j)) \<le> d"
proof -
  have small: "d \<le> 2 ^ 53" using d by (simp add: maxBackoff_def nanosPerSecond_def)
  let ?d = "of_int d :: rat"
  have lo: "?d * (1 / 2) \<le> ?d * j" using d j by (intro mult_left_mono) simp_all
  have hi: "?d * j \<le> ?d" using d j mult_left_mono [of j 1 ?d] by simp
  have rd: "rnd ?d = ?d" using d small by simp
  have "rnd (?d * (1 / 2)) = ?d * (1 / 2)"
    using d small by (intro rnd_exact [where m = d and e = "- 1"]) (simp_all add: pow2_def)
  with lo hi rd have b: "?d * (1 / 2) \<le> rnd (?d * j) \<and> rnd (?d * j) \<le> ?d" by (intro rnd_between)
  have "?d \<le> of_int (2 ^ 53)" using small by (simp only: of_int_le_iff)
  also have "(of_int (2 ^ 53) :: rat) \<le> 2 ^ 1023" by simp
  finally have "\<bar>?d * j\<bar> \<le> 2 ^ 1023" using hi lo d by simp
  then have m: "f64_mul (f64_of_int d) (Fin j) = Fin (rnd (?d * j))"
    using d small by (simp add: f64_of_int_small f64_round_finite)
  have nonneg: "0 \<le> rnd (?d * j)" using b d by simp
  have "\<lfloor>rnd (?d * j)\<rfloor> \<le> d" using b by (simp add: floor_le_iff)
  moreover have "d div 2 \<le> \<lfloor>rnd (?d * j)\<rfloor>"
  proof -
    have "of_int (2 * (d div 2)) \<le> ?d" by (subst of_int_le_iff) simp
    then have "of_int (d div 2) \<le> rnd (?d * j)" using b by simp
    then show ?thesis by (simp add: le_floor_iff)
  qed
  moreover have "in_int64 t" if "t \<le> d" "d div 2 \<le> t" for t
    using that d small by (simp add: in_int64_def)
  then have "in_int64 \<lfloor>rnd (?d * j)\<rfloor>" using calculation by blast
  ultimately show "d div 2 \<le> f64_to_int64 conv (f64_mul (f64_of_int d) (Fin j))"
    "f64_to_int64 conv (f64_mul (f64_of_int d) (Fin j)) \<le> d"
    using nonneg by (simp_all add: m Let_def)
qed

lemma backoff_unjittered:
  assumes "0 < b" "b \<le> 2 ^ 53" "1 \<le> attempt" "b * 2 ^ nat (attempt - 1) < 2 ^ 63"
  shows "f64_to_int64 conv (f64_mul (f64_of_int b) (math_Pow_2 (attempt - 1))) = b * 2 ^ nat (attempt - 1)"
proof -
  let ?k = "nat (attempt - 1)"
  have "(2::int) ^ ?k \<le> b * 2 ^ ?k" using assms(1) by simp
  then have "(2::int) ^ ?k < 2 ^ 63" using assms(4) by linarith
  then have k: "?k < 63" by (rule power_less_imp_less_exp [rotated]) simp
  then have p: "math_Pow_2 (attempt - 1) = Fin (of_int (2 ^ ?k))"
    using assms(3) by (simp add: math_Pow_2_def pow2_nat)
  have ex: "rnd (of_int b * of_int (2 ^ ?k)) = of_int b * of_int (2 ^ ?k)"
    using assms(1-3) by (intro rnd_exact [where m = b and e = "attempt - 1"]) (simp_all add: pow2_nat)
  have "\<bar>of_int b * of_int (2 ^ ?k) :: rat\<bar> = of_int (b * 2 ^ ?k)" using assms(1) by simp
  also have "\<dots> \<le> of_int (2 ^ 63)" using assms(4) by (subst of_int_le_iff) simp
  also have "\<dots> \<le> 2 ^ 1023" by simp
  finally have "f64_mul (f64_of_int b) (math_Pow_2 (attempt - 1)) = Fin (of_int (b * 2 ^ ?k))"
    using assms(1,2) ex by (simp add: p f64_of_int_small f64_round_finite)
  moreover have "0 \<le> b * 2 ^ ?k" using assms(1) by simp
  then have "in_int64 (b * 2 ^ ?k)" using assms(4) by (simp add: in_int64_def)
  moreover have "\<lfloor>of_int (b * 2 ^ ?k) :: rat\<rfloor> = b * 2 ^ ?k" by (rule floor_of_int)
  ultimately show ?thesis using assms(1) by (simp add: Let_def del: floor_of_int)
qed

text \<open>
  C21. The computed retry backoff is bounded: for every draw of the random source, as long as the
  doubled base delay fits a 64-bit duration, the delay before an attempt lies between half of and
  the whole of \<open>base * 2 ^ (attempt - 1)\<close> capped at 30 seconds (all roundings of the float
  computation included).
\<close>

theorem computed_backoff_bounds:
  assumes "env_rand env w = (Fin x, w')" and "0 \<le> x" and "x \<le> 1"
    and "1 \<le> attempt" and "effective_base cfg \<le> 2 ^ 53"
    and "effective_base cfg * 2 ^ nat (attempt - 1) < 2 ^ 63"
  shows "backoff_cap cfg attempt div 2 \<le> fst (computed_backoff env cfg attempt w) \<and>
    fst (computed_backoff env cfg attempt w) \<le> backoff_cap cfg attempt \<and>
    fst (computed_backoff env cfg attempt w) \<le> maxBackoff"
proof -
  have pos: "0 < effective_base cfg" by (simp add: effective_base_def nanosPerSecond_def)
  obtain j where j: "f64_add (Fin (1 / 2)) (f64_mul (Fin x) (Fin (1 / 2))) = Fin j" "1 / 2 \<le> j" "j \<le> 1"
    using assms(2,3) by (rule jitter_range)
  let ?cap = "backoff_cap cfg attempt"
  have cap: "0 \<le> ?cap" "?cap \<le> maxBackoff"
    using pos by (simp_all add: backoff_cap_def maxBackoff_def nanosPerSecond_def)
  have "fst (computed_backoff env cfg attempt w)
      = f64_to_int64 (env_conv env) (f64_mul (f64_of_int ?cap) (Fin j))"
    using backoff_unjittered [OF pos assms(5,4,6), of "env_conv env"] j(1) assms(1)
    by (simp add: computed_backoff_def effective_base_def [symmetric] backoff_cap_def min_def Let_def
        split: prod.splits)
  with scaled_by_jitter [OF cap j(2,3), of "env_conv env"] cap show ?thesis by auto
qed

theorem computed_backoff_bounds_witness:
  "1000000000 \<le> fst (computed_backoff (scripted (Fin 0) (\<lambda>_. 0) 0) \<lparr>MaxRetries = 3, RetryBackoff = 500000000\<rparr> 3
      ([] :: (go_error + ChatCompletionResponse) list)) \<and>
   fst (computed_backoff (scripted (Fin 0) (\<lambda>_. 0) 0) \<lparr>MaxRetries = 3, RetryBackoff = 500000000\<rparr> 3
      ([] :: (go_error + ChatCompletionResponse) list)) \<le> 2000000000"
  using computed_backoff_bounds [of "scripted (Fin 0) (\<lambda>_. 0) 0" "[] :: (go_error + ChatCompletionResponse) list"
      0 "[]" 3 "\<lparr>MaxRetries = 3, RetryBackoff = 500000000\<rparr>"]
  by (simp add: scripted_def effective_base_def backoff_cap_def maxBackoff_def nanosPerSecond_def)

section \<open>The retry loop\<close>

lemma backoffDuration_scripted [simp]: "snd (backoffDuration (scripted r conv now) cfg attempt err w) = w"
  by (auto simp: backoffDuration_def computed_backoff_def scripted_def Let_def split: option.splits)

lemma scripted_simps [simp]:
  "env_call (scripted r conv now) req (x # xs) = (x, xs)"
  "env_wait (scripted r conv now) d w = (None, w)"
  "env_now (scripted r conv now) w = now"
  by (simp_all add: scripted_def)

lemma retry_loop_step:
  assumes "attempt \<le> MaxRetries cfg"
  shows "retry_loop (scripted r conv now) cfg req attempt lastErr (x # xs) =
    (if retryable_outcome x \<and> attempt < MaxRetries cfg
     then retry_loop (scripted r conv now) cfg req (attempt + 1) (Some (projl x)) xs
     else (exit_of x, xs))"
proof -
  have "backoff_wait (scripted r conv now) cfg attempt lastErr (x # xs) = (None, x # xs)"
    by (simp add: backoff_wait_def split: prod.splits) (metis backoffDuration_scripted snd_conv)
  with assms show ?thesis
    by (subst retry_loop.simps)
      (cases x, auto simp: retryable_outcome_def exit_of_def)
qed

lemma retry_loop_scripted:
  assumes "attempt \<le> MaxRetries cfg" "nat (MaxRetries cfg - attempt) < length outs"
  shows "retry_loop (scripted r conv now) cfg req attempt lastErr outs =
    (let k = decisive (nat (MaxRetries cfg - attempt)) outs in (exit_of (outs ! k), drop (Suc k) outs))"
  using assms
proof (induction outs arbitrary: attempt lastErr)
  case Nil
  then show ?case by simp
next
  case (Cons x xs)
  show ?case
  proof (cases "retryable_outcome x \<and> attempt < MaxRetries cfg")
    case True
    then have n: "nat (MaxRetries cfg - attempt) = Suc (nat (MaxRetries cfg - (attempt + 1)))" by linarith
    have "retry_loop (scripted r conv now) cfg req (attempt + 1) (Some (projl x)) xs =
      (let k = decisive (nat (MaxRetries cfg - (attempt + 1))) xs in (exit_of (xs ! k), drop (Suc k) xs))"
      using True n Cons.prems by (intro Cons.IH) auto
    then show ?thesis
      using True n Cons.prems(1) by (simp add: retry_loop_step decisive_def Let_def)
  next
    case False
    then have "decisive (nat (MaxRetries cfg - attempt)) (x # xs) = 0"
      using Cons.prems(1) by (auto simp: decisive_def)
    then show ?thesis
      unfolding retry_loop_step [OF Cons.prems(1)] if_not_P [OF False] by simp
  qed
qed

text \<open>
  C2. The retry loop tries again exactly on retryable failures: against a provider answering with
  the outcomes \<open>outs\<close>, it stops at the first outcome that is not a retryable error or at attempt
  \<open>MaxRetries\<close>, whichever comes first, returns that outcome, and has consumed no outcome beyond it.
\<close>

theorem retry_loop_decisive_outcome:
  assumes "0 \<le> MaxRetries cfg" and "nat (MaxRetries cfg) < length outs"
  shows "retry_loop (scripted r conv now) cfg req 0 None outs =
    (exit_of (outs ! decisive (nat (MaxRetries cfg)) outs), drop (Suc (decisive (nat (MaxRetries cfg)) outs)) outs)"
  using retry_loop_scripted [of 0 cfg outs] assms by (simp add: Let_def)

theorem retry_loop_decisive_outcome_witness:
  "retry_loop (scripted (Fin 0) (\<lambda>_. 0) 0) \<lparr>MaxRetries = 2, RetryBackoff = 0\<rparr> zeroRequest 0 None
     [Inl (ErrProvider \<lparr>StatusCode = 503, peType = [], peMessage = [], Retryable = True, RetryAfter = 0\<rparr>),
      Inr (5::nat), Inr 6] = (CallSucceeded 5, [Inr 6])"
  by (subst retry_loop_decisive_outcome)
    (simp_all add: decisive_def retryable_outcome_def exit_of_def isRetryable_def)

lemma retry_loop_exits:
  assumes "retry_loop env cfg req attempt lastErr w = (x, w')"
    and "attempt \<le> MaxRetries cfg"
  shows "(\<forall>e. x = NotRetryable e \<longrightarrow> \<not> isRetryable e) \<and>
    (\<forall>e. x = AttemptsExhausted e \<longrightarrow> (\<exists>e'. e = Some e' \<and> isRetryable e'))"
  using assms
proof (induction "nat (MaxRetries cfg - attempt)" arbitrary: attempt lastErr w)
  case 0
  then show ?case
    by (subst (asm) retry_loop.simps) (auto split: prod.splits option.splits sum.splits if_splits)
next
  case (Suc n)
  have n: "n = nat (MaxRetries cfg - (attempt + 1))" "attempt + 1 \<le> MaxRetries cfg"
    using Suc.hyps(2) by linarith+
  note IH = Suc.hyps(1) [OF n(1) _ n(2)]
  from Suc.prems show ?case
    by (subst (asm) retry_loop.simps) (auto split: prod.splits option.splits sum.splits if_splits dest!: IH)
qed

lemma counting_waits:
  assumes "backoff_wait (counting env) cfg attempt lastErr (n, w) = (x, m, w')"
  shows "m = n"
  using assms
  by (auto simp: backoff_wait_def backoffDuration_def computed_backoff_def counting_def Let_def
      split: if_splits option.splits prod.splits)

lemma counting_call: "env_call (counting env) req (n, w) = (x, m, w') \<Longrightarrow> m = Suc n"
  by (simp add: counting_def split: prod.splits)

lemma retry_loop_calls:
  assumes "retry_loop (counting env) cfg req attempt lastErr (n, w) = (x, m, w')"
  shows "n \<le> m \<and> m \<le> n + nat (MaxRetries cfg + 1 - attempt)"
  using assms
proof (induction "nat (MaxRetries cfg + 1 - attempt)" arbitrary: attempt lastErr n w)
  case 0
  then show ?case by (subst (asm) retry_loop.simps) auto
next
  case (Suc k)
  have k: "k = nat (MaxRetries cfg + 1 - (attempt + 1))" using Suc.hyps(2) by linarith
  note IH = Suc.hyps(1) [OF k, folded k]
  obtain r1 n1 w1 where wt: "backoff_wait (counting env) cfg attempt lastErr (n, w) = (r1, n1, w1)"
    by (metis surj_pair)
  obtain r2 n2 w2 where cl: "env_call (counting env) req (n1, w1) = (r2, n2, w2)"
    by (metis surj_pair)
  have "n1 = n" "n2 = Suc n1" using counting_waits [OF wt] counting_call [OF cl] by simp_all
  with Suc.prems Suc.hyps(2) wt cl show ?case
    by (subst (asm) retry_loop.simps) (auto split: option.splits sum.splits if_splits dest!: IH)
qed

text \<open>
  C24. The decorator calls the wrapped provider at most \<open>MaxRetries + 1\<close> times per request, whatever
  the provider answers, the timer does and the random source draws.
\<close>

theorem ChatCompletion_bounded_calls:
  "HTP_ChatCompletion (counting env) p req (0, w) = (res, p', ms, n, w') \<Longrightarrow>
     int n \<le> max 0 (MaxRetries (retry p) + 1)"
proof -
  assume a: "HTP_ChatCompletion (counting env) p req (0, w) = (res, p', ms, n, w')"
  obtain x m w'' where rl: "retry_loop (counting env) (retry p) req 0 None (0, w) = (x, m, w'')"
    by (metis surj_pair)
  then have "n = m" using a by (auto simp: HTP_ChatCompletion_def Let_def split: loop_exit.splits prod.splits)
  with retry_loop_calls [OF rl] show ?thesis by simp
qed

theorem ChatCompletion_bounded_calls_witness:
  "int (fst (snd (snd (snd (HTP_ChatCompletion (counting (scripted (Fin 0) (\<lambda>_. 0) 7))
      (NewHealthTrackingProvider ''openai'' [] \<lparr>FailureThreshold = 3, CooldownPeriod = 5\<rparr>
         \<lparr>MaxRetries = 1, RetryBackoff = 0\<rparr>) zeroRequest (0, [])))))) \<le> 2"
proof -
  let ?r = "HTP_ChatCompletion (counting (scripted (Fin 0) (\<lambda>_. 0) 7))
      (NewHealthTrackingProvider ''openai'' [] \<lparr>FailureThreshold = 3, CooldownPeriod = 5\<rparr>
         \<lparr>MaxRetries = 1, RetryBackoff = 0\<rparr>) zeroRequest (0, [])"
  obtain res p' ms n w' where r: "?r = (res, p', ms, n, w')" by (metis surj_pair)
  have "int n \<le> 2" using ChatCompletion_bounded_calls [OF r] by (simp add: NewHealthTrackingProvider_def)
  then show ?thesis unfolding r by simp
qed

section \<open>Health accounting\<close>

lemma recordHealthSuccessD:
  assumes "recordHealthSuccess start now p = (p', ms)"
  shows "p' = p\<lparr>Health := RecordSuccess now (Health p)\<rparr> \<and> ms \<noteq> [] \<and> hd ms = gauge_of p'"
  using assms
  by (auto simp: recordHealthSuccess_def gauge_of_def SetProviderHealth_def HealthyStrict_def)

lemma recordHealthFailureD:
  assumes "recordHealthFailure err start now p = (p', ms)"
  shows "p' = p\<lparr>Health := snd (RecordFailure now err (Health p))\<rparr> \<and> ms \<noteq> [] \<and> hd ms = gauge_of p'"
proof -
  obtain ok h where "RecordFailure now err (Health p) = (ok, h)" by (metis surj_pair)
  moreover from this have "ok = healthy h" using RecordFailure_flag [of now err "Health p"] by simp
  ultimately show ?thesis
    using assms by (auto simp: recordHealthFailure_def gauge_of_def SetProviderHealth_def HealthyStrict_def Let_def)
qed



text \<open>
  With a negative \<^verbatim>\<open>max_retries\<close> the loop body never runs: the decorator returns a nil response with
  a nil error without calling the provider, and still counts a failure.
\<close>

lemma ChatCompletion_negative_retries:
  assumes "MaxRetries (retry p) < 0"
  shows "fst (HTP_ChatCompletion env p req w) = (None, None)"
    and "Health (fst (snd (HTP_ChatCompletion env p req w)))
      = snd (RecordFailure (env_now env w) None (Health p))"
    and "snd (snd (snd (HTP_ChatCompletion env p req w))) = w"
proof -
  have rl: "retry_loop env (retry p) req 0 None w = (AttemptsExhausted None, w)"
    using assms by (simp add: retry_loop.simps)
  obtain p' ms where rec: "recordHealthFailure None (env_now env w) (env_now env w) p = (p', ms)"
    by (metis surj_pair)
  show "fst (HTP_ChatCompletion env p req w) = (None, None)"
    "Health (fst (snd (HTP_ChatCompletion env p req w)))
      = snd (RecordFailure (env_now env w) None (Health p))"
    "snd (snd (snd (HTP_ChatCompletion env p req w))) = w"
    using rl rec recordHealthFailureD [OF rec] by (simp_all add: HTP_ChatCompletion_def Let_def)
qed

text \<open>
  Past the 64-bit range the cap is not applied: on a platform whose out-of-range conversion yields
  the smallest integer, the thirty-fifth retry with a one-second base waits a negative duration.
\<close>

lemma computed_backoff_overflow:
  fixes env :: "('w, 'r) provider_env"
  assumes "env_rand env w = (Fin 0, w')" and "env_conv env = (\<lambda>_. - (2 ^ 63))"
    and "RetryBackoff cfg = nanosPerSecond"
  shows "fst (computed_backoff env cfg 35 w) < 0"
proof -
  have p: "math_Pow_2 (35 - 1) = Fin (2 ^ 34)" by (simp add: math_Pow_2_def pow2_def)
  have b: "f64_of_int nanosPerSecond = Fin 1000000000"
    by (simp add: f64_of_int_small nanosPerSecond_def)
  have "rnd (1000000000 * 2 ^ 34) = 1000000000 * 2 ^ 34"
    by (rule rnd_exact [where m = 1000000000 and e = 34]) (simp_all add: pow2_def)
  then have m: "f64_mul (Fin 1000000000) (Fin (2 ^ 34)) = Fin 17179869184000000000"
    using f64_round_finite [of "1000000000 * 2 ^ 34"] by simp
  have d: "f64_to_int64 (\<lambda>_. - (2 ^ 63)) (Fin 17179869184000000000) = - (2 ^ 63)"
    by (simp add: in_int64_def)
  have h: "rnd (1 / 2) = 1 / 2" using rnd_pow2 [of "- 1"] by (simp add: pow2_def)
  have j: "f64_add (Fin (1 / 2)) (f64_mul (Fin 0) (Fin (1 / 2))) = Fin (1 / 2)"
    using f64_round_finite [of "1 / 2"] f64_round_finite [of 0] h by simp
  have n: "f64_of_int (- (2 ^ 63)) = Fin (- (2 ^ 63))"
    using f64_round_finite [of "- (2 ^ 63)"] rnd_exact [of "- (2 ^ 63)" "- 1" 63]
    by (simp add: f64_of_int_def pow2_def)
  have "f64_mul (Fin (- (2 ^ 63))) (Fin (1 / 2)) = Fin (- (2 ^ 62))"
    using f64_round_finite [of "- (2 ^ 62)"] rnd_exact [of "- (2 ^ 62)" "- 1" 62] by (simp add: pow2_def)
  with p b m d j n assms show ?thesis
    by (simp add: computed_backoff_def Let_def maxBackoff_def nanosPerSecond_def in_int64_def)
qed

section \<open>Streams\<close>

lemma trackStream_abandoned:
  "n < length evts \<Longrightarrow> trackStream (Some n) lastErr evts = (take n evts, None)"
  by (induction evts arbitrary: n lastErr) (auto simp: take_Cons split: nat.splits prod.splits)

lemma trackStream_drained:
  assumes "\<And>n. stopAt = Some n \<Longrightarrow> length evts \<le> n"
  shows "trackStream stopAt lastErr evts =
    (evts, Some (case last_stream_error evts of None \<Rightarrow> lastErr | Some e \<Rightarrow> Some e))"
  using assms
proof (induction evts arbitrary: stopAt lastErr)
  case Nil
  then show ?case by (simp add: last_stream_error_def List.map_filter_simps)
next
  case (Cons evt evts)
  have "stopAt \<noteq> Some 0" using Cons.prems by force
  moreover have "\<And>n. map_option (\<lambda>n. n - 1) stopAt = Some n \<Longrightarrow> length evts \<le> n"
    using Cons.prems by fastforce
  note IH = Cons.IH [OF this]
  ultimately show ?case
    by (cases evt) (auto simp: IH last_stream_error_def List.map_filter_simps Let_def split: list.splits option.splits)
qed

text \<open>
  C25. Stream health tracking is transparent and exact: unless the client goes away, the outer
  channel carries exactly the events of the inner one and the stream counts as one failure (with
  its last error) if any event carried an error and as one success otherwise; if the context ends
  when the \<open>n\<close>-th event is to be forwarded, exactly the first \<open>n\<close> events were forwarded and the
  provider's health is left alone.
\<close>

theorem trackStreamHealth_exact:
  "trackStreamHealth stopAt start now evts p =
    (case stopAt of
       Some n \<Rightarrow> if n < length evts then (take n evts, p, [])
                else (evts, case last_stream_error evts of
                    None \<Rightarrow> recordHealthSuccess start now p
                  | Some e \<Rightarrow> recordHealthFailure (Some e) start now p)
     | None \<Rightarrow> (evts, case last_stream_error evts of
                    None \<Rightarrow> recordHealthSuccess start now p
                  | Some e \<Rightarrow> recordHealthFailure (Some e) start now p))"
proof (cases "\<exists>n. stopAt = Some n \<and> n < length evts")
  case True
  then show ?thesis by (auto simp: trackStreamHealth_def trackStream_abandoned)
next
  case False
  then have "\<And>n. stopAt = Some n \<Longrightarrow> length evts \<le> n" by force
  then have "trackStream stopAt None evts = (evts, Some (last_stream_error evts))"
    using trackStream_drained [of stopAt evts None] by (simp split: option.splits)
  with False show ?thesis
    by (auto simp: trackStreamHealth_def split: option.splits prod.splits)
qed

end
