(* ===== verification/Provider_Registry.thy ===== *)
theory Provider_Registry
  imports Provider_Retry "HOL-Library.AList" "HOL-Library.Multiset"
begin

text \<open>
  The model registry of \<^verbatim>\<open>internal/provider/registry.go\<close>. Its two Go maps are association lists with
  distinct keys; the order of the list is the order a \<^verbatim>\<open>range\<close> over the map happens to take, so a
  result that only depends on \<open>map_of\<close> does not depend on it. A \<^verbatim>\<open>Provider\<close> interface value is its name and,
  when it is a \<^verbatim>\<open>*HealthTrackingProvider\<close>, the address of its \<^verbatim>\<open>ProviderHealth\<close> in a heap that all
  holders of the pointer share. The error texts are kept as constructors with their arguments.
\<close>

section \<open>State and operations\<close>

type_synonym addr = nat
type_synonym health_heap = "addr \<Rightarrow> ProviderHealth"

record ProviderRef =
  refName :: string
  refHealth :: "addr option"

record Registry =
  models :: "(string \<times> ProviderRef) list"
  aliases :: "(string \<times> string) list"

datatype registry_error =
    AliasConflicts string
  | AliasTargetUnregistered string string
  | UnknownModelName string "string list"

definition NewRegistry :: Registry where
  "NewRegistry = \<lparr>models = [], aliases = []\<rparr>"

fun Register :: "ProviderRef \<Rightarrow> string list \<Rightarrow> Registry \<Rightarrow> Registry" where
  "Register p [] r = r"
| "Register p (m # ms) r = Register p ms (r\<lparr>models := AList.update m p (models r)\<rparr>)"

definition RegisterAlias :: "string \<Rightarrow> string \<Rightarrow> Registry \<Rightarrow> registry_error option \<times> Registry" where
  "RegisterAlias alias target r =
     (case map_of (models r) alias of
        Some _ \<Rightarrow> (Some (AliasConflicts alias), r)
      | None \<Rightarrow> (case map_of (models r) target of
          None \<Rightarrow> (Some (AliasTargetUnregistered alias target), r)
        | Some p \<Rightarrow> (None, r\<lparr>models := AList.update alias p (models r),
                            aliases := AList.update alias target (aliases r)\<rparr>)))"

definition CanonicalModel :: "Registry \<Rightarrow> string \<Rightarrow> string" where
  "CanonicalModel r name = (case map_of (aliases r) name of Some canonical \<Rightarrow> canonical | None \<Rightarrow> name)"

definition ListModels :: "Registry \<Rightarrow> string list" where
  "ListModels r = sort (map fst (models r))"

definition Resolve :: "Registry \<Rightarrow> string \<Rightarrow> registry_error + ProviderRef" where
  "Resolve r modelName = (case map_of (models r) modelName of
       None \<Rightarrow> Inl (UnknownModelName modelName (ListModels r))
     | Some p \<Rightarrow> Inr p)"

definition HealthFor :: "ProviderRef \<Rightarrow> addr option" where
  "HealthFor p = refHealth p"

record ModelInfo =
  ModelName :: string
  ProviderName :: string

definition ListModelDetails :: "Registry \<Rightarrow> ModelInfo list" where
  "ListModelDetails r =
     sort_key ModelName (map (\<lambda>(name, p). \<lparr>ModelName = name, ProviderName = refName p\<rparr>) (models r))"

section \<open>Invariants\<close>

definition registry_inv :: "Registry \<Rightarrow> bool" where
  "registry_inv r \<longleftrightarrow>
     distinct (map fst (models r)) \<and> distinct (map fst (aliases r)) \<and>
     (\<forall>a t. map_of (aliases r) a = Some t \<longrightarrow> map_of (models r) a \<noteq> None \<and> map_of (models r) t \<noteq> None)"

text \<open>Every alias reaches the provider of its target; \<open>flat_aliases\<close>: no alias targets an alias.\<close>

definition aliases_agree :: "Registry \<Rightarrow> bool" where
  "aliases_agree r \<longleftrightarrow> (\<forall>a t. map_of (aliases r) a = Some t \<longrightarrow> map_of (models r) a = map_of (models r) t)"

definition flat_aliases :: "Registry \<Rightarrow> bool" where
  "flat_aliases r \<longleftrightarrow> (\<forall>a t. map_of (aliases r) a = Some t \<longrightarrow> map_of (aliases r) t = None)"

fun RegisterAliases :: "(string \<times> string) list \<Rightarrow> Registry \<Rightarrow> Registry" where
  "RegisterAliases [] r = r"
| "RegisterAliases ((a, t) # xs) r = RegisterAliases xs (snd (RegisterAlias a t r))"

fun RegisterAll :: "(ProviderRef \<times> string list) list \<Rightarrow> Registry \<Rightarrow> Registry" where
  "RegisterAll [] r = r"
| "RegisterAll ((p, ms) # xs) r = RegisterAll xs (Register p ms r)"

section \<open>The interface the router relies on\<close>

locale model_resolver =
  fixes resolve :: "'r \<Rightarrow> string \<Rightarrow> registry_error + 'p"
    and canonical :: "'r \<Rightarrow> string \<Rightarrow> string"
    and invar :: "'r \<Rightarrow> bool"
  assumes canonical_resolves:
    "invar r \<Longrightarrow> resolve r m = Inr p \<Longrightarrow> resolve r (canonical r m) = Inr p"
begin

lemma canonical_of_unknown:
  "invar r \<Longrightarrow> resolve r (canonical r m) = Inl e \<Longrightarrow> \<exists>e'. resolve r m = Inl e'"
  by (metis canonical_resolves sum.exhaust sum.distinct(1))

end

section \<open>Lemmas\<close>

lemma map_of_AList_update [simp]: "map_of (AList.update k v xs) = (map_of xs)(k \<mapsto> v)"
  by (rule update_conv')

lemma map_of_models_Register:
  "map_of (models (Register p ms r)) m = (if m \<in> set ms then Some p else map_of (models r) m)"
  by (induction p ms r rule: Register.induct) auto

lemma aliases_Register [simp, gw_frame]: "aliases (Register p ms r) = aliases r"
  by (induction p ms r rule: Register.induct) auto

lemma dom_models: "fst ` set (models r) = dom (map_of (models r))"
  by (simp add: dom_map_of_conv_image_fst)

lemma registry_inv_New [gw_inv]: "registry_inv NewRegistry"
  by (simp add: registry_inv_def NewRegistry_def)

lemma registry_inv_Register [gw_inv]: "registry_inv r \<Longrightarrow> registry_inv (Register p ms r)"
proof (induction p ms r rule: Register.induct)
  case (2 p m ms r)
  then have "registry_inv (r\<lparr>models := AList.update m p (models r)\<rparr>)"
    by (auto simp: registry_inv_def distinct_update)
  with 2 show ?case by simp
qed simp

lemma registry_inv_RegisterAlias [gw_inv]: "registry_inv r \<Longrightarrow> registry_inv (snd (RegisterAlias a t r))"
  by (auto simp: registry_inv_def RegisterAlias_def distinct_update simp del: map_of_eq_Some_iff
      split: option.splits if_splits)

lemma aliases_agree_RegisterAlias [gw_inv]:
  "registry_inv r \<Longrightarrow> aliases_agree r \<Longrightarrow> aliases_agree (snd (RegisterAlias a t r))"
  unfolding registry_inv_def aliases_agree_def
  by (auto simp: RegisterAlias_def simp del: map_of_eq_Some_iff split: option.splits)
    (metis option.distinct(1))

lemma flat_aliases_RegisterAlias:
  "registry_inv r \<Longrightarrow> flat_aliases r \<Longrightarrow> map_of (aliases r) t = None \<Longrightarrow>
     flat_aliases (snd (RegisterAlias a t r))"
  unfolding registry_inv_def flat_aliases_def
  by (auto simp: RegisterAlias_def simp del: map_of_eq_Some_iff split: option.splits)
    (metis option.distinct(1))

lemma RegisterAll_inv:
  "registry_inv r \<Longrightarrow> registry_inv (RegisterAll ps r) \<and> aliases (RegisterAll ps r) = aliases r"
  by (induction ps r rule: RegisterAll.induct) (auto simp: gw_inv)

lemma RegisterAliases_inv:
  "registry_inv r \<Longrightarrow> aliases_agree r \<Longrightarrow>
     registry_inv (RegisterAliases xs r) \<and> aliases_agree (RegisterAliases xs r)"
  by (induction xs r rule: RegisterAliases.induct) (auto simp: gw_inv)

lemma RegisterAlias_aliases_subset:
  "map_of (aliases (snd (RegisterAlias a t r))) b = Some u \<Longrightarrow>
     map_of (aliases r) b = Some u \<or> (b = a \<and> u = t)"
  by (auto simp: RegisterAlias_def split: option.splits if_splits)

lemma RegisterAliases_flat:
  assumes "registry_inv r" "flat_aliases r"
    and "\<And>a t. (a, t) \<in> set xs \<Longrightarrow> t \<notin> fst ` set xs \<and> map_of (aliases r) t = None"
  shows "flat_aliases (RegisterAliases xs r)"
  using assms
proof (induction xs r rule: RegisterAliases.induct)
  case (2 a t xs r)
  have t: "map_of (aliases r) t = None" using 2(4) [of a t] by simp
  show ?case
    unfolding RegisterAliases.simps
  proof (rule "2.IH")
    show "registry_inv (snd (RegisterAlias a t r))" using "2.prems"(1) by (rule gw_inv)
    show "flat_aliases (snd (RegisterAlias a t r))"
      using "2.prems"(1,2) t by (rule flat_aliases_RegisterAlias)
    fix b u assume bu: "(b, u) \<in> set xs"
    then have u: "u \<notin> fst ` set ((a, t) # xs)" "map_of (aliases r) u = None"
      using "2.prems"(3) [of b u] by auto
    have "map_of (aliases (snd (RegisterAlias a t r))) u = None"
    proof (rule ccontr)
      assume "map_of (aliases (snd (RegisterAlias a t r))) u \<noteq> None"
      then obtain v where "map_of (aliases (snd (RegisterAlias a t r))) u = Some v" by blast
      from RegisterAlias_aliases_subset [OF this] u show False by simp
    qed
    with u show "u \<notin> fst ` set xs \<and> map_of (aliases (snd (RegisterAlias a t r))) u = None" by simp
  qed
qed simp

lemma Resolve_Inr: "Resolve r m = Inr p \<longleftrightarrow> map_of (models r) m = Some p"
  by (simp add: Resolve_def split: option.splits)

lemma Resolve_Inl: "(\<exists>e. Resolve r m = Inl e) \<longleftrightarrow> map_of (models r) m = None"
  by (simp add: Resolve_def split: option.splits)

interpretation registry: model_resolver Resolve CanonicalModel aliases_agree
  by unfold_locales (auto simp: Resolve_Inr aliases_agree_def CanonicalModel_def split: option.splits)

section \<open>Properties\<close>

text \<open>
  Alias registration does what it promises on every branch: it refuses a name that is already
  taken and a target that is not registered, leaving the registry as it was; otherwise the alias
  resolves to the target's provider, its canonical name is the target, and every other name
  resolves and canonicalises as before.
\<close>

theorem RegisterAlias_spec:
  "(case RegisterAlias a t r of (err, r') \<Rightarrow>
     (map_of (models r) a \<noteq> None \<longrightarrow> err = Some (AliasConflicts a) \<and> r' = r) \<and>
     (map_of (models r) a = None \<and> map_of (models r) t = None \<longrightarrow>
        err = Some (AliasTargetUnregistered a t) \<and> r' = r) \<and>
     (map_of (models r) a = None \<and> map_of (models r) t \<noteq> None \<longrightarrow>
        err = None \<and> Resolve r' a = Resolve r t \<and> CanonicalModel r' a = t \<and>
        (\<forall>m. m \<noteq> a \<longrightarrow> map_of (models r') m = map_of (models r) m \<and> CanonicalModel r' m = CanonicalModel r m)))"
  by (auto simp: RegisterAlias_def Resolve_def CanonicalModel_def split: option.splits)

theorem RegisterAlias_spec_witness:
  "Resolve (snd (RegisterAlias ''claude'' ''claude-sonnet'' (Register \<lparr>refName = ''anthropic'', refHealth = None\<rparr>
      [''claude-sonnet''] NewRegistry))) ''claude'' = Inr \<lparr>refName = ''anthropic'', refHealth = None\<rparr>"
proof -
  let ?r = "Register \<lparr>refName = ''anthropic'', refHealth = None\<rparr> [''claude-sonnet''] NewRegistry"
  have "map_of (models ?r) ''claude'' = None" "map_of (models ?r) ''claude-sonnet'' \<noteq> None"
    by (simp_all add: NewRegistry_def)
  with RegisterAlias_spec [of ?r "''claude''" "''claude-sonnet''"]
  have "Resolve (snd (RegisterAlias ''claude'' ''claude-sonnet'' ?r)) ''claude'' = Resolve ?r ''claude-sonnet''"
    by (auto split: prod.splits)
  then show ?thesis by (simp add: Resolve_def NewRegistry_def)
qed

lemma sorted_ListModels: "sorted (ListModels r)"
  by (simp add: ListModels_def)

lemma map_sort_key: "map f (sort_key f xs) = sort (map f xs)"
  by (rule properties_for_sort [symmetric]) (simp_all add: mset_map)

lemma map_ModelName_details:
  "map ModelName (map (\<lambda>(name, p). \<lparr>ModelName = name, ProviderName = refName p\<rparr>) xs) = map fst xs"
  by (induction xs) auto

text \<open>
  The model listing is exact: for a registry built by its own operations, \<^verbatim>\<open>ListModels\<close> lists the
  registered names (aliases included) once each in byte order, \<^verbatim>\<open>ListModelDetails\<close> lists the same
  names in the same order with the name of the provider each resolves to, and neither depends on the
  iteration order of the underlying maps.
\<close>

theorem ListModelDetails_exact:
  assumes "registry_inv r"
  shows "ListModels r = sorted_list_of_set {m. \<exists>p. Resolve r m = Inr p} \<and>
    map ModelName (ListModelDetails r) = ListModels r \<and>
    (\<forall>d \<in> set (ListModelDetails r). \<exists>p. Resolve r (ModelName d) = Inr p \<and> ProviderName d = refName p)"
proof -
  have dist: "distinct (map fst (models r))" using assms by (simp add: registry_inv_def)
  have "{m. \<exists>p. Resolve r m = Inr p} = dom (map_of (models r))"
    by (auto simp: Resolve_Inr)
  also have "\<dots> = set (map fst (models r))" by (simp add: dom_map_of_conv_image_fst)
  finally have l: "ListModels r = sorted_list_of_set {m. \<exists>p. Resolve r m = Inr p}"
    using dist by (metis ListModels_def distinct_remdups_id sorted_list_of_set_sort_remdups)
  have "map ModelName (ListModelDetails r) =
      sort (map ModelName (map (\<lambda>(name, p). \<lparr>ModelName = name, ProviderName = refName p\<rparr>) (models r)))"
    unfolding ListModelDetails_def by (rule map_sort_key)
  then have d: "map ModelName (ListModelDetails r) = ListModels r"
    by (simp only: map_ModelName_details ListModels_def)
  have "\<forall>d \<in> set (ListModelDetails r). \<exists>p. Resolve r (ModelName d) = Inr p \<and> ProviderName d = refName p"
    using dist by (auto simp: ListModelDetails_def Resolve_Inr)
  with l d show ?thesis by blast
qed

theorem ListModelDetails_exact_witness:
  "map ModelName (ListModelDetails (Register \<lparr>refName = ''openai'', refHealth = None\<rparr>
      [''gpt-4o-mini'', ''gpt-4o''] NewRegistry)) = [''gpt-4o'', ''gpt-4o-mini'']"
proof -
  have "registry_inv (Register \<lparr>refName = ''openai'', refHealth = None\<rparr> [''gpt-4o-mini'', ''gpt-4o''] NewRegistry)"
    by (intro gw_inv)
  from ListModelDetails_exact [OF this] show ?thesis
    by (simp add: ListModels_def NewRegistry_def)
qed

end
