(* ===== verification/Routing_Strategies.thy ===== *)
theory Routing_Strategies
  imports Provider_Registry Metrics "HOL-Library.Product_Lexorder"
begin

unbundle bit_operations_syntax

text \<open>
  \<^verbatim>\<open>internal/router/strategy\<close>: the five candidate-ranking strategies, their construction by name and the
  memoizing \<^verbatim>\<open>Builder\<close>, with the \<^verbatim>\<open>Candidate\<close> and \<^verbatim>\<open>RequestMeta\<close> structs of \<^verbatim>\<open>internal/router/router.go\<close> they
  rank. A \<^verbatim>\<open>Select\<close> is a function from the strategy's state to its result and the state after it; the
  atomic counter of \<^verbatim>\<open>RoundRobin\<close> makes concurrent calls a sequence of such steps. The random source of
  \<^verbatim>\<open>Weighted\<close> is Go's \<^verbatim>\<open>PCG\<close> generator written out on words. Float arithmetic is binary64 with every
  operation rounded on its own (as on amd64, where the compiler does not fuse them). \<^verbatim>\<open>math.Exp\<close>, which
  the compiler takes from assembly on some platforms, is the argument \<open>math_Exp\<close>.
\<close>

section \<open>Candidates and request metadata\<close>

record Candidate =
  candProvider :: ProviderRef
  candModel :: string
  CostPer1kInputUSD :: float64
  CostPer1kOutputUSD :: float64
  Priority :: int
  Weight :: int

record RequestMeta =
  OrgID :: string
  KeyID :: string
  Attempt :: int
  TriedNames :: "string list"
  Group :: string

datatype select_result = Picked Candidate | SelectErr go_error | SelectPanic

section \<open>Priority\<close>

definition Priority_Select :: "Candidate list \<Rightarrow> select_result" where
  "Priority_Select candidates =
     (if candidates = [] then SelectErr (ErrText ''priority: empty candidate list'')
      else let best = fold (\<lambda>i best. if Priority (candidates ! i) < Priority (candidates ! best) then i else best)
                        [1..<length candidates] 0
           in Picked (candidates ! best))"

section \<open>Round robin\<close>

record RoundRobin =
  counters :: "string \<rightharpoonup> 64 word"

definition NewRoundRobin :: RoundRobin where
  "NewRoundRobin = \<lparr>counters = Map.empty\<rparr>"

definition counterFor :: "string \<Rightarrow> RoundRobin \<Rightarrow> 64 word \<times> RoundRobin" where
  "counterFor grp r = (case counters r grp of
       Some v \<Rightarrow> (v, r)
     | None \<Rightarrow> (0, r\<lparr>counters := (counters r)(grp \<mapsto> 0)\<rparr>))"

definition RoundRobin_Select :: "Candidate list \<Rightarrow> RequestMeta \<Rightarrow> RoundRobin \<Rightarrow> select_result \<times> RoundRobin" where
  "RoundRobin_Select candidates meta r =
     (if candidates = [] then (SelectErr (ErrText ''round_robin: empty candidate list''), r)
      else let (counter, r') = counterFor (Group meta) r;
               idx = (counter + 1) - 1
           in (Picked (candidates ! unat (idx mod of_nat (length candidates))),
               r'\<lparr>counters := (counters r')(Group meta \<mapsto> counter + 1)\<rparr>))"

section \<open>Weighted\<close>

text \<open>The generator \<^verbatim>\<open>rand.NewPCG\<close> of \<^verbatim>\<open>math/rand/v2\<close>: a 128-bit congruential state with the DXSM output.\<close>

type_synonym PCG = "128 word"

definition NewPCG :: "64 word \<Rightarrow> 64 word \<Rightarrow> PCG" where
  "NewPCG seed1 seed2 = push_bit 64 (ucast seed1) OR ucast seed2"

definition PCG_next :: "PCG \<Rightarrow> PCG" where
  "PCG_next s = s * (push_bit 64 2549297995355413924 OR 4865540595714422341)
                + (push_bit 64 6364136223846793005 OR 1442695040888963407)"

definition PCG_Uint64 :: "PCG \<Rightarrow> 64 word \<times> PCG" where
  "PCG_Uint64 s =
     (let s' = PCG_next s;
          hi = ucast (drop_bit 64 s') :: 64 word;
          lo = ucast s' :: 64 word;
          hi = hi XOR drop_bit 32 hi;
          hi = hi * 0xda942042e4dd58b5;
          hi = hi XOR drop_bit 48 hi;
          hi = hi * (lo OR 1)
      in (hi, s'))"

definition Rand_Float64 :: "PCG \<Rightarrow> float64 \<times> PCG" where
  "Rand_Float64 s = (let (u, s') = PCG_Uint64 s
     in (f64_div (f64_of_int (uint (drop_bit 11 (push_bit 11 u)))) (Fin (2 ^ 53)), s'))"

record Weighted =
  rng :: PCG

definition NewWeighted :: "instant \<Rightarrow> Weighted" where
  "NewWeighted unixNano = (let now = word_of_int unixNano :: 64 word
     in \<lparr>rng = NewPCG now (now XOR 0x9e3779b97f4a7c15)\<rparr>)"

fun weighted_pick :: "float64 \<Rightarrow> float64 \<Rightarrow> Candidate list \<Rightarrow> Candidate option" where
  "weighted_pick pick cursor [] = None"
| "weighted_pick pick cursor (c # cs) =
     (if Weight c \<le> 0 then weighted_pick pick cursor cs
      else let cursor = f64_add cursor (f64_of_int (Weight c))
           in if f64_less pick cursor then Some c else weighted_pick pick cursor cs)"

definition weighted_total :: "Candidate list \<Rightarrow> int" where
  "weighted_total candidates = fold (\<lambda>c total. if Weight c < 0 then total else wrap64 (total + Weight c)) candidates 0"

definition Weighted_Select_with ::
  "(float64 \<Rightarrow> int) \<Rightarrow> float64 \<Rightarrow> Candidate list \<Rightarrow> select_result"
where
  "Weighted_Select_with conv draw candidates =
     (if weighted_total candidates = 0 then
        (let idx = f64_to_int64 conv (f64_mul draw (f64_of_int (int (length candidates))));
             idx = (if idx \<ge> int (length candidates) then int (length candidates) - 1 else idx)
         in if idx < 0 then SelectPanic else Picked (candidates ! nat idx))
      else
        (let pick = f64_mul draw (f64_of_int (weighted_total candidates)) in
         case weighted_pick pick (Fin 0) candidates of
           Some c \<Rightarrow> Picked c
         | None \<Rightarrow> (case find (\<lambda>c. Weight c > 0) (rev candidates) of
               Some c \<Rightarrow> Picked c
             | None \<Rightarrow> Picked (last candidates))))"

definition Weighted_Select ::
  "(float64 \<Rightarrow> int) \<Rightarrow> Candidate list \<Rightarrow> Weighted \<Rightarrow> select_result \<times> Weighted"
where
  "Weighted_Select conv candidates w =
     (if candidates = [] then (SelectErr (ErrText ''weighted: empty candidate list''), w)
      else let (draw, g) = Rand_Float64 (rng w)
           in (Weighted_Select_with conv draw candidates, w\<lparr>rng := g\<rparr>))"

section \<open>Cost optimized\<close>

definition defaultMaxTokens :: int where
  "defaultMaxTokens = 256"

definition estimateCost :: "Candidate \<Rightarrow> ChatCompletionRequest \<Rightarrow> float64" where
  "estimateCost c req =
     (let inChars = fold (\<lambda>m n. wrap64 (n + int (length (Content m)))) (Messages req) 0;
          inTokensPer1k = f64_div (f64_div (f64_of_int inChars) (Fin 4)) (Fin 1000);
          outTokens = (case MaxTokens req of Some n \<Rightarrow> if n > 0 then n else defaultMaxTokens | None \<Rightarrow> defaultMaxTokens);
          outTokensPer1k = f64_div (f64_of_int outTokens) (Fin 1000)
      in f64_add (f64_mul inTokensPer1k (CostPer1kInputUSD c)) (f64_mul outTokensPer1k (CostPer1kOutputUSD c)))"

definition warnKey :: "string \<Rightarrow> Candidate list \<Rightarrow> string" where
  "warnKey grp candidates = grp @ [CHR 0x00] @ strings_Join (sort (map candModel candidates)) '',''"

text \<open>\<open>warnOnce\<close> holds the keys whose \<^verbatim>\<open>sync.Once\<close> has fired, \<open>warnLog\<close> the warnings logged so far.\<close>

record CostOptimized =
  costFallback :: RoundRobin
  warnOnce :: "string list"
  warnLog :: "(string \<times> string list) list"

definition NewCostOptimized :: CostOptimized where
  "NewCostOptimized = \<lparr>costFallback = NewRoundRobin, warnOnce = [], warnLog = []\<rparr>"

definition warnFor :: "string \<Rightarrow> Candidate list \<Rightarrow> CostOptimized \<Rightarrow> CostOptimized" where
  "warnFor grp candidates c =
     (let key = warnKey grp candidates in
      if key \<in> set (warnOnce c) then c
      else c\<lparr>warnOnce := key # warnOnce c, warnLog := warnLog c @ [(grp, map candModel candidates)]\<rparr>)"

fun cost_scan :: "ChatCompletionRequest \<Rightarrow> int \<Rightarrow> int \<Rightarrow> float64 \<Rightarrow> Candidate list \<Rightarrow> int" where
  "cost_scan req i bestIdx bestCost [] = bestIdx"
| "cost_scan req i bestIdx bestCost (cand # cs) =
     (if f64_eq (CostPer1kInputUSD cand) (Fin 0) \<and> f64_eq (CostPer1kOutputUSD cand) (Fin 0)
      then cost_scan req (i + 1) bestIdx bestCost cs
      else let cost = estimateCost cand req in
        if bestIdx = - 1 \<or> f64_less cost bestCost then cost_scan req (i + 1) i cost cs
        else cost_scan req (i + 1) bestIdx bestCost cs)"

definition CostOptimized_Select ::
  "Candidate list \<Rightarrow> ChatCompletionRequest \<Rightarrow> RequestMeta \<Rightarrow> CostOptimized \<Rightarrow> select_result \<times> CostOptimized"
where
  "CostOptimized_Select candidates req meta c =
     (if candidates = [] then (SelectErr (ErrText ''cost_optimized: empty candidate list''), c)
      else let bestIdx = cost_scan req 0 (- 1) (Fin 0) candidates in
        if bestIdx = - 1 then
          (let c' = warnFor (Group meta) candidates c;
               (res, rr) = RoundRobin_Select candidates meta (costFallback c')
           in (res, c'\<lparr>costFallback := rr\<rparr>))
        else (Picked (candidates ! nat bestIdx), c))"

section \<open>Latency optimized\<close>

definition defaultLatencyPollInterval :: duration where
  "defaultLatencyPollInterval = 5 * nanosPerSecond"

definition defaultLatencyHalfLife :: duration where
  "defaultLatencyHalfLife = 60 * nanosPerSecond"

record LatencyOptimized =
  latFallback :: RoundRobin
  ewmas :: "string \<rightharpoonup> float64"
  alpha :: float64

definition ewmaAlpha :: "(float64 \<Rightarrow> float64) \<Rightarrow> duration \<Rightarrow> duration \<Rightarrow> float64" where
  "ewmaAlpha math_Exp pollInterval halfLife =
     (if halfLife \<le> 0 then Fin 1
      else f64_sub (Fin 1) (math_Exp (f64_div (f64_neg (f64_of_int pollInterval)) (f64_of_int halfLife))))"

definition newLatencyOptimized :: "(float64 \<Rightarrow> float64) \<Rightarrow> duration \<Rightarrow> duration \<Rightarrow> LatencyOptimized" where
  "newLatencyOptimized math_Exp pollInterval halfLife =
     \<lparr>latFallback = NewRoundRobin, ewmas = Map.empty, alpha = ewmaAlpha math_Exp pollInterval halfLife\<rparr>"

definition NewLatencyOptimized :: "(float64 \<Rightarrow> float64) \<Rightarrow> LatencyOptimized" where
  "NewLatencyOptimized math_Exp = newLatencyOptimized math_Exp defaultLatencyPollInterval defaultLatencyHalfLife"

fun latency_scan :: "(string \<rightharpoonup> float64) \<Rightarrow> int \<Rightarrow> int \<Rightarrow> float64 \<Rightarrow> Candidate list \<Rightarrow> int" where
  "latency_scan ew i bestIdx bestEwma [] = bestIdx"
| "latency_scan ew i bestIdx bestEwma (c # cs) =
     (case ew (refName (candProvider c)) of
        None \<Rightarrow> latency_scan ew (i + 1) bestIdx bestEwma cs
      | Some v \<Rightarrow> if f64_less v bestEwma then latency_scan ew (i + 1) i v cs
                  else latency_scan ew (i + 1) bestIdx bestEwma cs)"

definition LatencyOptimized_Select ::
  "Candidate list \<Rightarrow> RequestMeta \<Rightarrow> LatencyOptimized \<Rightarrow> select_result \<times> LatencyOptimized"
where
  "LatencyOptimized_Select candidates meta s =
     (if candidates = [] then (SelectErr (ErrText ''latency_optimized: empty candidate list''), s)
      else let bestIdx = latency_scan (ewmas s) 0 (- 1) PosInf candidates in
        if bestIdx = - 1 then
          (let (res, rr) = RoundRobin_Select candidates meta (latFallback s) in (res, s\<lparr>latFallback := rr\<rparr>))
        else (Picked (candidates ! nat bestIdx), s))"

definition Latency_Observe :: "string \<Rightarrow> float64 \<Rightarrow> LatencyOptimized \<Rightarrow> LatencyOptimized" where
  "Latency_Observe provider seconds s =
     (if f64_less seconds (Fin 0) \<or> seconds = NaN \<or> seconds = PosInf \<or> seconds = NegInf then s
      else case ewmas s provider of
          Some prev \<Rightarrow> s\<lparr>ewmas := (ewmas s)(provider \<mapsto>
              f64_add (f64_mul (alpha s) seconds) (f64_mul (f64_sub (Fin 1) (alpha s)) prev))\<rparr>
        | None \<Rightarrow> s\<lparr>ewmas := (ewmas s)(provider \<mapsto> seconds)\<rparr>)"

text \<open>
  One tick of the poller: \<open>prev\<close> is the previous reading (an absent provider reads as the zero
  \<^verbatim>\<open>LatencyTotal\<close>) and the list is the new reading in the order the \<^verbatim>\<open>range\<close> takes.
\<close>

fun poll_tick :: "(string \<rightharpoonup> LatencyTotal) \<Rightarrow> (string \<times> LatencyTotal) list \<Rightarrow> LatencyOptimized \<Rightarrow> LatencyOptimized" where
  "poll_tick prev [] s = s"
| "poll_tick prev ((provider, c) # rest) s =
     (let p = (case prev provider of Some p \<Rightarrow> p | None \<Rightarrow> \<lparr>Sum = Fin 0, Count = 0\<rparr>) in
      poll_tick prev rest
        (if Count c < Count p then s
         else let deltaCount = Count c - Count p in
           if deltaCount = 0 then s
           else let deltaSum = f64_sub (Sum c) (Sum p);
                    deltaSum = (if f64_less deltaSum (Fin 0) then Fin 0 else deltaSum)
                in Latency_Observe provider (f64_div deltaSum (f64_of_int (uint deltaCount))) s))"

datatype poll_event = Tick "(string \<times> LatencyTotal) list" | Stopped

fun poll_run :: "(string \<rightharpoonup> LatencyTotal) \<Rightarrow> poll_event list \<Rightarrow> LatencyOptimized \<Rightarrow> LatencyOptimized" where
  "poll_run prev [] s = s"
| "poll_run prev (Stopped # _) s = s"
| "poll_run prev (Tick reading # evs) s = poll_run (map_of reading) evs (poll_tick prev reading s)"

section \<open>Strategies by name\<close>

datatype strategy =
    StrategyPriority
  | StrategyRoundRobin RoundRobin
  | StrategyWeighted Weighted
  | StrategyCost CostOptimized
  | StrategyLatency LatencyOptimized

fun Strategy_Name :: "strategy \<Rightarrow> string" where
  "Strategy_Name StrategyPriority = ''priority''"
| "Strategy_Name (StrategyRoundRobin _) = ''round_robin''"
| "Strategy_Name (StrategyWeighted _) = ''weighted''"
| "Strategy_Name (StrategyCost _) = ''cost_optimized''"
| "Strategy_Name (StrategyLatency _) = ''latency_optimized''"

fun Strategy_Select ::
  "(float64 \<Rightarrow> int) \<Rightarrow> Candidate list \<Rightarrow> ChatCompletionRequest \<Rightarrow> RequestMeta \<Rightarrow> strategy \<Rightarrow> select_result \<times> strategy"
where
  "Strategy_Select conv cs req meta StrategyPriority = (Priority_Select cs, StrategyPriority)"
| "Strategy_Select conv cs req meta (StrategyRoundRobin r) = map_prod id StrategyRoundRobin (RoundRobin_Select cs meta r)"
| "Strategy_Select conv cs req meta (StrategyWeighted w) = map_prod id StrategyWeighted (Weighted_Select conv cs w)"
| "Strategy_Select conv cs req meta (StrategyCost c) = map_prod id StrategyCost (CostOptimized_Select cs req meta c)"
| "Strategy_Select conv cs req meta (StrategyLatency s) = map_prod id StrategyLatency (LatencyOptimized_Select cs meta s)"

datatype strategy_error = UnknownStrategy string

definition Build :: "(float64 \<Rightarrow> float64) \<Rightarrow> instant \<Rightarrow> string \<Rightarrow> strategy_error + strategy" where
  "Build math_Exp now name =
     (if name = ''cost_optimized'' then Inr (StrategyCost NewCostOptimized)
      else if name = ''latency_optimized'' then Inr (StrategyLatency (NewLatencyOptimized math_Exp))
      else if name = ''round_robin'' then Inr (StrategyRoundRobin NewRoundRobin)
      else if name = ''weighted'' then Inr (StrategyWeighted (NewWeighted now))
      else if name = ''priority'' then Inr StrategyPriority
      else Inl (UnknownStrategy name))"

text \<open>A \<^verbatim>\<open>Builder\<close>: the instances it allocated, in order, and the index it memoized for each name.\<close>

record Builder =
  instances :: "strategy list"
  by_name :: "string \<rightharpoonup> nat"

definition NewBuilder :: Builder where
  "NewBuilder = \<lparr>instances = [], by_name = Map.empty\<rparr>"

definition Builder_Build ::
  "(float64 \<Rightarrow> float64) \<Rightarrow> instant \<Rightarrow> string \<Rightarrow> Builder \<Rightarrow> (strategy_error + nat) \<times> Builder"
where
  "Builder_Build math_Exp now name b = (case by_name b name of
       Some s \<Rightarrow> (Inr s, b)
     | None \<Rightarrow> (case Build math_Exp now name of
          Inl err \<Rightarrow> (Inl err, b)
        | Inr s \<Rightarrow> (Inr (length (instances b)),
              b\<lparr>instances := instances b @ [s], by_name := (by_name b)(name \<mapsto> length (instances b))\<rparr>)))"

section \<open>Specification vocabulary\<close>

text \<open>The order of the non-NaN floats, for the forward minimum scans.\<close>

fun f64_rank :: "float64 \<Rightarrow> int \<times> rat" where
  "f64_rank (Fin a) = (0, a)"
| "f64_rank PosInf = (1, 0)"
| "f64_rank NegInf = (- 1, 0)"
| "f64_rank NaN = (0, 0)"

definition priced :: "Candidate \<Rightarrow> bool" where
  "priced c \<longleftrightarrow> \<not> (f64_eq (CostPer1kInputUSD c) (Fin 0) \<and> f64_eq (CostPer1kOutputUSD c) (Fin 0))"

definition cost_key :: "ChatCompletionRequest \<Rightarrow> Candidate \<Rightarrow> float64 option" where
  "cost_key req c = (if priced c then Some (estimateCost c req) else None)"

definition latency_key :: "(string \<rightharpoonup> float64) \<Rightarrow> Candidate \<Rightarrow> float64 option" where
  "latency_key ew c = (case ew (refName (candProvider c)) of
     Some v \<Rightarrow> if f64_less v PosInf then Some v else None | None \<Rightarrow> None)"

definition scan_index :: "(nat \<times> float64) option \<Rightarrow> int" where
  "scan_index b = (case b of None \<Rightarrow> - 1 | Some (j, v) \<Rightarrow> int j)"

definition rr_counter :: "RoundRobin \<Rightarrow> string \<Rightarrow> 64 word" where
  "rr_counter r g = (case counters r g of Some v \<Rightarrow> v | None \<Rightarrow> 0)"

text \<open>A sequence of calls on one shared \<^verbatim>\<open>RoundRobin\<close>, with the group and the result of each.\<close>

fun rr_run :: "(RequestMeta \<times> Candidate list) list \<Rightarrow> RoundRobin \<Rightarrow> (string \<times> select_result) list" where
  "rr_run [] r = []"
| "rr_run ((m, cs) # calls) r =
     (Group m, fst (RoundRobin_Select cs m r)) # rr_run calls (snd (RoundRobin_Select cs m r))"

definition picks_of :: "string \<Rightarrow> (string \<times> select_result) list \<Rightarrow> select_result list" where
  "picks_of g results = map snd (filter (\<lambda>p. fst p = g) results)"

definition pos_weight :: "Candidate list \<Rightarrow> int" where
  "pos_weight cs = sum_list (map (\<lambda>c. max 0 (Weight c)) cs)"

definition builder_inv :: "Builder \<Rightarrow> bool" where
  "builder_inv b \<longleftrightarrow> (\<forall>name i. by_name b name = Some i \<longleftrightarrow>
     i < length (instances b) \<and> Strategy_Name (instances b ! i) = name)"

text \<open>Concrete values for the examples.\<close>

definition sample_candidate :: "string \<Rightarrow> int \<Rightarrow> int \<Rightarrow> float64 \<Rightarrow> Candidate" where
  "sample_candidate n p w cost = \<lparr>candProvider = \<lparr>refName = n, refHealth = None\<rparr>, candModel = n,
     CostPer1kInputUSD = cost, CostPer1kOutputUSD = Fin 0, Priority = p, Weight = w\<rparr>"

definition sample_meta :: "string \<Rightarrow> RequestMeta" where
  "sample_meta g = \<lparr>OrgID = [], KeyID = [], Attempt = 0, TriedNames = [], Group = g\<rparr>"

text \<open>Latencies that are finite, not negative and at most \<open>pow2 k\<close> seconds, and readings made of such.\<close>

definition alpha_ok :: "float64 \<Rightarrow> bool" where
  "alpha_ok a \<longleftrightarrow> (\<exists>q. a = Fin q \<and> 0 \<le> q \<and> q \<le> 1 \<and> rnd q = q)"

definition in_band :: "int \<Rightarrow> float64 \<Rightarrow> bool" where
  "in_band k v \<longleftrightarrow> (\<exists>q. v = Fin q \<and> 0 \<le> q \<and> q \<le> pow2 k)"

definition ewma_inv :: "int \<Rightarrow> LatencyOptimized \<Rightarrow> bool" where
  "ewma_inv k s \<longleftrightarrow> alpha_ok (alpha s) \<and> (\<forall>p v. ewmas s p = Some v \<longrightarrow> in_band k v)"

definition reading_ok :: "int \<Rightarrow> (string \<times> LatencyTotal) list \<Rightarrow> bool" where
  "reading_ok k reading \<longleftrightarrow> distinct (map fst reading) \<and> (\<forall>(p, t) \<in> set reading. in_band k (Sum t))"

fun poll_event_ok :: "int \<Rightarrow> poll_event \<Rightarrow> bool" where
  "poll_event_ok k (Tick reading) = reading_ok k reading"
| "poll_event_ok k Stopped = True"

definition strategy_names :: "string set" where
  "strategy_names = {''cost_optimized'', ''latency_optimized'', ''round_robin'', ''weighted'', ''priority''}"

section \<open>The forward scans\<close>

lemma f64_less_rank: "a \<noteq> NaN \<Longrightarrow> b \<noteq> NaN \<Longrightarrow> f64_less a b \<longleftrightarrow> f64_rank a < f64_rank b"
  by (cases a; cases b) simp_all

lemma f64_le_rank: "a \<noteq> NaN \<Longrightarrow> b \<noteq> NaN \<Longrightarrow> f64_rank a \<le> f64_rank b \<longleftrightarrow> \<not> f64_less b a"
  by (simp add: f64_less_rank not_less)

lemma priority_fold_scan:
  "n < length cs \<Longrightarrow>
   (let b = fold (\<lambda>i best. if Priority (cs ! i) < Priority (cs ! best) then i else best) [1..<Suc n] 0
    in scan_best (<) (\<lambda>c. Some (Priority c)) 0 None (take (Suc n) cs) = Some (b, Priority (cs ! b)))"
proof (induction n)
  case 0
  then show ?case by (cases cs) simp_all
next
  case (Suc n)
  have "take (Suc (Suc n)) cs = take (Suc n) cs @ [cs ! Suc n]"
    using Suc.prems by (rule take_Suc_conv_app_nth)
  moreover have "[1..<Suc (Suc n)] = [1..<Suc n] @ [Suc n]" by simp
  ultimately show ?case
    using Suc by (simp add: scan_best_append Let_def del: upt_Suc)
qed

lemma scan_index_simps [simp]: "scan_index None = - 1" "scan_index (Some (j, v)) = int j"
  by (simp_all add: scan_index_def)

lemma scan_index_None [simp]: "scan_index b = - 1 \<longleftrightarrow> b = None"
  by (cases b) auto

lemma cost_scan_best:
  "(\<And>j v. b = Some (j, v) \<Longrightarrow> bc = v) \<Longrightarrow>
   cost_scan req (int i) (scan_index b) bc cs = scan_index (scan_best f64_less (cost_key req) i b cs)"
proof (induction cs arbitrary: i b bc)
  case (Cons c cs)
  have *: "int i + 1 = int (Suc i)" by simp
  have s: "scan_index (Some (i, w)) = int i" for w by simp
  show ?case
  proof (cases "priced c")
    case False
    then show ?thesis
      using Cons.IH [of b bc "Suc i"] Cons.prems by (simp add: cost_key_def priced_def add.commute)
  next
    case True
    then have p: "\<not> (f64_eq (CostPer1kInputUSD c) (Fin 0) \<and> f64_eq (CostPer1kOutputUSD c) (Fin 0))"
      by (simp add: priced_def)
    show ?thesis
      using Cons.IH [of b bc "Suc i"] Cons.IH [of "Some (i, estimateCost c req)" "estimateCost c req" "Suc i"]
        Cons.prems True p
      by (cases b) (auto simp: cost_key_def Let_def add.commute simp flip: s split: prod.splits)
  qed
qed simp

lemma latency_scan_best:
  "(\<And>j v. b = Some (j, v) \<Longrightarrow> be = v) \<Longrightarrow> (b = None \<Longrightarrow> be = PosInf) \<Longrightarrow>
   latency_scan ew (int i) (scan_index b) be cs = scan_index (scan_best f64_less (latency_key ew) i b cs)"
proof (induction cs arbitrary: i b be)
  case (Cons c cs)
  have s: "scan_index (Some (i, w)) = int i" for w by simp
  have ninf: "f64_less v w \<Longrightarrow> f64_less v PosInf" for v w by (cases v; cases w) simp_all
  show ?case
    using Cons.IH [of b be "Suc i"] Cons.prems
      Cons.IH [of "Some (i, the (ew (refName (candProvider c))))" "the (ew (refName (candProvider c)))" "Suc i"]
    by (cases b) (auto simp: latency_key_def add.commute ninf simp flip: s split: option.splits prod.splits)
qed simp

section \<open>Round robin\<close>

lemma mod_inj_window:
  assumes "0 < (k::nat)"
  shows "inj_on (\<lambda>i. (c + i) mod k) {a..<a + k}"
proof (rule inj_onI)
  have key: False if "x < y" "y < x + k" "(c + x) mod k = (c + y) mod k" for x y
  proof -
    have "k dvd (c + y) - (c + x)" using that by (metis add_le_cancel_left less_imp_le mod_eq_dvd_iff_nat)
    then have "k dvd y - x" by simp
    then show False using that by (auto dest!: dvd_imp_le)
  qed
  fix x y assume xy: "x \<in> {a..<a + k}" "y \<in> {a..<a + k}" "(c + x) mod k = (c + y) mod k"
  show "x = y"
  proof (rule ccontr)
    assume "x \<noteq> y"
    then consider "x < y" | "y < x" by linarith
    then show False using key [of x y] key [of y x] xy by cases auto
  qed
qed

lemma mod_window_full:
  assumes "j < (k::nat)"
  shows "card {i \<in> {a..<a + k}. (c + i) mod k = j} = 1"
proof -
  let ?f = "\<lambda>i. (c + i) mod k"
  have k: "0 < k" using assms by simp
  have "card (?f ` {a..<a + k}) = k" using mod_inj_window [OF k] by (simp add: card_image)
  then have "?f ` {a..<a + k} = {..<k}"
    using k by (intro card_subset_eq) auto
  with assms have "j \<in> ?f ` {a..<a + k}" by simp
  then obtain i where i: "j = ?f i" "i \<in> {a..<a + k}" by (rule imageE)
  have "{i \<in> {a..<a + k}. ?f i = j} = {i}"
    using i mod_inj_window [OF k, of c a] by (auto dest: inj_onD)
  then show ?thesis by simp
qed

lemma mod_window_count:
  assumes "j < (k::nat)"
  shows "n div k \<le> card {i. i < n \<and> (c + i) mod k = j} \<and> card {i. i < n \<and> (c + i) mod k = j} \<le> n div k + 1"
proof (induction n rule: less_induct)
  case (less n)
  have k: "0 < k" using assms by simp
  show ?case
  proof (cases "n < k")
    case True
    have "{i. i < n \<and> (c + i) mod k = j} \<subseteq> {i \<in> {0..<0 + k}. (c + i) mod k = j}" using True by auto
    from card_mono [OF _ this] show ?thesis using True mod_window_full [OF assms, of 0 c] by simp
  next
    case False
    then have n: "n = (n - k) + k" by simp
    let ?A = "{i. i < n - k \<and> (c + i) mod k = j}" and ?B = "{i \<in> {n - k..<(n - k) + k}. (c + i) mod k = j}"
    have "{i. i < n \<and> (c + i) mod k = j} = ?A \<union> ?B" using False by auto
    moreover have "?A \<inter> ?B = {}" "finite ?A" "finite ?B" by auto
    moreover have "card ?B = 1" by (rule mod_window_full [OF assms])
    ultimately have "card {i. i < n \<and> (c + i) mod k = j} = card ?A + 1" by (simp only: card_Un_disjoint)
    moreover have "n div k = (n - k) div k + 1" using False k by (simp add: le_div_geq)
    ultimately show ?thesis using less [of "n - k"] k False by simp
  qed
qed

lemma counterFor_counter: "fst (counterFor g r) = rr_counter r g"
  by (simp add: counterFor_def rr_counter_def split: option.splits)

lemma RoundRobin_Select_step:
  assumes "cs \<noteq> []" "length cs < 2 ^ 64"
  shows "RoundRobin_Select cs m r =
    (Picked (cs ! (unat (rr_counter r (Group m)) mod length cs)),
     \<lparr>counters = (counters r)(Group m \<mapsto> rr_counter r (Group m) + 1)\<rparr>)"
proof -
  have "unat (rr_counter r (Group m) mod of_nat (length cs)) = unat (rr_counter r (Group m)) mod length cs"
    using assms(2) by (simp add: unat_mod unat_of_nat)
  with assms(1) show ?thesis
    by (auto simp: RoundRobin_Select_def counterFor_def rr_counter_def Let_def split: option.splits prod.splits)
qed

lemma rr_counter_step:
  "rr_counter (snd (RoundRobin_Select cs m r)) g =
     (if cs \<noteq> [] \<and> g = Group m then rr_counter r g + 1 else rr_counter r g)"
  by (auto simp: RoundRobin_Select_def counterFor_def rr_counter_def Let_def split: option.splits prod.splits)

lemma unat_plus_one: "unat (c :: 64 word) + 1 < 2 ^ 64 \<Longrightarrow> unat (c + 1) = Suc (unat c)"
proof -
  assume "unat c + 1 < 2 ^ 64"
  then have "(unat c + unat (1 :: 64 word)) mod 2 ^ LENGTH(64) = unat c + 1" by (simp only: unat_1 len_num0 len_num1 len_bit0 len_bit1 mod_less) simp
  then show ?thesis using unat_word_ariths(1) [of c 1] by (simp only: Suc_eq_plus1)
qed

lemma window_step: "c + Suc n \<le> N \<Longrightarrow> n \<noteq> 0 \<Longrightarrow> c + 1 < (N::nat)" "c + Suc n \<le> N \<Longrightarrow> Suc c + n \<le> N"
  by linarith+

lemma picks_of_none: "\<forall>c \<in> set calls. Group (fst c) \<noteq> g \<Longrightarrow> picks_of g (rr_run calls r) = []"
  by (induction calls arbitrary: r) (auto simp: picks_of_def)

lemma rr_run_picks:
  assumes "\<forall>c \<in> set calls. Group (fst c) = g \<longrightarrow> snd c = cs" "cs \<noteq> []" "length cs < 2 ^ 64"
    and "unat (rr_counter r g) + length (filter (\<lambda>c. Group (fst c) = g) calls) \<le> 2 ^ 64"
  shows "picks_of g (rr_run calls r) =
    map (\<lambda>i. Picked (cs ! ((unat (rr_counter r g) + i) mod length cs)))
      [0..<length (filter (\<lambda>c. Group (fst c) = g) calls)]"
  using assms(1,4)
proof (induction calls arbitrary: r)
  case (Cons call calls)
  obtain m cs' where call: "call = (m, cs')" by (cases call)
  let ?r = "snd (RoundRobin_Select cs' m r)"
  let ?n = "length (filter (\<lambda>c. Group (fst c) = g) calls)"
  let ?c = "unat (rr_counter r g)"
  have hyp: "\<forall>c \<in> set calls. Group (fst c) = g \<longrightarrow> snd c = cs" using Cons.prems(1) by simp
  show ?case
  proof (cases "Group m = g")
    case False
    then have "rr_counter ?r g = rr_counter r g" by (simp add: rr_counter_step)
    with False Cons.IH [OF hyp, of ?r] Cons.prems(2) call show ?thesis by (simp add: picks_of_def)
  next
    case True
    with Cons.prems(1) call have cs': "cs' = cs" by simp
    have sz: "?c + Suc ?n \<le> 2 ^ 64" using Cons.prems(2) call True by simp
    have c: "rr_counter ?r g = rr_counter r g + 1" using True cs' assms(2) by (simp add: rr_counter_step)
    have step: "fst (RoundRobin_Select cs' m r) = Picked (cs ! (?c mod length cs))"
      unfolding cs' RoundRobin_Select_step [OF assms(2,3)] using True by simp
    have rest: "picks_of g (rr_run calls ?r) = map (\<lambda>i. Picked (cs ! ((Suc ?c + i) mod length cs))) [0..<?n]"
    proof (cases "?n = 0")
      case True
      then have "\<forall>c \<in> set calls. Group (fst c) \<noteq> g" by (simp add: filter_empty_conv)
      with True show ?thesis by (simp add: picks_of_none)
    next
      case False
      from window_step(1) [OF sz this] have u: "unat (rr_counter ?r g) = Suc ?c" unfolding c by (rule unat_plus_one)
      have "unat (rr_counter ?r g) + ?n \<le> 2 ^ 64" unfolding u using window_step(2) [OF sz] .
      from Cons.IH [OF hyp this] show ?thesis by (simp only: u)
    qed
    have upt: "[0..<Suc ?n] = 0 # map Suc [0..<?n]" by (metis map_Suc_upt upt_conv_Cons zero_less_Suc)
    have "picks_of g (rr_run (call # calls) r) = Picked (cs ! (?c mod length cs)) # picks_of g (rr_run calls ?r)"
      using True call step by (simp add: picks_of_def)
    also have "\<dots> = map (\<lambda>i. Picked (cs ! ((?c + i) mod length cs))) [0..<Suc ?n]"
      unfolding rest upt by simp
    finally show ?thesis using True call by simp
  qed
qed (simp add: picks_of_def)

section \<open>Weighted draws\<close>

lemma uint_drop_11: "uint (drop_bit 11 (w :: 64 word)) < 2 ^ 53"
proof -
  have "uint w < 18446744073709551616" using uint_lt2p [of w] by simp
  then have "uint w div 2048 < 9007199254740992" by linarith
  then show ?thesis by (simp add: drop_bit_eq_div uint_div)
qed

lemma Rand_Float64_range:
  obtains u where "fst (Rand_Float64 s) = Fin u" "0 \<le> u" "u \<le> 1 - 1 / 2 ^ 53"
proof -
  define n where "n = uint (drop_bit 11 (push_bit 11 (fst (PCG_Uint64 s))))"
  have n: "0 \<le> n" "n < 2 ^ 53" unfolding n_def by (simp_all only: uint_drop_11 uint_ge_0)
  let ?u = "of_int n / 2 ^ 53 :: rat"
  have "?u = of_int n * pow2 (- 53)" by (simp add: pow2_def)
  then have "rnd ?u = ?u" by (rule rnd_exact) (use n in simp_all)
  moreover have b: "0 \<le> ?u" "?u \<le> 1 - 1 / 2 ^ 53"
  proof -
    have "n + 1 \<le> 2 ^ 53" using n(2) by simp
    then have "of_int (n + 1) \<le> (of_int (2 ^ 53) :: rat)" by (simp only: of_int_le_iff)
    then show "?u \<le> 1 - 1 / 2 ^ 53" by (simp add: field_simps)
  qed (use n(1) in simp)
  moreover have "\<bar>?u\<bar> \<le> 2 ^ 1023" using b by (simp add: abs_le_iff)
  ultimately have "f64_round ?u = Fin ?u" by (simp only: f64_round_finite)
  moreover have "f64_of_int n = Fin (of_int n)" using n by (intro f64_of_int_small) simp
  ultimately have "f64_div (f64_of_int n) (Fin (2 ^ 53)) = Fin ?u" by simp
  then have "fst (Rand_Float64 s) = Fin ?u"
    unfolding Rand_Float64_def n_def by (simp add: case_prod_unfold Let_def)
  from that [OF this b] show ?thesis .
qed

lemma f64_mul_fraction:
  assumes "0 \<le> u" "u \<le> 1 - 1 / 2 ^ 53" "1 \<le> T" "T \<le> 2 ^ 53"
  shows "f64_mul (Fin u) (f64_of_int T) = Fin (rnd (u * of_int T))"
proof -
  have "0 \<le> (of_int T :: rat)" "(of_int T :: rat) \<le> of_int (2 ^ 53)"
    using assms(3,4) by (simp_all only: of_int_le_iff of_int_0_le_iff)
  moreover have "u \<le> 1" using assms(2) by (rule order_trans) simp
  ultimately have "\<bar>u * of_int T\<bar> \<le> 1 * of_int (2 ^ 53)"
    unfolding abs_mult using assms(1) by (intro mult_mono) (simp_all only: abs_of_nonneg zero_le_one abs_ge_zero)
  also have "\<dots> \<le> 2 ^ 1023" by simp
  finally show ?thesis using assms(3,4) by (simp add: f64_of_int_small f64_round_finite)
qed

lemma pos_weight_Cons: "pos_weight (c # cs) = max 0 (Weight c) + pos_weight cs"
  by (simp add: pos_weight_def)

lemma pos_weight_nonneg: "0 \<le> pos_weight cs"
  by (induction cs) (simp_all add: pos_weight_def)

lemma weighted_fold:
  "0 \<le> t \<Longrightarrow> t + pos_weight cs < 2 ^ 63 \<Longrightarrow>
   fold (\<lambda>c total. if Weight c < 0 then total else wrap64 (total + Weight c)) cs t = t + pos_weight cs"
proof (induction cs arbitrary: t)
  case (Cons c cs)
  have n: "0 \<le> pos_weight cs" by (rule pos_weight_nonneg)
  show ?case
  proof (cases "Weight c < 0")
    case True
    then show ?thesis using Cons by (simp add: pos_weight_Cons)
  next
    case False
    have "in_int64 (t + Weight c)" using False Cons.prems n by (simp add: in_int64_def pos_weight_Cons)
    then show ?thesis using False Cons.IH [of "t + Weight c"] Cons.prems by (simp add: pos_weight_Cons go_arith)
  qed
qed (simp add: pos_weight_def)

lemma weighted_total_exact: "pos_weight cs < 2 ^ 63 \<Longrightarrow> weighted_total cs = pos_weight cs"
  using weighted_fold [of 0 cs] by (simp add: weighted_total_def)

lemma weighted_pick_interval:
  assumes "0 \<le> a" "a + pos_weight cs \<le> 2 ^ 53" "of_int a \<le> p" "p < of_int (a + pos_weight cs)"
  shows "\<exists>j < length cs. weighted_pick (Fin p) (Fin (of_int a)) cs = Some (cs ! j) \<and> 0 < Weight (cs ! j) \<and>
     of_int (a + pos_weight (take j cs)) \<le> p \<and> p < of_int (a + pos_weight (take (Suc j) cs))"
  using assms
proof (induction cs arbitrary: a)
  case (Cons c cs)
  have n: "0 \<le> pos_weight cs" by (rule pos_weight_nonneg)
  show ?case
  proof (cases "Weight c \<le> 0")
    case True
    then obtain j where "j < length cs" "weighted_pick (Fin p) (Fin (of_int a)) cs = Some (cs ! j)" "0 < Weight (cs ! j)"
      "of_int (a + pos_weight (take j cs)) \<le> p" "p < of_int (a + pos_weight (take (Suc j) cs))"
      using Cons.IH [of a] Cons.prems by (auto simp: pos_weight_Cons)
    then show ?thesis using True by (intro exI [of _ "Suc j"]) (simp add: pos_weight_Cons)
  next
    case False
    let ?b = "a + Weight c"
    have b: "0 \<le> ?b" "?b + pos_weight cs \<le> 2 ^ 53" using False Cons.prems by (simp_all add: pos_weight_Cons)
    then have "\<bar>Weight c\<bar> \<le> 2 ^ 53" "\<bar>?b\<bar> \<le> 2 ^ 53" using False n Cons.prems(1) by linarith+
    then have add: "f64_add (Fin (of_int a)) (f64_of_int (Weight c)) = Fin (of_int ?b)"
      using f64_of_int_small [of ?b] f64_of_int_small [of "Weight c"] by (simp add: f64_of_int_def [of ?b])
    show ?thesis
    proof (cases "p < of_int ?b")
      case True
      then show ?thesis using False add Cons.prems(3) by (intro exI [of _ 0]) (simp add: pos_weight_def)
    next
      case nless: False
      then obtain j where "j < length cs" "weighted_pick (Fin p) (Fin (of_int ?b)) cs = Some (cs ! j)" "0 < Weight (cs ! j)"
        "of_int (?b + pos_weight (take j cs)) \<le> p" "p < of_int (?b + pos_weight (take (Suc j) cs))"
        using Cons.IH [of ?b] b Cons.prems(4) False by (auto simp: pos_weight_Cons algebra_simps)
      then show ?thesis using False nless add by (intro exI [of _ "Suc j"]) (simp add: pos_weight_Cons algebra_simps)
    qed
  qed
qed (simp add: pos_weight_def)

lemma weighted_pick_member: "weighted_pick p a cs = Some c \<Longrightarrow> c \<in> set cs"
  by (induction p a cs rule: weighted_pick.induct) (auto simp: Let_def split: if_splits)

lemma in_int64_below: "0 \<le> x \<Longrightarrow> x < n \<Longrightarrow> n \<le> 2 ^ 53 \<Longrightarrow> in_int64 x"
  by (simp add: in_int64_def)

lemma f64_uniform_index:
  assumes "0 \<le> u" "u \<le> 1 - 1 / 2 ^ 53" "1 \<le> n" "n \<le> 2 ^ 53"
  shows "f64_to_int64 conv (f64_mul (Fin u) (f64_of_int n)) = \<lfloor>rnd (u * of_int n)\<rfloor>"
    and "0 \<le> \<lfloor>rnd (u * of_int n)\<rfloor>" "\<lfloor>rnd (u * of_int n)\<rfloor> < n"
proof -
  have r: "0 \<le> rnd (u * of_int n)" "rnd (u * of_int n) < of_int n"
    using rnd_fraction [OF assms] by simp_all
  then show b: "0 \<le> \<lfloor>rnd (u * of_int n)\<rfloor>" "\<lfloor>rnd (u * of_int n)\<rfloor> < n" by (simp_all add: floor_less_iff)
  then have "in_int64 \<lfloor>rnd (u * of_int n)\<rfloor>" using assms(4) by (rule in_int64_below)
  then show "f64_to_int64 conv (f64_mul (Fin u) (f64_of_int n)) = \<lfloor>rnd (u * of_int n)\<rfloor>"
    unfolding f64_mul_fraction [OF assms] using r by simp
qed

lemma Weighted_Select_member:
  assumes "cs \<noteq> []" "length cs \<le> 2 ^ 53"
  shows "\<exists>c \<in> set cs. fst (Weighted_Select conv cs w) = Picked c"
proof -
  obtain u where u: "fst (Rand_Float64 (rng w)) = Fin u" "0 \<le> u" "u \<le> 1 - 1 / 2 ^ 53"
    by (rule Rand_Float64_range)
  have n: "1 \<le> int (length cs)" "int (length cs) \<le> 2 ^ 53"
  proof -
    show "1 \<le> int (length cs)" using assms(1) by (cases cs) simp_all
    have "int (length cs) \<le> int (2 ^ 53)" using assms(2) by (simp only: of_nat_le_iff)
    then show "int (length cs) \<le> 2 ^ 53" by simp
  qed
  note ix = f64_uniform_index [OF u(2,3) n]
  have "fst (Weighted_Select conv cs w) = Weighted_Select_with conv (Fin u) cs"
    using assms(1) u(1) by (simp add: Weighted_Select_def case_prod_unfold)
  moreover have "\<exists>c \<in> set cs. Weighted_Select_with conv (Fin u) cs = Picked c"
  proof (cases "weighted_total cs = 0")
    case True
    define i where "i = \<lfloor>rnd (u * of_int (int (length cs)))\<rfloor>"
    have i: "f64_to_int64 conv (f64_mul (Fin u) (f64_of_int (int (length cs)))) = i" "0 \<le> i" "i < int (length cs)"
      unfolding i_def by (rule ix)+
    then have "cs ! nat i \<in> set cs" by (intro nth_mem) linarith
    moreover have "Weighted_Select_with conv (Fin u) cs = Picked (cs ! nat i)"
      using True i by (simp add: Weighted_Select_with_def)
    ultimately show ?thesis by blast
  next
    case False
    have "c \<in> set cs" if "find (\<lambda>c. 0 < Weight c) (rev cs) = Some c" for c
      using that by (metis find_Some_iff nth_mem set_rev)
    then show ?thesis using assms(1) False
      by (auto simp: Weighted_Select_with_def Let_def split: option.splits dest: weighted_pick_member)
  qed
  ultimately show ?thesis by simp
qed

section \<open>The moving average\<close>

lemma pow2_le_1023: "k \<le> 1022 \<Longrightarrow> pow2 k * (1 + 1 / 2 ^ 53) \<le> 2 ^ 1023"
proof -
  assume "k \<le> 1022"
  then have "pow2 k \<le> pow2 1022" by simp
  then have "pow2 k * (1 + 1 / 2 ^ 53) \<le> pow2 1022 * 2" by (intro mult_mono) simp_all
  then show ?thesis by (simp add: pow2_def [of 1022])
qed

lemma pow2_le_1023': "k \<le> 1022 \<Longrightarrow> pow2 k \<le> 2 ^ 1023"
  using pow2_le_1023 [of k] by (rule order_trans [rotated]) simp_all

lemma f64_round_in_band: "0 \<le> x \<Longrightarrow> x \<le> pow2 k \<Longrightarrow> 0 \<le> k \<Longrightarrow> k \<le> 1022 \<Longrightarrow>
    f64_round x = Fin (rnd x) \<and> 0 \<le> rnd x \<and> rnd x \<le> pow2 k"
proof -
  assume x: "0 \<le> x" "x \<le> pow2 k" "0 \<le> k" "k \<le> 1022"
  then have "\<bar>x\<bar> \<le> 2 ^ 1023" using order_trans [OF x(2) pow2_le_1023' [OF x(4)]] by simp
  moreover have "rnd x \<le> pow2 k" using rnd_mono [OF x(2)] x(3) by simp
  ultimately show ?thesis using x(1) by (simp add: f64_round_finite rnd_nonneg)
qed

lemma in_band_cases: "in_band k v \<Longrightarrow> (\<And>q. v = Fin q \<Longrightarrow> 0 \<le> q \<Longrightarrow> q \<le> pow2 k \<Longrightarrow> P) \<Longrightarrow> P"
  by (auto simp: in_band_def)

lemma ewma_step_in_band:
  assumes "alpha_ok a" "in_band k x" "in_band k p" "0 \<le> k" "k \<le> 1022"
  shows "in_band k (f64_add (f64_mul a x) (f64_mul (f64_sub (Fin 1) a) p))"
proof -
  obtain q where q: "a = Fin q" "0 \<le> q" "q \<le> 1" "rnd q = q" using assms(1) by (auto simp: alpha_ok_def)
  obtain s where s: "x = Fin s" "0 \<le> s" "s \<le> pow2 k" using assms(2) by (rule in_band_cases)
  obtain t where t: "p = Fin t" "0 \<le> t" "t \<le> pow2 k" using assms(3) by (rule in_band_cases)
  note bound = order_trans [OF _ pow2_le_1023 [OF assms(5)]]
  have sub: "f64_sub (Fin 1) a = Fin (rnd (1 - q))"
    using q f64_round_in_band [of "1 - q" 0] by (simp add: f64_sub_def pow2_def)
  have r: "0 \<le> rnd (1 - q)" "rnd (1 - q) \<le> 1"
    using q f64_round_in_band [of "1 - q" 0] by (simp_all add: pow2_def)
  have "q * s \<le> 1 * pow2 k" using q s by (intro mult_mono) simp_all
  then have qs: "f64_mul a x = Fin (rnd (q * s))"
    using q s assms(4,5) by (simp add: f64_round_in_band)
  have "rnd (1 - q) * t \<le> 1 * pow2 k" using r t by (intro mult_mono) simp_all
  then have rt: "f64_mul (f64_sub (Fin 1) a) p = Fin (rnd (rnd (1 - q) * t))"
    unfolding sub using r t assms(4,5) by (simp add: f64_round_in_band)
  note c = rnd_convex [OF q(2,3,4) s(2,3) t(2,3) assms(4)]
  have "\<bar>rnd (q * s) + rnd (rnd (1 - q) * t)\<bar> \<le> 2 ^ 1023" using c(1) bound [OF c(2)] by (simp only: abs_of_nonneg)
  then have "f64_add (f64_mul a x) (f64_mul (f64_sub (Fin 1) a) p) = Fin (rnd (rnd (q * s) + rnd (rnd (1 - q) * t)))"
    by (simp only: qs rt f64_add.simps f64_round_finite)
  then show ?thesis using c by (simp add: in_band_def rnd_nonneg)
qed

lemma Latency_Observe_inv:
  "ewma_inv k s \<Longrightarrow> in_band k x \<Longrightarrow> 0 \<le> k \<Longrightarrow> k \<le> 1022 \<Longrightarrow> ewma_inv k (Latency_Observe p x s)"
  by (auto simp: ewma_inv_def Latency_Observe_def ewma_step_in_band split: option.splits)

lemma delta_average_in_band:
  assumes "in_band k a" "in_band k b" "(d :: 64 word) \<noteq> 0" "0 \<le> k" "k \<le> 1022"
  shows "in_band k (f64_div (if f64_less (f64_sub a b) (Fin 0) then Fin 0 else f64_sub a b) (f64_of_int (uint d)))"
proof -
  obtain x where x: "a = Fin x" "0 \<le> x" "x \<le> pow2 k" using assms(1) by (rule in_band_cases)
  obtain y where y: "b = Fin y" "0 \<le> y" "y \<le> pow2 k" using assms(2) by (rule in_band_cases)
  have "\<bar>x - y\<bar> \<le> pow2 k" using x y by (simp add: abs_le_iff)
  then have sub: "f64_sub a b = Fin (rnd (x - y))"
    using x(1) y(1) order_trans [OF _ pow2_le_1023' [OF assms(5)]] by (simp add: f64_sub_def f64_round_finite)
  define z where "z = (if rnd (x - y) < 0 then 0 else rnd (x - y))"
  have "rnd (x - y) \<le> pow2 k" using rnd_mono [of "x - y" "pow2 k"] x y assms(4) by simp
  then have z: "0 \<le> z" "z \<le> pow2 k" by (auto simp: z_def)
  have d: "1 \<le> uint d" "uint d < 2 ^ 64"
    using assms(3) uint_lt2p [of d] by (simp_all add: uint_0_iff int_one_le_iff_zero_less order.strict_iff_order)
  define m where "m = uint d"
  let ?n = "of_int m :: rat"
  note d = d [folded m_def]
  have "?n \<le> of_int (2 ^ 64)" using d(2) by (simp only: of_int_le_iff less_imp_le)
  then have n: "1 \<le> ?n" "?n \<le> pow2 64" using d(1) by (simp_all add: pow2_def)
  then have "f64_of_int (m) = Fin (rnd ?n)"
    unfolding f64_of_int_def using f64_round_in_band [of ?n 64] by simp
  moreover have n1: "1 \<le> rnd ?n" using rnd_mono [OF n(1)] rnd_of_int [of 1] by simp
  moreover have "z / rnd ?n \<le> z / 1" using z n1 by (intro divide_left_mono) simp_all
  then have "z / rnd ?n \<le> pow2 k" using z by simp
  ultimately have "f64_div (Fin z) (f64_of_int (m)) = Fin (rnd (z / rnd ?n))"
     "0 \<le> rnd (z / rnd ?n)" "rnd (z / rnd ?n) \<le> pow2 k"
    using f64_round_in_band [of "z / rnd ?n" k] z assms(4,5) by simp_all
  moreover have "(if f64_less (f64_sub a b) (Fin 0) then Fin 0 else f64_sub a b) = Fin z"
    by (simp add: sub z_def)
  ultimately show ?thesis by (simp add: in_band_def m_def)
qed

lemma poll_tick_inv:
  assumes "\<forall>p t. prev p = Some t \<longrightarrow> in_band k (Sum t)" and k: "0 \<le> k" "k \<le> 1022"
  shows "ewma_inv k s \<Longrightarrow> \<forall>r \<in> set reading. in_band k (Sum (snd r)) \<Longrightarrow> ewma_inv k (poll_tick prev reading s)"
proof (induction reading arbitrary: s)
  case (Cons r reading)
  obtain provider c where r: "r = (provider, c)" by (cases r)
  define p where "p = (case prev provider of Some p \<Rightarrow> p | None \<Rightarrow> \<lparr>Sum = Fin 0, Count = 0\<rparr>)"
  have "in_band k (Sum p)" using assms(1) by (auto simp: p_def in_band_def split: option.splits)
  moreover have "in_band k (Sum c)" using Cons.prems(2) r by simp
  ultimately have avg: "Count c - Count p \<noteq> 0 \<Longrightarrow> in_band k (f64_div (if f64_less (f64_sub (Sum c) (Sum p)) (Fin 0)
      then Fin 0 else f64_sub (Sum c) (Sum p)) (f64_of_int (uint (Count c - Count p))))"
    using k by (intro delta_average_in_band)
  show ?case
    unfolding r poll_tick.simps Let_def p_def [symmetric]
    by (rule Cons.IH) (use Cons.prems avg k in \<open>auto intro!: Latency_Observe_inv\<close>)
qed simp

lemma poll_run_inv:
  assumes k: "0 \<le> k" "k \<le> 1022"
  shows "ewma_inv k s \<Longrightarrow> \<forall>p t. prev p = Some t \<longrightarrow> in_band k (Sum t) \<Longrightarrow> list_all (poll_event_ok k) evs \<Longrightarrow>
     ewma_inv k (poll_run prev evs s)"
proof (induction evs arbitrary: prev s)
  case (Cons ev evs)
  show ?case
  proof (cases ev)
    case (Tick reading)
    then have r: "\<forall>r \<in> set reading. in_band k (Sum (snd r))" using Cons.prems(3) by (auto simp: reading_ok_def)
    then have "\<forall>p t. map_of reading p = Some t \<longrightarrow> in_band k (Sum t)" by (auto dest!: map_of_SomeD)
    then show ?thesis unfolding Tick poll_run.simps
      using Cons.prems r poll_tick_inv [OF Cons.prems(2) k] by (intro Cons.IH) simp_all
  qed (use Cons.prems in simp)
qed simp

lemma ewmaAlpha_ok:
  assumes "\<forall>x \<le> 0. in_band 0 (math_Exp (Fin x))" "0 < poll" "0 < half" "poll \<le> 2 ^ 53" "half \<le> 2 ^ 53"
  shows "alpha_ok (ewmaAlpha math_Exp poll half)"
proof -
  let ?r = "of_int poll / of_int half :: rat"
  have "of_int poll / of_int half \<le> (of_int (2 ^ 53) / of_int 1 :: rat)"
    using assms by (intro frac_le) simp_all
  then have r: "0 \<le> ?r" "?r \<le> pow2 53" using assms by (simp_all add: pow2_def)
  then have "\<bar>- ?r\<bar> \<le> 2 ^ 1023" using order_trans [OF r(2) pow2_le_1023' [of 53]] by simp
  then have "f64_round (- ?r) = Fin (- rnd ?r)" by (simp only: f64_round_finite rnd_minus)
  moreover have "f64_of_int poll = Fin (of_int poll)" "f64_of_int half = Fin (of_int half)"
    using assms by (simp_all add: f64_of_int_small)
  ultimately have "f64_div (f64_neg (f64_of_int poll)) (f64_of_int half) = Fin (- rnd ?r)"
    using assms(3) by simp
  moreover have "0 \<le> rnd ?r" using r(1) by (rule rnd_nonneg)
  ultimately have "in_band 0 (math_Exp (f64_div (f64_neg (f64_of_int poll)) (f64_of_int half)))"
    using assms(1) by simp
  then obtain q where q: "math_Exp (f64_div (f64_neg (f64_of_int poll)) (f64_of_int half)) = Fin q" "0 \<le> q" "q \<le> 1"
    by (auto simp: in_band_def pow2_def)
  have "0 \<le> 1 - q" "1 - q \<le> pow2 0" using q by (simp_all add: pow2_def)
  from f64_round_in_band [OF this] have r: "f64_round (1 - q) = Fin (rnd (1 - q))" "0 \<le> rnd (1 - q)" "rnd (1 - q) \<le> 1"
    by (simp_all add: pow2_def)
  show ?thesis unfolding ewmaAlpha_def alpha_ok_def q using assms(3) r by (simp add: f64_sub_def)
qed

section \<open>The interface the router relies on\<close>

locale candidate_strategy =
  fixes sel :: "Candidate list \<Rightarrow> ChatCompletionRequest \<Rightarrow> RequestMeta \<Rightarrow> 's \<Rightarrow> select_result \<times> 's"
    and name :: "'s \<Rightarrow> string"
  assumes sel_member:
      "cs \<noteq> [] \<Longrightarrow> length cs \<le> 2 ^ 53 \<Longrightarrow> \<exists>c \<in> set cs. fst (sel cs req meta s) = Picked c"
    and sel_empty: "\<exists>e. fst (sel [] req meta s) = SelectErr e"
    and sel_name: "name (snd (sel cs req meta s)) = name s"
begin

lemma sel_picks: "length cs \<le> 2 ^ 53 \<Longrightarrow> (\<exists>c. fst (sel cs req meta s) = Picked c) \<longleftrightarrow> cs \<noteq> []"
  using sel_member [of cs req meta s] sel_empty [of req meta s] by auto

lemma sel_no_panic: "length cs \<le> 2 ^ 53 \<Longrightarrow> fst (sel cs req meta s) \<noteq> SelectPanic"
  using sel_member [of cs req meta s] sel_empty [of req meta s] by (cases "cs = []") auto

lemma sel_singleton: "fst (sel [c] req meta s) = Picked c"
  using sel_member [of "[c]" req meta s] by simp

end

lemma RoundRobin_Select_member:
  assumes "cs \<noteq> []" "length cs \<le> 2 ^ 53"
  shows "\<exists>c \<in> set cs. fst (RoundRobin_Select cs meta r) = Picked c"
proof -
  have "length cs < 2 ^ 64" using assms(2) by (rule le_less_trans) simp
  from RoundRobin_Select_step [OF assms(1) this] show ?thesis using assms(1) by simp
qed

lemma scan_best_index_bound:
  "scan_best lt key i b cs = Some (j, v) \<Longrightarrow> b = Some (j, v) \<or> (i \<le> j \<and> j < i + length cs)"
  by (induction lt key i b cs rule: scan_best.induct) (fastforce split: option.splits if_splits prod.splits)+

lemma cost_scan_eq:
  "cost_scan req 0 (- 1) (Fin 0) cs = scan_index (scan_best f64_less (cost_key req) 0 None cs)"
  using cost_scan_best [of None "Fin 0" req 0 cs] by simp

lemma latency_scan_eq:
  "latency_scan ew 0 (- 1) PosInf cs = scan_index (scan_best f64_less (latency_key ew) 0 None cs)"
  using latency_scan_best [of None PosInf ew 0 cs] by simp

lemma CostOptimized_Select_member:
  assumes "cs \<noteq> []" "length cs \<le> 2 ^ 53"
  shows "\<exists>c \<in> set cs. fst (CostOptimized_Select cs req meta s) = Picked c"
proof (cases "scan_best f64_less (cost_key req) 0 None cs")
  case None
  with assms RoundRobin_Select_member [OF assms, of meta "costFallback (warnFor (Group meta) cs s)"] show ?thesis
    by (simp add: CostOptimized_Select_def cost_scan_eq Let_def case_prod_unfold)
next
  case (Some jv)
  with scan_best_index_bound [of f64_less "cost_key req" 0 None cs] assms(1) show ?thesis
    by (cases jv) (auto simp: CostOptimized_Select_def cost_scan_eq Let_def)
qed

lemma LatencyOptimized_Select_member:
  assumes "cs \<noteq> []" "length cs \<le> 2 ^ 53"
  shows "\<exists>c \<in> set cs. fst (LatencyOptimized_Select cs meta s) = Picked c"
proof (cases "scan_best f64_less (latency_key (ewmas s)) 0 None cs")
  case None
  with assms RoundRobin_Select_member [OF assms, of meta "latFallback s"] show ?thesis
    by (simp add: LatencyOptimized_Select_def latency_scan_eq Let_def case_prod_unfold)
next
  case (Some jv)
  with scan_best_index_bound [of f64_less "latency_key (ewmas s)" 0 None cs] assms(1) show ?thesis
    by (cases jv) (auto simp: LatencyOptimized_Select_def latency_scan_eq Let_def)
qed

lemma Priority_Select_scan:
  assumes "cs \<noteq> []"
  obtains j where "scan_best (<) (\<lambda>c. Some (Priority c)) 0 None cs = Some (j, Priority (cs ! j))"
    "Priority_Select cs = Picked (cs ! j)"
proof -
  have n: "length cs - 1 < length cs" "Suc (length cs - 1) = length cs" using assms by (cases cs; simp)+
  show ?thesis
    using priority_fold_scan [OF n(1)] assms that unfolding n(2) by (simp add: Priority_Select_def Let_def)
qed

lemma Priority_Select_member: "cs \<noteq> [] \<Longrightarrow> \<exists>c \<in> set cs. Priority_Select cs = Picked c"
  using scan_best_index_bound [of "(<)" "\<lambda>c. Some (Priority c)" 0 None cs]
  by (metis Priority_Select_scan add_0 nth_mem option.distinct(1))

interpretation strategies: candidate_strategy "Strategy_Select conv" Strategy_Name for conv
proof
  fix cs :: "Candidate list" and req meta s assume "cs \<noteq> []" "length cs \<le> 2 ^ 53"
  then show "\<exists>c \<in> set cs. fst (Strategy_Select conv cs req meta s) = Picked c"
    by (cases s) (simp_all add: Priority_Select_member RoundRobin_Select_member Weighted_Select_member
      CostOptimized_Select_member LatencyOptimized_Select_member)
next
  fix req meta s
  show "\<exists>e. fst (Strategy_Select conv [] req meta s) = SelectErr e"
    by (cases s) (simp_all add: Priority_Select_def RoundRobin_Select_def Weighted_Select_def
      CostOptimized_Select_def LatencyOptimized_Select_def)
next
  fix cs :: "Candidate list" and req meta s
  show "Strategy_Name (snd (Strategy_Select conv cs req meta s)) = Strategy_Name s" by (cases s) simp_all
qed

section \<open>Properties\<close>

text \<open>
  The priority strategy returns the earliest candidate of the lowest priority number: no candidate
  is lower, and every earlier one is strictly higher, so ties go to configuration order.
\<close>

theorem Priority_Select_first_lowest:
  assumes "cs \<noteq> []"
  shows "\<exists>j < length cs. Priority_Select cs = Picked (cs ! j) \<and>
    (\<forall>i < length cs. Priority (cs ! j) \<le> Priority (cs ! i)) \<and> (\<forall>i < j. Priority (cs ! j) < Priority (cs ! i))"
proof -
  obtain j where j: "scan_best (<) (\<lambda>c. Some (Priority c)) 0 None cs = Some (j, Priority (cs ! j))"
    "Priority_Select cs = Picked (cs ! j)" using assms by (rule Priority_Select_scan)
  have "first_min id (\<lambda>c. Some (Priority c)) cs j (Priority (cs ! j))"
    by (rule scan_best_first_min [where P = "\<lambda>_. True", OF _ _ j(1)]) simp_all
  with j(2) show ?thesis by (auto simp: first_min_def)
qed

theorem Priority_Select_first_lowest_witness:
  "Priority_Select [sample_candidate ''a'' 2 1 (Fin 0), sample_candidate ''b'' 1 1 (Fin 0), sample_candidate ''c'' 1 1 (Fin 0)]
     = Picked (sample_candidate ''b'' 1 1 (Fin 0))"
proof -
  let ?cs = "[sample_candidate ''a'' 2 1 (Fin 0), sample_candidate ''b'' 1 1 (Fin 0), sample_candidate ''c'' 1 1 (Fin 0)]"
  obtain j where j: "j < length ?cs" "Priority_Select ?cs = Picked (?cs ! j)"
    "\<forall>i < length ?cs. Priority (?cs ! j) \<le> Priority (?cs ! i)"
    "\<forall>i < j. Priority (?cs ! j) < Priority (?cs ! i)"
    using Priority_Select_first_lowest [of ?cs] by blast
  have "Priority (?cs ! j) \<le> Priority (?cs ! 1)" using spec [OF j(3), of 1] by simp
  moreover have "j = 2 \<Longrightarrow> Priority (?cs ! j) < Priority (?cs ! 1)" using spec [OF j(4), of 1] by simp
  ultimately have "j = 1" using j(1) by (auto simp: less_Suc_eq numeral_2_eq_2 sample_candidate_def)
  with j(2) show ?thesis by simp
qed



text \<open>
  C27. The weighted strategy draws in proportion to the weights: with at least one positive weight and a
  total of at most \<open>2 ^ 53\<close>, it picks the candidate whose slice of the cumulative weights contains the
  scaled draw (the draw, in \<open>[0, 1)\<close>, times the total, rounded), so a candidate of weight zero or less is never picked and
  the ``numerical edge'' fallback after the loop is unreachable.
\<close>

theorem Weighted_Select_slice:
  assumes "0 < pos_weight cs" "pos_weight cs \<le> 2 ^ 53"
  shows "\<exists>u j. fst (Rand_Float64 (rng w)) = Fin u \<and> 0 \<le> u \<and> u < 1 \<and> j < length cs \<and>
    Weighted_Select conv cs w = (Picked (cs ! j), \<lparr>rng = snd (Rand_Float64 (rng w))\<rparr>) \<and> 0 < Weight (cs ! j) \<and>
    of_int (pos_weight (take j cs)) \<le> rnd (u * of_int (pos_weight cs)) \<and>
    rnd (u * of_int (pos_weight cs)) < of_int (pos_weight (take (Suc j) cs))"
proof -
  obtain u where u: "fst (Rand_Float64 (rng w)) = Fin u" "0 \<le> u" "u \<le> 1 - 1 / 2 ^ 53"
    by (rule Rand_Float64_range)
  have T: "1 \<le> pos_weight cs" using assms(1) by simp
  note r = rnd_fraction [OF u(2,3) T assms(2)]
  obtain j where j: "j < length cs" "weighted_pick (Fin (rnd (u * of_int (pos_weight cs)))) (Fin 0) cs = Some (cs ! j)"
    "0 < Weight (cs ! j)" "of_int (pos_weight (take j cs)) \<le> rnd (u * of_int (pos_weight cs))"
    "rnd (u * of_int (pos_weight cs)) < of_int (pos_weight (take (Suc j) cs))"
    using weighted_pick_interval [of 0 cs "rnd (u * of_int (pos_weight cs))"] assms r by auto
  have "weighted_total cs = pos_weight cs" using assms(2) by (intro weighted_total_exact) simp
  then have "Weighted_Select_with conv (Fin u) cs = Picked (cs ! j)"
    using f64_mul_fraction [OF u(2,3) T assms(2)] assms(1) j(2) by (simp add: Weighted_Select_with_def)
  then have "Weighted_Select conv cs w = (Picked (cs ! j), \<lparr>rng = snd (Rand_Float64 (rng w))\<rparr>)"
    using u(1) j(1) by (auto simp: Weighted_Select_def case_prod_unfold)
  moreover have "u < 1" using u(3) by (rule le_less_trans) simp
  ultimately show ?thesis using u j by blast
qed

theorem Weighted_Select_slice_witness:
  "fst (Weighted_Select (\<lambda>_. 0) [sample_candidate ''a'' 0 0 (Fin 0), sample_candidate ''b'' 0 3 (Fin 0), sample_candidate ''c'' 0 (- 2) (Fin 0)]
     (NewWeighted 1700000000000000000)) = Picked (sample_candidate ''b'' 0 3 (Fin 0))"
  (is "fst (Weighted_Select _ ?cs ?w) = _")
proof -
  have "pos_weight ?cs = 3" by (simp add: pos_weight_def sample_candidate_def)
  then have "0 < pos_weight ?cs" "pos_weight ?cs \<le> 2 ^ 53" by simp_all
  then obtain j where "j < length ?cs" "0 < Weight (?cs ! j)"
    "Weighted_Select (\<lambda>_. 0) ?cs ?w = (Picked (?cs ! j), \<lparr>rng = snd (Rand_Float64 (rng ?w))\<rparr>)"
    using Weighted_Select_slice [of ?cs ?w "\<lambda>_. 0"] by blast
  then show ?thesis by (auto simp: less_Suc_eq sample_candidate_def)
qed

text \<open>
  The cost strategy returns the earliest of the cheapest priced candidates: when some candidate has
  cost data and no estimate is NaN, the pick is priced, no priced candidate is estimated cheaper, every
  earlier priced one is estimated strictly dearer, and the strategy's state does not change; candidates without cost data are
  never picked while a priced one exists.
\<close>

theorem CostOptimized_Select_cheapest:
  assumes "\<exists>c \<in> set cs. priced c" "\<forall>c \<in> set cs. priced c \<longrightarrow> estimateCost c req \<noteq> NaN"
  shows "\<exists>j < length cs. CostOptimized_Select cs req meta s = (Picked (cs ! j), s) \<and> priced (cs ! j) \<and>
    (\<forall>i < length cs. priced (cs ! i) \<longrightarrow> \<not> f64_less (estimateCost (cs ! i) req) (estimateCost (cs ! j) req) \<and>
       (i < j \<longrightarrow> f64_less (estimateCost (cs ! j) req) (estimateCost (cs ! i) req)))"
proof -
  have "scan_best f64_less (cost_key req) 0 None cs \<noteq> None"
    using assms(1) by (auto simp: scan_best_None_iff cost_key_def)
  then obtain j v where jv: "scan_best f64_less (cost_key req) 0 None cs = Some (j, v)" by auto
  have nn: "\<And>c w. c \<in> set cs \<Longrightarrow> cost_key req c = Some w \<Longrightarrow> w \<noteq> NaN"
    using assms(2) by (auto simp: cost_key_def split: if_splits)
  have fm: "first_min f64_rank (cost_key req) cs j v"
    by (rule scan_best_first_min [where P = "\<lambda>v. v \<noteq> NaN", OF _ nn jv]) (simp_all add: f64_less_rank)
  then have j: "j < length cs" "priced (cs ! j)" "v = estimateCost (cs ! j) req"
    by (auto simp: first_min_def cost_key_def split: if_splits)
  have "CostOptimized_Select cs req meta s = (Picked (cs ! j), s)"
    using j(1) jv by (auto simp: CostOptimized_Select_def cost_scan_eq Let_def)
  moreover have "\<not> f64_less (estimateCost (cs ! i) req) v \<and> (i < j \<longrightarrow> f64_less v (estimateCost (cs ! i) req))"
    if i: "i < length cs" "priced (cs ! i)" for i
  proof -
    have k: "cost_key req (cs ! i) = Some (estimateCost (cs ! i) req)" using i(2) by (simp add: cost_key_def)
    moreover have "estimateCost (cs ! i) req \<noteq> NaN" "v \<noteq> NaN" using assms(2) i j by auto
    ultimately show ?thesis using fm i(1) unfolding first_min_def by (simp add: f64_less_rank not_less)
  qed
  ultimately show ?thesis using j by auto
qed

theorem CostOptimized_Select_cheapest_witness:
  "fst (CostOptimized_Select [sample_candidate ''free'' 0 1 (Fin 0), sample_candidate ''paid'' 0 1 (Fin 2)] zeroRequest (sample_meta ''g'')
     NewCostOptimized) = Picked (sample_candidate ''paid'' 0 1 (Fin 2))"
  (is "fst (CostOptimized_Select ?cs _ _ _) = _")
proof -
  have p: "priced (sample_candidate ''paid'' 0 1 (Fin 2))" "\<not> priced (sample_candidate ''free'' 0 1 (Fin 0))"
    by (simp_all add: priced_def sample_candidate_def)
  have "\<bar>256 / 1000 :: rat\<bar> \<le> 2 ^ 1023" by simp
  then have "estimateCost (sample_candidate ''paid'' 0 1 (Fin 2)) zeroRequest = Fin 0"
    by (simp add: estimateCost_def sample_candidate_def zeroRequest_def defaultMaxTokens_def f64_of_int_small f64_round_finite)
  with p obtain j where "j < length ?cs" "priced (?cs ! j)" "fst (CostOptimized_Select ?cs zeroRequest (sample_meta ''g'') NewCostOptimized) = Picked (?cs ! j)"
    using CostOptimized_Select_cheapest [of ?cs zeroRequest "sample_meta ''g''" NewCostOptimized] by fastforce
  with p show ?thesis by (auto simp: less_Suc_eq)
qed

text \<open>
  Without any cost data the cost strategy takes its private round robin's pick and warns at most once for a
  group and model set: the warning is logged exactly when its key has not fired before, and after the
  call the key has fired.
\<close>

theorem CostOptimized_Select_unpriced:
  assumes "cs \<noteq> []" "\<forall>c \<in> set cs. \<not> priced c"
  shows "fst (CostOptimized_Select cs req meta s) = fst (RoundRobin_Select cs meta (costFallback s)) \<and>
    (let s' = snd (CostOptimized_Select cs req meta s); key = warnKey (Group meta) cs in
       costFallback s' = snd (RoundRobin_Select cs meta (costFallback s)) \<and> key \<in> set (warnOnce s') \<and>
       warnLog s' = (if key \<in> set (warnOnce s) then warnLog s else warnLog s @ [(Group meta, map candModel cs)]))"
proof -
  have "scan_best f64_less (cost_key req) 0 None cs = None"
    using assms(2) by (simp add: scan_best_None_iff cost_key_def)
  then show ?thesis using assms(1)
    by (simp add: CostOptimized_Select_def cost_scan_eq Let_def case_prod_unfold warnFor_def)
qed

theorem CostOptimized_Select_unpriced_witness:
  "warnLog (snd (CostOptimized_Select [sample_candidate ''free'' 0 1 (Fin 0)] zeroRequest (sample_meta []) NewCostOptimized)) = [([], [''free''])]"
  using CostOptimized_Select_unpriced [of "[sample_candidate ''free'' 0 1 (Fin 0)]" zeroRequest "sample_meta []" NewCostOptimized]
  by (simp add: priced_def sample_candidate_def NewCostOptimized_def sample_meta_def Let_def)



text \<open>
  The latency strategy returns the earliest of the measured candidates with the lowest moving average; an
  unmeasured candidate never beats a measured one, and only when no candidate is measured is the pick the
  private round robin's.
\<close>

theorem LatencyOptimized_Select_fastest:
  assumes "ewma_inv k s" "cs \<noteq> []" "measured = (\<lambda>c. ewmas s (refName (candProvider c)))"
  shows "((\<forall>c \<in> set cs. measured c = None) \<longrightarrow>
      LatencyOptimized_Select cs meta s = (fst (RoundRobin_Select cs meta (latFallback s)),
        s\<lparr>latFallback := snd (RoundRobin_Select cs meta (latFallback s))\<rparr>)) \<and>
    ((\<exists>c \<in> set cs. measured c \<noteq> None) \<longrightarrow>
      (\<exists>j v. LatencyOptimized_Select cs meta s = (Picked (cs ! j), s) \<and> j < length cs \<and> measured (cs ! j) = Some (Fin v) \<and>
        (\<forall>i < length cs. \<forall>w. measured (cs ! i) = Some (Fin w) \<longrightarrow> v \<le> w \<and> (i < j \<longrightarrow> v < w))))"
proof -
  have key: "latency_key (ewmas s) c = measured c" for c
    using assms(1,3) by (auto simp: latency_key_def ewma_inv_def in_band_def split: option.splits) (metis f64_less.simps(2))
  have fin: "measured c = Some w \<Longrightarrow> \<exists>q. w = Fin q" for c w
    using assms(1,3) by (auto simp: ewma_inv_def in_band_def)
  show ?thesis
  proof (cases "scan_best f64_less (latency_key (ewmas s)) 0 None cs")
    case None
    then have "\<forall>c \<in> set cs. measured c = None" by (simp add: scan_best_None_iff key)
    then show ?thesis using None assms(2)
      by (auto simp: LatencyOptimized_Select_def latency_scan_eq Let_def case_prod_unfold)
  next
    case (Some jv)
    obtain j v where jv: "jv = (j, v)" by (cases jv)
    have fm: "first_min f64_rank (latency_key (ewmas s)) cs j v"
      by (rule scan_best_first_min [where P = "\<lambda>v. v \<noteq> NaN", OF _ _ Some [unfolded jv]])
        (use fin in \<open>auto simp: f64_less_rank key\<close>)
    then have j: "j < length cs" "measured (cs ! j) = Some v" by (simp_all add: first_min_def key)
    then obtain q where q: "v = Fin q" using fin by blast
    have "LatencyOptimized_Select cs meta s = (Picked (cs ! j), s)"
      using Some jv assms(2) by (simp add: LatencyOptimized_Select_def latency_scan_eq)
    moreover have "\<forall>i < length cs. \<forall>w. measured (cs ! i) = Some (Fin w) \<longrightarrow> q \<le> w \<and> (i < j \<longrightarrow> q < w)"
      using fm unfolding first_min_def key q by fastforce
    ultimately show ?thesis using j q by (metis nth_mem option.distinct(1))
  qed
qed

theorem LatencyOptimized_Select_fastest_witness:
  "fst (LatencyOptimized_Select [sample_candidate ''new'' 0 1 (Fin 0), sample_candidate ''slow'' 0 1 (Fin 0)] (sample_meta ''g'')
     \<lparr>latFallback = NewRoundRobin, ewmas = [''slow'' \<mapsto> Fin 30], alpha = Fin 1\<rparr>) = Picked (sample_candidate ''slow'' 0 1 (Fin 0))"
  (is "fst (LatencyOptimized_Select ?cs _ ?s) = _")
proof -
  have "rnd 1 = 1" using rnd_of_int [of 1] by simp
  then have inv: "ewma_inv 5 ?s" by (auto simp: ewma_inv_def alpha_ok_def in_band_def pow2_def split: if_splits)
  have "\<exists>c \<in> set ?cs. ewmas ?s (refName (candProvider c)) \<noteq> None" by (simp add: sample_candidate_def)
  then obtain j v where "LatencyOptimized_Select ?cs (sample_meta ''g'') ?s = (Picked (?cs ! j), ?s)"
    "j < length ?cs" "ewmas ?s (refName (candProvider (?cs ! j))) = Some (Fin v)"
    using LatencyOptimized_Select_fastest [OF inv _ refl, of ?cs "sample_meta ''g''"] by blast
  then show ?thesis by (auto simp: less_Suc_eq sample_candidate_def)
qed

lemma Build_ok: "Build math_Exp now name = Inr s \<Longrightarrow> Strategy_Name s = name \<and> name \<in> strategy_names"
  by (auto simp: Build_def strategy_names_def split: if_splits)

lemma Build_known: "(\<exists>s. Build math_Exp now name = Inr s) \<longleftrightarrow> name \<in> strategy_names"
  by (auto simp: Build_def strategy_names_def)

lemma Build_unknown: "name \<notin> strategy_names \<Longrightarrow> Build math_Exp now name = Inl (UnknownStrategy name)"
  by (auto simp: Build_def strategy_names_def)

lemma Strategy_Name_known: "Strategy_Name s \<in> strategy_names"
  by (cases s) (simp_all add: strategy_names_def)

lemma builder_inv_New [gw_inv]: "builder_inv NewBuilder"
  by (simp add: builder_inv_def NewBuilder_def)

lemma builder_inv_Build [gw_inv]:
  assumes "builder_inv b"
  shows "builder_inv (snd (Builder_Build math_Exp now name b))"
proof (cases "by_name b name")
  case None
  then show ?thesis
  proof (cases "Build math_Exp now name")
    case (Inr s)
    then have "Strategy_Name s = name" by (simp add: Build_ok)
    then show ?thesis using assms None Inr
      by (auto simp: builder_inv_def Builder_Build_def nth_append less_Suc_eq) (metis option.distinct(1))
  qed (use assms None in \<open>simp add: Builder_Build_def\<close>)
qed (use assms in \<open>simp add: Builder_Build_def\<close>)

lemma Builder_Build_result:
  assumes "builder_inv b"
  shows "case Builder_Build math_Exp now name b of (res, b') \<Rightarrow>
    (case res of Inl e \<Rightarrow> name \<notin> strategy_names \<and> e = UnknownStrategy name \<and> b' = b
     | Inr i \<Rightarrow> i < length (instances b') \<and> Strategy_Name (instances b' ! i) = name \<and> by_name b' name = Some i) \<and>
    (\<exists>xs. instances b' = instances b @ xs)"
proof (cases "by_name b name")
  case None
  show ?thesis
  proof (cases "Build math_Exp now name")
    case (Inl e)
    then have "name \<notin> strategy_names" by (metis Build_known sum.distinct(1))
    with Inl None show ?thesis using Build_unknown [of name math_Exp now] by (simp add: Builder_Build_def)
  qed (use None Build_ok in \<open>simp add: Builder_Build_def\<close>)
next
  case (Some i)
  moreover from this assms have "i < length (instances b)" "Strategy_Name (instances b ! i) = name"
    by (simp_all add: builder_inv_def)
  ultimately show ?thesis by (simp add: Builder_Build_def)
qed

text \<open>
  The builder hands out one instance per strategy name: after any sequence of builds no two instances it
  holds have the same name; building a known name (and only a known name) succeeds, gives an instance of
  that name, and building it again gives the same instance and allocates nothing.
\<close>

theorem Builder_one_instance_per_name:
  assumes "b = fold (\<lambda>name b. snd (Builder_Build math_Exp now name b)) names NewBuilder"
    and "Builder_Build math_Exp now' name b = (res, b')"
  shows "distinct (map Strategy_Name (instances b)) \<and>
    (name \<notin> strategy_names \<longrightarrow> res = Inl (UnknownStrategy name) \<and> b' = b) \<and>
    (name \<in> strategy_names \<longrightarrow> (\<exists>i. res = Inr i \<and> Strategy_Name (instances b' ! i) = name \<and>
       Builder_Build math_Exp now'' name b' = (Inr i, b')))"
proof -
  have "builder_inv (fold (\<lambda>name b. snd (Builder_Build math_Exp now name b)) names b0)" if "builder_inv b0" for b0
    using that by (induction names arbitrary: b0) (simp_all add: gw_inv)
  then have inv: "builder_inv b" unfolding assms(1) by (simp add: gw_inv)
  have "distinct (map Strategy_Name (instances b))"
    unfolding distinct_conv_nth using inv by (auto simp: builder_inv_def) (metis option.inject)
  moreover have "name \<in> strategy_names \<Longrightarrow> \<exists>i. res = Inr i"
    using assms(2) Build_known [of math_Exp now' name] by (auto simp: Builder_Build_def split: option.splits sum.splits)
  moreover have "by_name b name = None" if unknown: "name \<notin> strategy_names"
  proof (cases "by_name b name")
    case (Some i)
    then have "Strategy_Name (instances b ! i) = name" using inv by (simp add: builder_inv_def)
    with Strategy_Name_known [of "instances b ! i"] unknown show ?thesis by simp
  qed
  then have "name \<notin> strategy_names \<Longrightarrow> res = Inl (UnknownStrategy name) \<and> b' = b"
    using assms(2) Build_unknown [of name math_Exp now'] by (simp add: Builder_Build_def)
  moreover have "Strategy_Name (instances b' ! i) = name \<and> Builder_Build math_Exp now'' name b' = (Inr i, b')"
    if "res = Inr i" for i
    using Builder_Build_result [OF inv, where math_Exp = math_Exp and now = now' and name = name] assms(2) that by (simp add: Builder_Build_def)
  ultimately show ?thesis by blast
qed

theorem Builder_one_instance_per_name_witness:
  "fst (Builder_Build (\<lambda>_. Fin 1) 7 ''priority'' (snd (Builder_Build (\<lambda>_. Fin 1) 5 ''priority'' NewBuilder))) = Inr 0"
proof -
  have b: "Builder_Build (\<lambda>_. Fin 1) 5 ''priority'' NewBuilder =
      (Inr 0, NewBuilder\<lparr>instances := [StrategyPriority], by_name := [''priority'' \<mapsto> 0]\<rparr>)"
    by (simp add: Builder_Build_def NewBuilder_def Build_def)
  have "''priority'' \<in> strategy_names" by (simp add: strategy_names_def)
  with Builder_one_instance_per_name [where b = NewBuilder and names = "[]", OF _ b, where now'' = 7]
  have "\<exists>i. Inr 0 = (Inr i :: strategy_error + nat) \<and> Builder_Build (\<lambda>_. Fin 1) 7 ''priority'' (snd (Builder_Build (\<lambda>_. Fin 1) 5 ''priority'' NewBuilder)) = (Inr i, snd (Builder_Build (\<lambda>_. Fin 1) 5 ''priority'' NewBuilder))"
    unfolding b by auto
  then show ?thesis by auto
qed

end
