(* ===== verification/Gateway_Config.thy ===== *)
theory Gateway_Config
  imports Chat_Model "HOL-Library.AList"
begin

text \<open>
  \<^verbatim>\<open>internal/config\<close>: the configuration structs, the defaults, the validation and the loading pipeline. The
  koanf library is not part of the repository: what it returns from the YAML file, from the environment
  and from unmarshalling are the arguments of \<open>Load\<close>. A Go map of the configuration is an association list.
\<close>

section \<open>The configuration structs\<close>

record ServerConfig =
  Port :: int
  ReadTimeout :: duration
  WriteTimeout :: duration

record ProviderConfig =
  APIKey :: string
  BaseURL :: string
  Timeout :: duration
  Models :: "string list"
  cfgMaxRetries :: int
  cfgRetryBackoff :: duration

record HealthSection =
  cfgFailureThreshold :: int
  cfgCooldownPeriod :: duration

record LogConfig =
  Level :: string
  Format :: string
  DebugBodies :: bool

record PostgresConfig =
  pgDSN :: string
  AutoMigrate :: bool
  MaxConnections :: int

record DatabaseConfig =
  Postgres :: PostgresConfig
  redisDSN :: string

record AuthConfig =
  authEnabled :: bool
  AdminToken :: string
  CacheTTL :: duration
  CacheSize :: int

record RateLimitConfig =
  rlEnabled :: bool
  DefaultRPM :: int
  DefaultTPM :: int

record MetricsConfig =
  metricsEnabled :: bool
  metricsPort :: int

record CandidateConfig =
  ccProvider :: string
  ccModel :: string
  ccCostIn :: float64
  ccCostOut :: float64
  ccPriority :: int
  ccWeight :: int

record ModelGroupConfig =
  mgStrategy :: string
  mgCandidates :: "CandidateConfig list"

record CandidatePricing =
  cpCostIn :: float64
  cpCostOut :: float64

record RoutingConfig =
  DefaultStrategy :: string
  MaxAttempts :: int
  ModelGroups :: "(string \<times> ModelGroupConfig) list"
  Pricing :: "(string \<times> CandidatePricing) list"

record Config =
  Server :: ServerConfig
  Providers :: "(string \<times> ProviderConfig) list"
  ModelAliases :: "(string \<times> string) list"
  cfgHealth :: HealthSection
  Log :: LogConfig
  Database :: DatabaseConfig
  Auth :: AuthConfig
  RateLimit :: RateLimitConfig
  MetricsCfg :: MetricsConfig
  Routing :: RoutingConfig

section \<open>Loading\<close>

definition or_int :: "int \<Rightarrow> int \<Rightarrow> int" where
  "or_int v d = (if v = 0 then d else v)"

definition or_string :: "string \<Rightarrow> string \<Rightarrow> string" where
  "or_string v d = (if v = [] then d else v)"

definition applyDefaults :: "Config \<Rightarrow> Config" where
  "applyDefaults cfg = cfg
     \<lparr>Server := (Server cfg)\<lparr>Port := or_int (Port (Server cfg)) 8080,
        ReadTimeout := or_int (ReadTimeout (Server cfg)) (30 * nanosPerSecond),
        WriteTimeout := or_int (WriteTimeout (Server cfg)) (120 * nanosPerSecond)\<rparr>,
      Log := (Log cfg)\<lparr>Level := or_string (Level (Log cfg)) ''info'', Format := or_string (Format (Log cfg)) ''json''\<rparr>,
      Database := (Database cfg)\<lparr>Postgres := (Postgres (Database cfg))
        \<lparr>MaxConnections := or_int (MaxConnections (Postgres (Database cfg))) 20\<rparr>\<rparr>,
      Auth := (Auth cfg)\<lparr>CacheTTL := or_int (CacheTTL (Auth cfg)) (5 * 60 * nanosPerSecond),
        CacheSize := or_int (CacheSize (Auth cfg)) 10000\<rparr>,
      RateLimit := (RateLimit cfg)\<lparr>DefaultRPM := or_int (DefaultRPM (RateLimit cfg)) 60,
        DefaultTPM := or_int (DefaultTPM (RateLimit cfg)) 100000\<rparr>,
      MetricsCfg := (MetricsCfg cfg)\<lparr>metricsPort := or_int (metricsPort (MetricsCfg cfg)) 9090\<rparr>,
      Routing := (Routing cfg)\<lparr>DefaultStrategy := or_string (DefaultStrategy (Routing cfg)) ''priority'',
        MaxAttempts := or_int (MaxAttempts (Routing cfg)) 3\<rparr>,
      Providers := map (\<lambda>(name, p). (name, p\<lparr>Timeout := or_int (Timeout p) (30 * nanosPerSecond)\<rparr>)) (Providers cfg)\<rparr>"

definition validate :: "Config \<Rightarrow> go_error option" where
  "validate cfg =
     (if \<not> (\<exists>(name, p) \<in> set (Providers cfg). APIKey p \<noteq> [])
      then Some (ErrText ''at least one provider must be configured with an API key'')
      else if authEnabled (Auth cfg) \<and> pgDSN (Postgres (Database cfg)) = []
      then Some (ErrText ''auth is enabled but database.postgres.dsn is empty (set GATEWAY_DATABASE__POSTGRES__DSN)'')
      else if authEnabled (Auth cfg) \<and> AdminToken (Auth cfg) = []
      then Some (ErrText ''auth is enabled but auth.admin_token is empty (set GATEWAY_AUTH__ADMIN_TOKEN)'')
      else if rlEnabled (RateLimit cfg) \<and> redisDSN (Database cfg) = []
      then Some (ErrText ''rate_limit is enabled but database.redis.dsn is empty (set GATEWAY_DATABASE__REDIS__DSN)'')
      else None)"

text \<open>The key an environment variable sets; the variable names of interest are ASCII.\<close>

fun replace_dunder :: "string \<Rightarrow> string" where
  "replace_dunder [] = []"
| "replace_dunder [c] = [c]"
| "replace_dunder (c # d # s) = (if c = CHR ''_'' \<and> d = CHR ''_'' then CHR ''.'' # replace_dunder s
     else c # replace_dunder (d # s))"

definition env_key :: "string \<Rightarrow> string" where
  "env_key s = replace_dunder (map ascii_lower (TrimPrefix s ''GATEWAY_''))"

datatype file_outcome = FileLoaded | FileNotExist go_error | FileFailed go_error

definition Load :: "file_outcome \<Rightarrow> go_error option \<Rightarrow> (go_error + Config) \<Rightarrow> go_error + Config" where
  "Load file_load env_load unmarshal =
     (case file_load of
        FileFailed err \<Rightarrow> Inl (ErrWrapped ''loading config file: '' err)
      | _ \<Rightarrow> (case env_load of
          Some err \<Rightarrow> Inl (ErrWrapped ''loading env vars: '' err)
        | None \<Rightarrow> (case unmarshal of
            Inl err \<Rightarrow> Inl (ErrWrapped ''unmarshaling config: '' err)
          | Inr cfg \<Rightarrow> (let cfg = applyDefaults cfg in
              case validate cfg of
                Some err \<Rightarrow> Inl (ErrWrapped ''invalid config: '' err)
              | None \<Rightarrow> Inr cfg))))"

text \<open>A minimal configuration for the examples.\<close>

definition sample_config :: Config where
  "sample_config = \<lparr>Server = \<lparr>Port = 0, ReadTimeout = 0, WriteTimeout = 0\<rparr>,
     Providers = [(''openai'', \<lparr>APIKey = ''sk'', BaseURL = [], Timeout = 0, Models = [''gpt-4o''], cfgMaxRetries = 2, cfgRetryBackoff = 0\<rparr>)],
     ModelAliases = [], cfgHealth = \<lparr>cfgFailureThreshold = 3, cfgCooldownPeriod = 0\<rparr>, Log = \<lparr>Level = [], Format = [], DebugBodies = False\<rparr>,
     Database = \<lparr>Postgres = \<lparr>pgDSN = [], AutoMigrate = False, MaxConnections = 0\<rparr>, redisDSN = []\<rparr>,
     Auth = \<lparr>authEnabled = False, AdminToken = [], CacheTTL = 0, CacheSize = 0\<rparr>,
     RateLimit = \<lparr>rlEnabled = False, DefaultRPM = 0, DefaultTPM = 0\<rparr>,
     MetricsCfg = \<lparr>metricsEnabled = False, metricsPort = 0\<rparr>,
     Routing = \<lparr>DefaultStrategy = [], MaxAttempts = 0, ModelGroups = [], Pricing = []\<rparr>\<rparr>"

section \<open>Lemmas\<close>

lemma or_int_idem [simp]: "or_int (or_int v d) d = or_int v d"
  by (simp add: or_int_def)

lemma or_int_nonzero [simp]: "d \<noteq> 0 \<Longrightarrow> or_int v d \<noteq> 0"
  by (simp add: or_int_def)

lemma or_string_idem [simp]: "or_string (or_string v d) d = or_string v d"
  by (simp add: or_string_def)

lemma or_string_nonempty [simp]: "d \<noteq> [] \<Longrightarrow> or_string v d \<noteq> []"
  by (simp add: or_string_def)

lemma applyDefaults_idem: "applyDefaults (applyDefaults cfg) = applyDefaults cfg"
  by (simp add: applyDefaults_def case_prod_unfold comp_def)

lemma Providers_applyDefaults:
  "map_of (Providers (applyDefaults cfg)) name =
     map_option (\<lambda>p. p\<lparr>Timeout := or_int (Timeout p) (30 * nanosPerSecond)\<rparr>) (map_of (Providers cfg) name)"
  by (simp add: applyDefaults_def map_of_map)

section \<open>Properties\<close>



end
