(* ===== verification/Request_Router.thy ===== *)
theory Request_Router
  imports Routing_Strategies Gateway_Config
begin

text \<open>
  \<^verbatim>\<open>internal/router\<close>: validation of the routing section (\<^verbatim>\<open>NewRouter\<close>), expansion of a model name into candidates, the
  in-place health filter and \<^verbatim>\<open>Route\<close>. A \<^verbatim>\<open>Strategy\<close> value is a pointer to a shared instance, so the router holds
  indices into the builder's instances and \<^verbatim>\<open>Route\<close> returns the instances after the selection. Each health check reads
  the clock and the breaker on its own, which \<open>health_view\<close> supplies per loop iteration. \<open>skipWarnOnce\<close> holds the
  keys that have warned and \<open>skipWarns\<close> the warnings logged.
\<close>

section \<open>State\<close>

record defaultRouter =
  registry :: Registry
  groups :: "(string \<times> ModelGroupConfig) list"
  pricing :: "(string \<times> CandidatePricing) list"
  defaultStrategy :: nat
  groupStrategies :: "string \<rightharpoonup> nat"
  skipWarnOnce :: "string list"
  skipWarns :: "(string \<times> string) list"

record Decision =
  decProvider :: string
  decModel :: string
  decStrategy :: string
  decGroup :: string
  ExperimentName :: string
  Variant :: string

datatype router_error =
    RegistryRequired
  | BuilderRequired
  | RouterStrategy strategy_error
  | EmptyProvider string nat
  | EmptyModel string nat
  | ProviderNotConfigured string nat string
  | GroupStrategy string strategy_error

section \<open>Construction\<close>

fun check_candidates :: "(string \<times> ProviderConfig) list \<Rightarrow> string \<Rightarrow> nat \<Rightarrow> CandidateConfig list \<Rightarrow> router_error option" where
  "check_candidates providers groupName i [] = None"
| "check_candidates providers groupName i (c # cs) =
     (if ccProvider c = [] then Some (EmptyProvider groupName i)
      else if ccModel c = [] then Some (EmptyModel groupName i)
      else if map_of providers (ccProvider c) = None then Some (ProviderNotConfigured groupName i (ccProvider c))
      else check_candidates providers groupName (Suc i) cs)"

fun build_groups ::
  "(string \<Rightarrow> 'b \<Rightarrow> (strategy_error + nat) \<times> 'b) \<Rightarrow> (string \<times> ProviderConfig) list \<Rightarrow>
   (string \<times> ModelGroupConfig) list \<Rightarrow> (string \<rightharpoonup> nat) \<Rightarrow> 'b \<Rightarrow> (router_error + (string \<rightharpoonup> nat)) \<times> 'b"
where
  "build_groups build providers [] gs b = (Inr gs, b)"
| "build_groups build providers ((groupName, g) # rest) gs b =
     (case check_candidates providers groupName 0 (mgCandidates g) of
        Some err \<Rightarrow> (Inl err, b)
      | None \<Rightarrow>
          if mgStrategy g \<noteq> [] then
            (case build (mgStrategy g) b of
               (Inl err, b') \<Rightarrow> (Inl (GroupStrategy groupName err), b')
             | (Inr s, b') \<Rightarrow> build_groups build providers rest (gs(groupName \<mapsto> s)) b')
          else build_groups build providers rest gs b)"

definition NewRouter ::
  "Registry option \<Rightarrow> RoutingConfig \<Rightarrow> (string \<times> ProviderConfig) list \<Rightarrow>
   (string \<Rightarrow> 'b \<Rightarrow> (strategy_error + nat) \<times> 'b) option \<Rightarrow> 'b \<Rightarrow> (router_error + defaultRouter) \<times> 'b"
where
  "NewRouter reg cfg providers build b =
     (case reg of None \<Rightarrow> (Inl RegistryRequired, b)
      | Some reg \<Rightarrow> (case build of None \<Rightarrow> (Inl BuilderRequired, b)
        | Some build \<Rightarrow> (case build (DefaultStrategy cfg) b of
             (Inl err, b') \<Rightarrow> (Inl (RouterStrategy err), b')
           | (Inr dflt, b') \<Rightarrow> (case build_groups build providers (ModelGroups cfg) Map.empty b' of
                (Inl err, b'') \<Rightarrow> (Inl err, b'')
              | (Inr gs, b'') \<Rightarrow> (Inr \<lparr>registry = reg, groups = ModelGroups cfg, pricing = Pricing cfg,
                    defaultStrategy = dflt, groupStrategies = gs, skipWarnOnce = [], skipWarns = []\<rparr>, b'')))))"

section \<open>Candidates\<close>

definition warnSkipOnce :: "string \<Rightarrow> string \<Rightarrow> defaultRouter \<Rightarrow> defaultRouter" where
  "warnSkipOnce providerName modelName r =
     (let key = providerName @ [CHR 0x00] @ modelName in
      if key \<in> set (skipWarnOnce r) then r
      else r\<lparr>skipWarnOnce := key # skipWarnOnce r, skipWarns := skipWarns r @ [(providerName, modelName)]\<rparr>)"

definition group_candidate :: "CandidateConfig \<Rightarrow> ProviderRef \<Rightarrow> Candidate" where
  "group_candidate c p = \<lparr>candProvider = p, candModel = ccModel c, CostPer1kInputUSD = ccCostIn c,
     CostPer1kOutputUSD = ccCostOut c, Priority = ccPriority c, Weight = ccWeight c\<rparr>"

fun expandGroup :: "CandidateConfig list \<Rightarrow> defaultRouter \<Rightarrow> Candidate list \<times> defaultRouter" where
  "expandGroup [] r = ([], r)"
| "expandGroup (c # cs) r =
     (case Resolve (registry r) (ccModel c) of
        Inl err \<Rightarrow> expandGroup cs (warnSkipOnce (ccProvider c) (ccModel c) r)
      | Inr p \<Rightarrow> (let (out, r') = expandGroup cs r in (group_candidate c p # out, r')))"

definition resolveCandidates :: "string \<Rightarrow> defaultRouter \<Rightarrow> (go_error + string \<times> Candidate list) \<times> defaultRouter" where
  "resolveCandidates modelName r =
     (case map_of (groups r) modelName of
        Some g \<Rightarrow> (let (cs, r') = expandGroup (mgCandidates g) r in (Inr (modelName, cs), r'))
      | None \<Rightarrow> (case Resolve (registry r) modelName of
          Inl _ \<Rightarrow> (Inl (ErrSentinel ErrUnknownModel), r)
        | Inr p \<Rightarrow>
            (let canonical = CanonicalModel (registry r) modelName;
                 c = \<lparr>candProvider = p, candModel = canonical, CostPer1kInputUSD = Fin 0,
                      CostPer1kOutputUSD = Fin 0, Priority = 0, Weight = 1\<rparr>;
                 c = (case map_of (pricing r) canonical of
                        Some price \<Rightarrow> c\<lparr>CostPer1kInputUSD := cpCostIn price, CostPer1kOutputUSD := cpCostOut price\<rparr>
                      | None \<Rightarrow> c)
             in (Inr ([], [c]), r))))"

text \<open>
  \<^verbatim>\<open>filterHealthy\<close> appends into \<^verbatim>\<open>candidates[:0]\<close>: the writes go to the array the loop is still reading, \<open>n\<close> being the
  length of the output slice and \<open>i\<close> the iteration.
\<close>

type_synonym health_view = "nat \<Rightarrow> instant \<times> health_heap"

definition passes_health :: "health_view \<Rightarrow> nat \<Rightarrow> Candidate \<Rightarrow> bool" where
  "passes_health view i c = (case HealthFor (candProvider c) of
       None \<Rightarrow> True
     | Some h \<Rightarrow> IsHealthy (fst (view i)) (snd (view i) h))"

function filter_in_place :: "health_view \<Rightarrow> Candidate list \<Rightarrow> nat \<Rightarrow> nat \<Rightarrow> Candidate list" where
  "filter_in_place view arr i n =
     (if i < length arr then
        (let c = arr ! i in
         if passes_health view i c then filter_in_place view (arr[n := c]) (Suc i) (Suc n)
         else filter_in_place view arr (Suc i) n)
      else take n arr)"
  by auto

termination
  by (relation "measure (\<lambda>(view, arr, i, n). length arr - i)") auto

declare filter_in_place.simps [simp del]

definition filterHealthy :: "health_view \<Rightarrow> Candidate list \<Rightarrow> Candidate list" where
  "filterHealthy view candidates = filter_in_place view candidates 0 0"

section \<open>Routing\<close>

datatype route_result = Routed ProviderRef Decision | RouteErr go_error | RoutePanic

definition strategy_for :: "defaultRouter \<Rightarrow> string \<Rightarrow> nat" where
  "strategy_for r grp = (if grp \<noteq> [] then (case groupStrategies r grp of Some s \<Rightarrow> s | None \<Rightarrow> defaultStrategy r)
     else defaultStrategy r)"

definition Route ::
  "(float64 \<Rightarrow> int) \<Rightarrow> health_view \<Rightarrow> ChatCompletionRequest option \<Rightarrow> RequestMeta \<Rightarrow> defaultRouter \<Rightarrow> strategy list \<Rightarrow>
   route_result \<times> defaultRouter \<times> strategy list"
where
  "Route conv view req meta r insts =
     (case req of None \<Rightarrow> (RouteErr (ErrText ''router: nil request''), r, insts)
      | Some req \<Rightarrow>
          (case resolveCandidates (reqModel req) r of
             (Inl err, r') \<Rightarrow> (RouteErr err, r', insts)
           | (Inr (grp, candidates), r') \<Rightarrow>
               (let candidates = filterHealthy view candidates in
                if candidates = [] then (RouteErr (ErrSentinel ErrNoHealthyProviders), r', insts)
                else
                  (let s = strategy_for r' grp;
                       (res, st) = Strategy_Select conv candidates req (meta\<lparr>Group := grp\<rparr>) (insts ! s);
                       insts' = insts[s := st] in
                   case res of
                     SelectErr err \<Rightarrow> (RouteErr (ErrWrapped (''router: strategy '' @ [CHR 0x22] @ Strategy_Name (insts ! s) @ [CHR 0x22] @ '': '') err), r', insts')
                   | SelectPanic \<Rightarrow> (RoutePanic, r', insts')
                   | Picked picked \<Rightarrow>
                       (Routed (candProvider picked)
                          \<lparr>decProvider = refName (candProvider picked), decModel = candModel picked,
                           decStrategy = Strategy_Name (insts ! s), decGroup = grp, ExperimentName = [], Variant = []\<rparr>, r', insts')))))"

section \<open>Specification vocabulary\<close>

definition router_inv :: "defaultRouter \<Rightarrow> strategy list \<Rightarrow> bool" where
  "router_inv r insts \<longleftrightarrow> defaultStrategy r < length insts \<and>
     (\<forall>g s. groupStrategies r g = Some s \<longrightarrow> s < length insts) \<and>
     (\<forall>g m. map_of (groups r) g = Some m \<longrightarrow> length (mgCandidates m) \<le> 2 ^ 53)"

definition resolvable :: "Registry \<Rightarrow> CandidateConfig list \<Rightarrow> CandidateConfig list" where
  "resolvable reg cs = filter (\<lambda>c. \<exists>p. Resolve reg (ccModel c) = Inr p) cs"

definition candidate_valid :: "(string \<times> ProviderConfig) list \<Rightarrow> CandidateConfig \<Rightarrow> bool" where
  "candidate_valid providers c \<longleftrightarrow> ccProvider c \<noteq> [] \<and> ccModel c \<noteq> [] \<and> map_of providers (ccProvider c) \<noteq> None"

definition groups_valid :: "(string \<times> ProviderConfig) list \<Rightarrow> (string \<times> ModelGroupConfig) list \<Rightarrow> bool" where
  "groups_valid providers gs \<longleftrightarrow> (\<forall>(n, g) \<in> set gs.
     (\<forall>c \<in> set (mgCandidates g). candidate_valid providers c) \<and> (mgStrategy g = [] \<or> mgStrategy g \<in> strategy_names))"

definition named_in :: "strategy list \<Rightarrow> nat \<Rightarrow> string \<Rightarrow> bool" where
  "named_in insts i name \<longleftrightarrow> i < length insts \<and> Strategy_Name (insts ! i) = name"

text \<open>A one-model router with an alias, for the examples.\<close>

definition sample_registry :: Registry where
  "sample_registry = \<lparr>models = [(''gpt-4o'', \<lparr>refName = ''openai'', refHealth = None\<rparr>), (''gpt'', \<lparr>refName = ''openai'', refHealth = None\<rparr>)],
     aliases = [(''gpt'', ''gpt-4o'')]\<rparr>"

definition sample_router :: defaultRouter where
  "sample_router = \<lparr>registry = sample_registry, groups = [], pricing = [], defaultStrategy = 0,
     groupStrategies = Map.empty, skipWarnOnce = [], skipWarns = []\<rparr>"

definition sample_view :: health_view where
  "sample_view = (\<lambda>_. (0, \<lambda>_. NewProviderHealth \<lparr>FailureThreshold = 1, CooldownPeriod = 1\<rparr>))"

section \<open>The in-place filter\<close>

lemma filter_in_place_spec:
  "n \<le> i \<Longrightarrow> i \<le> length arr \<Longrightarrow>
   filter_in_place view arr i n = take n arr @ map snd (filter (\<lambda>(j, c). passes_health view j c) (zip [i..<length arr] (drop i arr)))"
proof (induction view arr i n rule: filter_in_place.induct)
  case (1 view arr i n)
  show ?case
  proof (cases "i < length arr")
    case False
    with 1 show ?thesis by (subst filter_in_place.simps) simp
  next
    case True
    let ?c = "arr ! i"
    have zip: "zip [i..<length arr] (drop i arr) = (i, ?c) # zip [Suc i..<length arr] (drop (Suc i) arr)"
      using True by (simp add: upt_conv_Cons Cons_nth_drop_Suc [symmetric])
    show ?thesis
    proof (cases "passes_health view i ?c")
      case pass: True
      have "take (Suc n) (arr[n := ?c]) = take n arr @ [?c]"
        using True 1(3) by (simp add: take_Suc_conv_app_nth)
      moreover have "drop (Suc i) (arr[n := ?c]) = drop (Suc i) arr" using 1(3) by simp
      ultimately show ?thesis
        using 1(1) [OF True refl pass] True pass 1(3)
        by (subst filter_in_place.simps) (simp add: zip)
    next
      case False
      then show ?thesis using 1(2) [OF True refl False] True 1(3)
        by (subst filter_in_place.simps) (simp add: zip)
    qed
  qed
qed

lemma filterHealthy_filter:
  "filterHealthy view cs = map snd (filter (\<lambda>(j, c). passes_health view j c) (zip [0..<length cs] cs))"
  using filter_in_place_spec [of 0 0 cs view] by (simp add: filterHealthy_def)

lemma length_filterHealthy: "length (filterHealthy view cs) \<le> length cs"
  unfolding filterHealthy_filter by (simp add: order_trans [OF length_filter_le])

lemma set_filterHealthy: "set (filterHealthy view cs) = {cs ! i | i. i < length cs \<and> passes_health view i (cs ! i)}"
  unfolding filterHealthy_filter by (force simp: set_zip image_iff)

lemma filterHealthy_empty: "filterHealthy view cs = [] \<longleftrightarrow> (\<forall>i < length cs. \<not> passes_health view i (cs ! i))"
proof -
  have "filterHealthy view cs = [] \<longleftrightarrow> set (filterHealthy view cs) = {}" by simp
  then show ?thesis unfolding set_filterHealthy by blast
qed

section \<open>Candidate resolution\<close>

lemma warnSkipOnce_frame [gw_frame]:
  "registry (warnSkipOnce p m r) = registry r" "groups (warnSkipOnce p m r) = groups r"
  "pricing (warnSkipOnce p m r) = pricing r" "defaultStrategy (warnSkipOnce p m r) = defaultStrategy r"
  "groupStrategies (warnSkipOnce p m r) = groupStrategies r"
  by (simp_all add: warnSkipOnce_def Let_def)

lemma expandGroup_frame [gw_frame]:
  "registry (snd (expandGroup cs r)) = registry r" "groups (snd (expandGroup cs r)) = groups r"
  "pricing (snd (expandGroup cs r)) = pricing r" "defaultStrategy (snd (expandGroup cs r)) = defaultStrategy r"
  "groupStrategies (snd (expandGroup cs r)) = groupStrategies r"
  by (induction cs r rule: expandGroup.induct) (auto simp: gw_frame case_prod_unfold Let_def split: sum.splits)

lemma resolveCandidates_frame [gw_frame]:
  "registry (snd (resolveCandidates m r)) = registry r" "groups (snd (resolveCandidates m r)) = groups r"
  "pricing (snd (resolveCandidates m r)) = pricing r" "defaultStrategy (snd (resolveCandidates m r)) = defaultStrategy r"
  "groupStrategies (snd (resolveCandidates m r)) = groupStrategies r"
  by (simp_all add: resolveCandidates_def gw_frame case_prod_unfold Let_def split: sum.splits option.splits)

lemma fst_expandGroup:
  "fst (expandGroup cs r) =
     map (\<lambda>c. group_candidate c (projr (Resolve (registry r) (ccModel c)))) (resolvable (registry r) cs)"
  by (induction cs r rule: expandGroup.induct)
    (auto simp: resolvable_def gw_frame case_prod_unfold Let_def split: sum.splits)

lemma expandGroup_member:
  assumes "c \<in> set (fst (expandGroup cs r))"
  shows "\<exists>cc \<in> set cs. candModel c = ccModel cc \<and> Resolve (registry r) (candModel c) = Inr (candProvider c)"
  using assms by (auto simp: fst_expandGroup resolvable_def group_candidate_def)

lemma resolveCandidates_unknown:
  "(\<exists>e. fst (resolveCandidates m r) = Inl e) \<longleftrightarrow> map_of (groups r) m = None \<and> (\<exists>e. Resolve (registry r) m = Inl e)"
  by (auto simp: resolveCandidates_def case_prod_unfold Let_def split: sum.splits option.splits)

lemma resolveCandidates_group:
  "map_of (groups r) m = Some g \<Longrightarrow> fst (resolveCandidates m r) = Inr (m, fst (expandGroup (mgCandidates g) r))"
  by (simp add: resolveCandidates_def case_prod_unfold Let_def)

lemma resolveCandidates_concrete:
  assumes "map_of (groups r) m = None" "Resolve (registry r) m = Inr p"
  obtains c where "fst (resolveCandidates m r) = Inr ([], [c])" "candProvider c = p"
    "candModel c = CanonicalModel (registry r) m"
  using assms that by (simp add: resolveCandidates_def Let_def split: option.splits)

lemma resolveCandidates_length:
  assumes "router_inv r insts" "fst (resolveCandidates m r) = Inr (g, cs)"
  shows "length cs \<le> 2 ^ 53"
proof (cases "map_of (groups r) m")
  case None
  with assms(2) show ?thesis by (auto simp: resolveCandidates_def Let_def split: sum.splits)
next
  case (Some mg)
  then have "length (mgCandidates mg) \<le> 2 ^ 53" using assms(1) by (auto simp: router_inv_def)
  moreover have "length cs \<le> length (mgCandidates mg)"
    using assms(2) Some by (auto simp: resolveCandidates_group fst_expandGroup resolvable_def)
  ultimately show ?thesis by (rule order_trans [rotated])
qed

lemma strategy_for_frame [gw_frame]: "strategy_for (snd (resolveCandidates m r)) g = strategy_for r g"
  by (simp add: strategy_for_def gw_frame cong: option.case_cong)

lemma strategy_for_bound: "router_inv r insts \<Longrightarrow> strategy_for r g < length insts"
  by (simp add: strategy_for_def router_inv_def split: option.splits)

lemma Route_cases:
  assumes "router_inv r insts"
  obtains (unknown) "fst (resolveCandidates (reqModel req) r) = Inl (ErrSentinel ErrUnknownModel)"
      "Route conv view (Some req) meta r insts = (RouteErr (ErrSentinel ErrUnknownModel), snd (resolveCandidates (reqModel req) r), insts)"
  | (down) g cs where "fst (resolveCandidates (reqModel req) r) = Inr (g, cs)" "\<forall>i < length cs. \<not> passes_health view i (cs ! i)"
      "Route conv view (Some req) meta r insts = (RouteErr (ErrSentinel ErrNoHealthyProviders), snd (resolveCandidates (reqModel req) r), insts)"
  | (picked) g cs i st where "fst (resolveCandidates (reqModel req) r) = Inr (g, cs)" "i < length cs" "passes_health view i (cs ! i)"
      "Strategy_Name st = Strategy_Name (insts ! strategy_for r g)"
      "Route conv view (Some req) meta r insts = (Routed (candProvider (cs ! i))
         \<lparr>decProvider = refName (candProvider (cs ! i)), decModel = candModel (cs ! i),
          decStrategy = Strategy_Name (insts ! strategy_for r g), decGroup = g, ExperimentName = [], Variant = []\<rparr>,
         snd (resolveCandidates (reqModel req) r), insts[strategy_for r g := st])"
proof (cases "fst (resolveCandidates (reqModel req) r)")
  case (Inl e)
  then have "e = ErrSentinel ErrUnknownModel"
    by (auto simp: resolveCandidates_def case_prod_unfold Let_def split: sum.splits option.splits)
  with Inl unknown show ?thesis by (simp add: Route_def case_prod_unfold)
next
  case (Inr gc)
  obtain g cs where gc: "gc = (g, cs)" by (cases gc)
  let ?h = "filterHealthy view cs" and ?s = "strategy_for r g"
  show ?thesis
  proof (cases "?h = []")
    case True
    then show ?thesis using down [of g cs] Inr gc by (simp add: Route_def case_prod_unfold filterHealthy_empty)
  next
    case False
    have "length ?h \<le> 2 ^ 53"
      using length_filterHealthy [of view cs] resolveCandidates_length [OF assms, of "reqModel req" g cs] Inr gc by simp
    then obtain c where c: "c \<in> set ?h" "fst (Strategy_Select conv ?h req (meta\<lparr>Group := g\<rparr>) (insts ! ?s)) = Picked c"
      using strategies.sel_member [OF False] by blast
    then obtain i where "i < length cs" "passes_health view i (cs ! i)" "c = cs ! i"
      by (auto simp: set_filterHealthy)
    then show ?thesis
      using picked [of g cs i "snd (Strategy_Select conv ?h req (meta\<lparr>Group := g\<rparr>) (insts ! ?s))"] Inr gc False c(2)
        strategies.sel_name
      by (simp add: Route_def case_prod_unfold Let_def gw_frame)
  qed
qed

section \<open>Construction\<close>

lemma check_candidates_None:
  "check_candidates providers g i cs = None \<longleftrightarrow> (\<forall>c \<in> set cs. candidate_valid providers c)"
  by (induction providers g i cs rule: check_candidates.induct) (auto simp: candidate_valid_def)

lemma Builder_Build_known:
  assumes "builder_inv b" "name \<in> strategy_names"
  obtains i b' where "Builder_Build math_Exp now name b = (Inr i, b')" "builder_inv b'" "i < length (instances b')"
    "Strategy_Name (instances b' ! i) = name" "\<exists>xs. instances b' = instances b @ xs"
proof -
  obtain res b' where r: "Builder_Build math_Exp now name b = (res, b')" by fastforce
  note spec = Builder_Build_result [OF assms(1), where math_Exp = math_Exp and now = now and name = name, unfolded r]
  have inv: "builder_inv b'" using builder_inv_Build [OF assms(1), of math_Exp now name] r by simp
  show ?thesis
  proof (cases res)
    case (Inl e)
    with spec assms(2) show ?thesis by simp
  next
    case (Inr i)
    with spec r inv that show ?thesis by simp
  qed
qed

lemma Builder_Build_unknown:
  assumes "builder_inv b" "name \<notin> strategy_names"
  shows "Builder_Build math_Exp now name b = (Inl (UnknownStrategy name), b)"
proof -
  have "by_name b name = None"
  proof (cases "by_name b name")
    case (Some i)
    with assms Strategy_Name_known [of "instances b ! i"] show ?thesis by (auto simp: builder_inv_def)
  qed
  with Build_unknown [OF assms(2)] show ?thesis by (simp add: Builder_Build_def)
qed

lemma named_in_append: "named_in xs i n \<Longrightarrow> named_in (xs @ ys) i n"
  by (simp add: named_in_def nth_append)

lemma build_groups_ok:
  assumes "builder_inv b" "groups_valid providers gs" "distinct (map fst gs)" "dom acc \<inter> fst ` set gs = {}"
    and "\<forall>g i. acc g = Some i \<longrightarrow> named_in (instances b) i (nm g)"
    and "\<forall>(g, mg) \<in> set gs. mgStrategy mg \<noteq> [] \<longrightarrow> nm g = mgStrategy mg"
  shows "\<exists>m b' xs. build_groups (Builder_Build math_Exp now) providers gs acc b = (Inr m, b') \<and>
    instances b' = instances b @ xs \<and> dom m = dom acc \<union> {g. \<exists>mg. (g, mg) \<in> set gs \<and> mgStrategy mg \<noteq> []} \<and>
    (\<forall>g i. m g = Some i \<longrightarrow> named_in (instances b') i (nm g))"
  using assms
proof (induction gs arbitrary: acc b)
  case (Cons gm gs)
  obtain g mg where gm: "gm = (g, mg)" by (cases gm)
  have cc: "check_candidates providers g 0 (mgCandidates mg) = None"
    using Cons.prems(2) gm by (auto simp: check_candidates_None groups_valid_def)
  have rest: "groups_valid providers gs" "distinct (map fst gs)" "\<forall>(g, mg) \<in> set gs. mgStrategy mg \<noteq> [] \<longrightarrow> nm g = mgStrategy mg"
    using Cons.prems(2,3,6) by (auto simp: groups_valid_def)
  show ?case
  proof (cases "mgStrategy mg = []")
    case True
    have "dom acc \<inter> fst ` set gs = {}" using Cons.prems(4) by auto
    from Cons.IH [OF Cons.prems(1) rest(1,2) this Cons.prems(5) rest(3)]
    show ?thesis using cc True gm by auto
  next
    case False
    then have "mgStrategy mg \<in> strategy_names" using Cons.prems(2) gm by (auto simp: groups_valid_def)
    with Cons.prems(1) obtain i b' xs where b: "Builder_Build math_Exp now (mgStrategy mg) b = (Inr i, b')" "builder_inv b'"
      "i < length (instances b')" "Strategy_Name (instances b' ! i) = mgStrategy mg" "instances b' = instances b @ xs"
      by (metis Builder_Build_known)
    let ?acc = "acc(g \<mapsto> i)"
    have "dom ?acc \<inter> fst ` set gs = {}" using Cons.prems(3,4) gm by auto
    moreover have "\<forall>h j. ?acc h = Some j \<longrightarrow> named_in (instances b') j (nm h)"
    proof (intro allI impI)
      fix h j assume hj: "?acc h = Some j"
      show "named_in (instances b') j (nm h)"
      proof (cases "h = g")
        case True
        then show ?thesis using hj b(3,4) Cons.prems(6) gm False by (auto simp: named_in_def)
      next
        case False
        then have "named_in (instances b) j (nm h)" using hj Cons.prems(5) by simp
        then show ?thesis unfolding b(5) by (rule named_in_append)
      qed
    qed
    ultimately obtain m b'' ys where "build_groups (Builder_Build math_Exp now) providers gs ?acc b' = (Inr m, b'')"
      "instances b'' = instances b' @ ys" "dom m = dom ?acc \<union> {g. \<exists>mg. (g, mg) \<in> set gs \<and> mgStrategy mg \<noteq> []}"
      "\<forall>g i. m g = Some i \<longrightarrow> named_in (instances b'') i (nm g)"
      using Cons.IH [OF b(2) rest(1,2) _ _ rest(3)] by blast
    then show ?thesis using cc False gm b by auto
  qed
qed simp

lemma build_groups_bad:
  assumes "builder_inv b" "\<not> groups_valid providers gs"
  shows "\<exists>e b'. build_groups (Builder_Build math_Exp now) providers gs acc b = (Inl e, b')"
  using assms
proof (induction gs arbitrary: acc b)
  case (Cons gm gs)
  obtain g mg where gm: "gm = (g, mg)" by (cases gm)
  show ?case
  proof (cases "\<forall>c \<in> set (mgCandidates mg). candidate_valid providers c")
    case False
    then have "check_candidates providers g 0 (mgCandidates mg) \<noteq> None" by (simp add: check_candidates_None)
    then show ?thesis using gm by auto
  next
    case True
    then have cc: "check_candidates providers g 0 (mgCandidates mg) = None" by (simp add: check_candidates_None)
    show ?thesis
    proof (cases "mgStrategy mg = [] \<or> mgStrategy mg \<in> strategy_names")
      case False
      with cc gm Cons.prems(1) show ?thesis by (simp add: Builder_Build_unknown)
    next
      case ok: True
      with True Cons.prems(2) gm have bad: "\<not> groups_valid providers gs" by (auto simp: groups_valid_def)
      show ?thesis
      proof (cases "mgStrategy mg = []")
        case True
        with Cons.IH [OF Cons.prems(1) bad] cc gm show ?thesis by simp
      next
        case False
        then have "mgStrategy mg \<in> strategy_names" using ok by simp
        with Cons.prems(1) obtain i b' where "Builder_Build math_Exp now (mgStrategy mg) b = (Inr i, b')" "builder_inv b'"
          by (metis Builder_Build_known)
        with Cons.IH [OF _ bad] cc gm False show ?thesis by simp
      qed
    qed
  qed
qed (simp add: groups_valid_def)

section \<open>Properties\<close>

text \<open>
  The in-place compaction of the health filter is a filter: although the loop writes into the array it is reading, the
  result is exactly the candidates whose check passed, in their order.
\<close>

theorem filterHealthy_exact:
  "filterHealthy view cs = map snd (filter (\<lambda>(i, c). passes_health view i c) (zip [0..<length cs] cs))"
  by (rule filterHealthy_filter)

text \<open>
  C29. Router construction accepts exactly the valid routing sections: with the production builder it succeeds if and
  only if the default strategy is one of the five known names and every group has candidates with a non-empty model and a
  configured provider, and an override that is empty or a known name. On success every index is valid, each group is
  routed by an instance of its override (or of the default strategy), and other models by the default.
\<close>

theorem NewRouter_accepts_valid:
  assumes "distinct (map fst (ModelGroups cfg))"
  shows "(case NewRouter (Some reg) cfg providers (Some (Builder_Build math_Exp now)) NewBuilder of (res, b) \<Rightarrow>
    ((\<exists>r. res = Inr r) \<longleftrightarrow> DefaultStrategy cfg \<in> strategy_names \<and> groups_valid providers (ModelGroups cfg)) \<and>
    (\<forall>r. res = Inr r \<longrightarrow> registry r = reg \<and> groups r = ModelGroups cfg \<and>
       named_in (instances b) (strategy_for r []) (DefaultStrategy cfg) \<and>
       (\<forall>(g, mg) \<in> set (ModelGroups cfg). g \<noteq> [] \<longrightarrow>
          named_in (instances b) (strategy_for r g) (if mgStrategy mg = [] then DefaultStrategy cfg else mgStrategy mg))))"
proof (cases "DefaultStrategy cfg \<in> strategy_names")
  case False
  then show ?thesis by (simp add: NewRouter_def Builder_Build_unknown gw_inv)
next
  case True
  obtain d b where d: "Builder_Build math_Exp now (DefaultStrategy cfg) NewBuilder = (Inr d, b)" "builder_inv b"
    "named_in (instances b) d (DefaultStrategy cfg)"
    by (rule Builder_Build_known [OF builder_inv_New True, of math_Exp now]) (simp add: named_in_def)
  show ?thesis
  proof (cases "groups_valid providers (ModelGroups cfg)")
    case False
    from build_groups_bad [OF d(2) this, of math_Exp now Map.empty] show ?thesis
      using False d by (auto simp: NewRouter_def)
  next
    case valid: True
    define nm where "nm g = (case map_of (ModelGroups cfg) g of Some mg \<Rightarrow> mgStrategy mg | None \<Rightarrow> [])" for g
    have nm: "\<forall>(g, mg) \<in> set (ModelGroups cfg). mgStrategy mg \<noteq> [] \<longrightarrow> nm g = mgStrategy mg"
      using assms by (auto simp: nm_def)
    obtain m b' xs where m: "build_groups (Builder_Build math_Exp now) providers (ModelGroups cfg) Map.empty b = (Inr m, b')"
      "instances b' = instances b @ xs" "dom m = {g. \<exists>mg. (g, mg) \<in> set (ModelGroups cfg) \<and> mgStrategy mg \<noteq> []}"
      "\<forall>g i. m g = Some i \<longrightarrow> named_in (instances b') i (nm g)"
      using build_groups_ok [OF d(2) valid assms, of Map.empty nm math_Exp now] nm by auto
    have dn: "named_in (instances b') d (DefaultStrategy cfg)" using d(3) by (simp add: m(2) named_in_append)
    have grp: "named_in (instances b') (case m g of Some s \<Rightarrow> s | None \<Rightarrow> d) (if mgStrategy mg = [] then DefaultStrategy cfg else mgStrategy mg)"
      if g: "(g, mg) \<in> set (ModelGroups cfg)" for g mg
    proof (cases "mgStrategy mg = []")
      case True
      have "m g = None"
      proof (rule ccontr)
        assume "m g \<noteq> None"
        then obtain mg' where "(g, mg') \<in> set (ModelGroups cfg)" "mgStrategy mg' \<noteq> []" using m(3) by blast
        with g True assms show False by (metis eq_key_imp_eq_value)
      qed
      with True dn show ?thesis by simp
    next
      case False
      then obtain i where i: "m g = Some i" using g m(3) by blast
      then have "named_in (instances b') i (nm g)" using m(4) by blast
      moreover have "nm g = mgStrategy mg" using nm g False by blast
      ultimately show ?thesis using False i by simp
    qed
    define r where "r = \<lparr>registry = reg, groups = ModelGroups cfg, pricing = Pricing cfg,
        defaultStrategy = d, groupStrategies = m, skipWarnOnce = [], skipWarns = []\<rparr>"
    have "NewRouter (Some reg) cfg providers (Some (Builder_Build math_Exp now)) NewBuilder = (Inr r, b')"
      using d(1) m(1) by (simp add: NewRouter_def r_def)
    moreover have "strategy_for r [] = d" by (simp add: strategy_for_def r_def)
    moreover have "\<forall>(g, mg) \<in> set (ModelGroups cfg). g \<noteq> [] \<longrightarrow>
        named_in (instances b') (strategy_for r g) (if mgStrategy mg = [] then DefaultStrategy cfg else mgStrategy mg)"
    proof (intro ballI, clarify)
      fix g mg assume g: "(g, mg) \<in> set (ModelGroups cfg)" "g \<noteq> []"
      then have "strategy_for r g = (case m g of Some s \<Rightarrow> s | None \<Rightarrow> d)"
        by (simp add: strategy_for_def r_def cong: option.case_cong)
      with grp [OF g(1)] show "named_in (instances b') (strategy_for r g)
          (if mgStrategy mg = [] then DefaultStrategy cfg else mgStrategy mg)" by (simp only:)
    qed
    moreover have "registry r = reg" "groups r = ModelGroups cfg" by (simp_all add: r_def)
    ultimately show ?thesis using True valid dn by simp
  qed
qed

theorem NewRouter_accepts_valid_witness:
  "\<exists>r. fst (NewRouter (Some NewRegistry)
      \<lparr>DefaultStrategy = ''priority'', MaxAttempts = 3, ModelGroups = [(''fast'', \<lparr>mgStrategy = ''round_robin'', mgCandidates = []\<rparr>)], Pricing = []\<rparr>
      [] (Some (Builder_Build (\<lambda>_. Fin 1) 0)) NewBuilder) = Inr r"
  (is "\<exists>r. fst (NewRouter _ ?cfg _ _ _) = Inr r")
proof -
  have "distinct (map fst (ModelGroups ?cfg))" by simp
  moreover have "DefaultStrategy ?cfg \<in> strategy_names" "groups_valid [] (ModelGroups ?cfg)"
    by (simp_all add: groups_valid_def strategy_names_def)
  ultimately show ?thesis
    using NewRouter_accepts_valid [of ?cfg, where reg = NewRegistry and providers = "[]" and math_Exp = "\<lambda>_. Fin 1" and now = 0] by (simp add: case_prod_unfold)
qed

text \<open>
  C15. Routing a request has exactly three outcomes, and the code takes the right one: \<^verbatim>\<open>ErrUnknownModel\<close> when the
  model is neither a group nor registered; \<^verbatim>\<open>ErrNoHealthyProviders\<close> when every candidate's breaker check
  fails; otherwise a candidate whose check passed, reported with its provider, its model, the group and the name of
  the strategy configured for it. No strategy error and no panic can surface, and the router keeps its invariant.
\<close>

theorem Route_outcomes:
  assumes "router_inv r insts" "Route conv view (Some req) meta r insts = (res, r', insts')"
  shows "router_inv r' insts' \<and> map Strategy_Name insts' = map Strategy_Name insts \<and>
    (case fst (resolveCandidates (reqModel req) r) of
       Inl e \<Rightarrow> res = RouteErr (ErrSentinel ErrUnknownModel) \<and> map_of (groups r) (reqModel req) = None \<and> map_of (models (registry r)) (reqModel req) = None
     | Inr (g, cs) \<Rightarrow>
        if \<forall>i < length cs. \<not> passes_health view i (cs ! i) then res = RouteErr (ErrSentinel ErrNoHealthyProviders)
        else \<exists>i < length cs. passes_health view i (cs ! i) \<and> res = Routed (candProvider (cs ! i))
          \<lparr>decProvider = refName (candProvider (cs ! i)), decModel = candModel (cs ! i),
           decStrategy = Strategy_Name (insts ! strategy_for r g), decGroup = g, ExperimentName = [], Variant = []\<rparr>)"
proof -
  have keep: "router_inv (snd (resolveCandidates (reqModel req) r)) insts''" if "length insts'' = length insts" for insts''
    using assms(1) that by (simp add: router_inv_def gw_frame)
  from assms(1) show ?thesis
  proof (cases rule: Route_cases [where req = req and conv = conv and view = view and meta = meta])
    case unknown
    then have "\<exists>e. fst (resolveCandidates (reqModel req) r) = Inl e" by blast
    then have "map_of (groups r) (reqModel req) = None \<and> map_of (models (registry r)) (reqModel req) = None"
      unfolding resolveCandidates_unknown Resolve_Inl .
    with unknown assms(2) keep show ?thesis by auto
  next
    case (down g cs)
    with assms(2) keep show ?thesis by auto
  next
    case (picked g cs i st)
    have "map Strategy_Name (insts[strategy_for r g := st]) = map Strategy_Name insts"
      using picked(4) by (simp add: map_update list_update_same_conv [THEN iffD2] strategy_for_bound [OF assms(1)])
    with picked assms(2) keep show ?thesis by auto
  qed
qed

theorem Route_outcomes_witness:
  "fst (Route (\<lambda>_. 0) sample_view (Some zeroRequest) (sample_meta []) sample_router [StrategyPriority]) = RouteErr (ErrSentinel ErrUnknownModel)"
  (is "fst (Route ?conv ?view _ ?meta ?r ?insts) = _")
proof -
  have inv: "router_inv ?r ?insts" by (simp add: router_inv_def sample_router_def)
  obtain res r' insts' where "Route ?conv ?view (Some zeroRequest) ?meta ?r ?insts = (res, r', insts')" by (metis prod_cases3)
  moreover from Route_outcomes [OF inv this] have "res = RouteErr (ErrSentinel ErrUnknownModel)"
    by (simp add: resolveCandidates_def Resolve_def sample_router_def sample_registry_def zeroRequest_def)
  ultimately show ?thesis by simp
qed



end
