(* ===== verification/Key_Store.thy ===== *)
theory Key_Store
  imports Chat_Model
begin

text \<open>
  \<^verbatim>\<open>internal/store\<close>: the API-key table and the queries on it, the mapping of database errors, the organization lookup and the
  DSN rewriting for migrations. Each query is written over the rows of its table as its SQL text says. Postgres itself is not part of the
  repository: a failure of a round trip is the argument \<open>fault\<close>, the value \<^verbatim>\<open>gen_random_uuid()\<close> draws is an argument,
  and \<open>uuid_of\<close> is how the server reads a text bound to a UUID column, \<open>None\<close> standing for SQLSTATE 22P02.
\<close>

section \<open>Rows and errors\<close>

record APIKey =
  akID :: string
  KeyHash :: string
  KeyPrefix :: string
  akOrgID :: string
  akName :: string
  akScopes :: "string list"
  RateLimitRPM :: int
  RateLimitTPM :: int
  IsActive :: bool
  CreatedAt :: instant
  akExpiresAt :: "instant option"
  LastUsedAt :: "instant option"

record NewKey =
  nkOrgID :: string
  nkName :: string
  nkRPM :: int
  nkTPM :: int
  nkExpiresAt :: "instant option"

datatype pg_error = PgCode string | PgConn string

fun pg_go_error :: "pg_error \<Rightarrow> go_error" where
  "pg_go_error (PgCode code) = ErrText (''SQLSTATE '' @ code)"
| "pg_go_error (PgConn msg) = ErrText msg"

definition mapPgError :: "pg_error \<Rightarrow> go_error" where
  "mapPgError err = (case err of PgCode code \<Rightarrow> if code = ''22P02'' then ErrSentinel ErrNotFound else pg_go_error err
     | PgConn _ \<Rightarrow> pg_go_error err)"

section \<open>Queries\<close>

definition unexpired :: "instant \<Rightarrow> APIKey \<Rightarrow> bool" where
  "unexpired now k = (case akExpiresAt k of None \<Rightarrow> True | Some e \<Rightarrow> now < e)"

definition GetByHash :: "instant \<Rightarrow> pg_error option \<Rightarrow> string \<Rightarrow> APIKey list \<Rightarrow> go_error + APIKey" where
  "GetByHash now fault hashHex rows =
     (case fault of
        Some err \<Rightarrow> Inl (ErrWrapped ''scanning api_key: '' (pg_go_error err))
      | None \<Rightarrow> (case find (\<lambda>k. KeyHash k = hashHex \<and> IsActive k \<and> unexpired now k) rows of
          None \<Rightarrow> Inl (ErrSentinel ErrNotFound)
        | Some k \<Rightarrow> Inr k))"

definition key_row :: "string \<Rightarrow> instant \<Rightarrow> NewKey \<Rightarrow> string \<Rightarrow> string \<Rightarrow> APIKey" where
  "key_row newid now k hashHex prefix = \<lparr>akID = newid, KeyHash = hashHex, KeyPrefix = prefix, akOrgID = nkOrgID k, akName = nkName k,
     akScopes = [], RateLimitRPM = nkRPM k, RateLimitTPM = nkTPM k, IsActive = True, CreatedAt = now,
     akExpiresAt = nkExpiresAt k, LastUsedAt = None\<rparr>"

definition Create_row ::
  "string \<Rightarrow> instant \<Rightarrow> pg_error option \<Rightarrow> NewKey \<Rightarrow> string \<Rightarrow> string \<Rightarrow> APIKey list \<Rightarrow> (go_error + APIKey) \<times> APIKey list"
where
  "Create_row newid now fault k hashHex prefix rows =
     (case fault of
        Some err \<Rightarrow> (Inl (ErrWrapped ''inserting api_key: '' (pg_go_error err)), rows)
      | None \<Rightarrow>
          if \<exists>r \<in> set rows. KeyHash r = hashHex
          then (Inl (ErrWrapped ''inserting api_key: '' (pg_go_error (PgCode ''23505''))), rows)
          else (let r = key_row newid now k hashHex prefix in (Inr r, rows @ [r])))"

definition Revoke_row :: "(string \<Rightarrow> string option) \<Rightarrow> pg_error option \<Rightarrow> string \<Rightarrow> APIKey list \<Rightarrow> go_error option \<times> APIKey list" where
  "Revoke_row uuid_of fault id' rows =
     (let failed = (case fault of Some err \<Rightarrow> Some err
                    | None \<Rightarrow> if uuid_of id' = None then Some (PgCode ''22P02'') else None) in
      case failed of
        Some err \<Rightarrow> (if errors_Is (mapPgError err) ErrNotFound then None
            else Some (ErrWrapped ''revoking api_key: '' (pg_go_error err)), rows)
      | None \<Rightarrow> (None, map (\<lambda>r. if uuid_of id' = Some (akID r) then r\<lparr>IsActive := False\<rparr> else r) rows))"

definition GetByID :: "(string \<Rightarrow> string option) \<Rightarrow> pg_error option \<Rightarrow> string \<Rightarrow> APIKey list \<Rightarrow> go_error + APIKey" where
  "GetByID uuid_of fault id' rows =
     (let failed = (case fault of Some err \<Rightarrow> Some err
                    | None \<Rightarrow> if uuid_of id' = None then Some (PgCode ''22P02'') else None) in
      case failed of
        Some err \<Rightarrow> if errors_Is (mapPgError err) ErrNotFound then Inl (ErrSentinel ErrNotFound)
            else Inl (ErrWrapped ''scanning api_key: '' (pg_go_error err))
      | None \<Rightarrow> (case find (\<lambda>r. uuid_of id' = Some (akID r)) rows of
          None \<Rightarrow> Inl (ErrSentinel ErrNotFound)
        | Some r \<Rightarrow> Inr r))"

definition TouchLastUsedAt ::
  "(string \<Rightarrow> string option) \<Rightarrow> instant \<Rightarrow> pg_error option \<Rightarrow> string \<Rightarrow> APIKey list \<Rightarrow> go_error option \<times> APIKey list"
where
  "TouchLastUsedAt uuid_of now fault id' rows =
     (let failed = (case fault of Some err \<Rightarrow> Some err
                    | None \<Rightarrow> if uuid_of id' = None then Some (PgCode ''22P02'') else None) in
      case failed of
        Some err \<Rightarrow> (Some (ErrWrapped ''touching api_key: '' (pg_go_error err)), rows)
      | None \<Rightarrow> (None, map (\<lambda>r. if uuid_of id' = Some (akID r) then r\<lparr>LastUsedAt := Some now\<rparr> else r) rows))"

record Organization =
  orgID :: string
  orgName :: string
  MonthlyBudgetUSD :: "float64 option"
  TotalBudgetUSD :: "float64 option"
  BudgetAlertThreshold :: float64
  BudgetAction :: string
  orgCreatedAt :: instant
  orgUpdatedAt :: instant

definition Org_GetByID :: "(string \<Rightarrow> string option) \<Rightarrow> pg_error option \<Rightarrow> string \<Rightarrow> Organization list \<Rightarrow> go_error + Organization" where
  "Org_GetByID uuid_of fault id' rows =
     (let failed = (case fault of Some err \<Rightarrow> Some err
                    | None \<Rightarrow> if uuid_of id' = None then Some (PgCode ''22P02'') else None) in
      case failed of
        Some err \<Rightarrow> Inl (ErrWrapped ''scanning organization: '' (pg_go_error err))
      | None \<Rightarrow> (case find (\<lambda>o'. uuid_of id' = Some (orgID o')) rows of
          None \<Rightarrow> Inl (ErrSentinel ErrNotFound)
        | Some o' \<Rightarrow> Inr o'))"

section \<open>Migrations\<close>

definition dsnForMigrate :: "string \<Rightarrow> go_error + string" where
  "dsnForMigrate dsn =
     (if HasPrefix dsn ''pgx5://'' then Inr dsn
      else if HasPrefix dsn ''postgres://'' then Inr (''pgx5://'' @ TrimPrefix dsn ''postgres://'')
      else if HasPrefix dsn ''postgresql://'' then Inr (''pgx5://'' @ TrimPrefix dsn ''postgresql://'')
      else if strings_Contains dsn ''='' \<and> \<not> strings_Contains dsn ''://''
      then Inl (ErrText ''libpq key=value DSNs are not supported for migrations; use postgres:// URL form'')
      else Inl (ErrText ''unrecognised DSN format; expected postgres:// URL''))"

section \<open>Specification vocabulary\<close>

definition valid_row :: "instant \<Rightarrow> string \<Rightarrow> APIKey list \<Rightarrow> APIKey \<Rightarrow> bool" where
  "valid_row now hashHex rows k \<longleftrightarrow> k \<in> set rows \<and> KeyHash k = hashHex \<and> IsActive k \<and> unexpired now k"

text \<open>The primary key and the unique hash.\<close>

definition table_inv :: "APIKey list \<Rightarrow> bool" where
  "table_inv rows \<longleftrightarrow> distinct (map akID rows) \<and> distinct (map KeyHash rows)"

section \<open>The interface the authenticator relies on\<close>

locale api_key_lookup =
  fixes lookup :: "instant \<Rightarrow> pg_error option \<Rightarrow> string \<Rightarrow> 'db \<Rightarrow> go_error + APIKey"
    and valid :: "instant \<Rightarrow> string \<Rightarrow> 'db \<Rightarrow> APIKey \<Rightarrow> bool"
  assumes lookup_valid: "lookup now fault h db = Inr k \<Longrightarrow> valid now h db k"
    and lookup_missing: "lookup now None h db = Inl e \<Longrightarrow> e = ErrSentinel ErrNotFound \<and> (\<forall>k. \<not> valid now h db k)"
begin

lemma lookup_found: "valid now h db k \<Longrightarrow> \<exists>k'. lookup now None h db = Inr k'"
  by (metis lookup_missing obj_sumE)

lemma lookup_refused: "\<forall>k. \<not> valid now h db k \<Longrightarrow> \<exists>e. lookup now fault h db = Inl e"
  by (metis lookup_valid obj_sumE)

end

section \<open>Lemmas\<close>

interpretation key_table: api_key_lookup GetByHash valid_row
  by unfold_locales
    (auto simp: GetByHash_def valid_row_def find_None_iff find_Some_iff split: option.splits)

lemma table_inv_Create [gw_inv]:
  "table_inv rows \<Longrightarrow> newid \<notin> akID ` set rows \<Longrightarrow> table_inv (snd (Create_row newid now fault k h p rows))"
  by (auto simp: table_inv_def Create_row_def key_row_def Let_def split: option.splits)

lemma table_inv_Revoke [gw_inv]: "table_inv rows \<Longrightarrow> table_inv (snd (Revoke_row uuid_of fault i rows))"
  by (auto simp: table_inv_def Revoke_row_def Let_def comp_def if_distrib split: option.splits cong: if_cong)

lemma revoked_not_valid:
  assumes "table_inv rows" "Revoke_row uuid_of None i rows = (None, rows')" "r \<in> set rows" "uuid_of i = Some (akID r)"
  shows "\<not> valid_row now (KeyHash r) rows' k"
proof
  assume v: "valid_row now (KeyHash r) rows' k"
  have rows': "rows' = map (\<lambda>r. if uuid_of i = Some (akID r) then r\<lparr>IsActive := False\<rparr> else r) rows"
    using assms(2,4) by (auto simp: Revoke_row_def)
  obtain r0 where r0: "r0 \<in> set rows" "k = (if uuid_of i = Some (akID r0) then r0\<lparr>IsActive := False\<rparr> else r0)"
    using v by (auto simp: rows' valid_row_def)
  then have "KeyHash r0 = KeyHash r" using v by (auto simp: valid_row_def split: if_splits)
  then have "r0 = r" using assms(1,3) r0(1) by (auto simp: table_inv_def distinct_map dest: inj_onD)
  with r0 v assms(4) show False by (auto simp: valid_row_def)
qed

end
