(* ===== verification/Key_Hash.thy ===== *)
theory Key_Hash
  imports Gateway_Prelude
begin

unbundle bit_operations_syntax

text \<open>
  \<^verbatim>\<open>internal/auth/hash.go\<close>: \<^verbatim>\<open>HashKey\<close> is the hex text of the SHA-256 digest of the plaintext key. The standard library's
  \<^verbatim>\<open>crypto/sha256\<close> is written out (FIPS 180-4) on 32-bit words, so the function is computable; the lemmas fix the
  shape of a digest. Nothing else relies on the digest's cryptographic strength: where two keys must not collide, that is a
  hypothesis.
\<close>

section \<open>SHA-256\<close>

text \<open>
  The standard's constants are the first 32 bits of the fractional parts of the cube roots of the first 64 primes and of the square roots of the first 8;
  \<open>root_bits k n b r\<close> extends \<open>r\<close> by the bits below \<open>2 ^ b\<close> of the \<open>k\<close>-th root of \<open>n\<close>.
\<close>

definition small_primes :: "int list" where
  "small_primes = filter (\<lambda>n. list_all (\<lambda>d. n mod d \<noteq> 0) [2..n - 1]) [2..311]"

fun root_bits :: "nat \<Rightarrow> int \<Rightarrow> nat \<Rightarrow> int \<Rightarrow> int" where
  "root_bits k n 0 r = r"
| "root_bits k n (Suc b) r = root_bits k n b (if (r + 2 ^ b) ^ k \<le> n then r + 2 ^ b else r)"

definition sha_K :: "32 word list" where
  "sha_K = map (\<lambda>p. of_int (root_bits 3 (p * 2 ^ 96) 36 0)) small_primes"

definition sha_H0 :: "32 word list" where
  "sha_H0 = map (\<lambda>p. of_int (root_bits 2 (p * 2 ^ 64) 37 0)) [2, 3, 5, 7, 11, 13, 17, 19]"

definition rotr :: "nat \<Rightarrow> 32 word \<Rightarrow> 32 word" where
  "rotr n x = drop_bit n x OR push_bit (32 - n) x"

definition big_endian :: "nat list \<Rightarrow> 32 word" where
  "big_endian bs = fold (\<lambda>b w. push_bit 8 w OR of_nat b) bs 0"

definition be_bytes :: "nat \<Rightarrow> nat \<Rightarrow> nat list" where
  "be_bytes k n = rev (map (\<lambda>i. (n div 256 ^ i) mod 256) [0..<k])"

definition sha_pad :: "nat list \<Rightarrow> nat list" where
  "sha_pad m = m @ [128] @ replicate ((119 - length m mod 64) mod 64) 0 @ be_bytes 8 (8 * length m)"

text \<open>The message schedule, newest word first.\<close>

primrec sha_schedule :: "nat \<Rightarrow> 32 word list \<Rightarrow> 32 word list" where
  "sha_schedule 0 ws = ws"
| "sha_schedule (Suc n) ws =
     (let s0 = rotr 7 (ws ! 14) XOR rotr 18 (ws ! 14) XOR drop_bit 3 (ws ! 14);
          s1 = rotr 17 (ws ! 1) XOR rotr 19 (ws ! 1) XOR drop_bit 10 (ws ! 1)
      in sha_schedule n ((ws ! 15 + s0 + ws ! 6 + s1) # ws))"

fun sha_round :: "32 word \<times> 32 word \<Rightarrow> 32 word list \<Rightarrow> 32 word list" where
  "sha_round (k, w) [a, b, c, d, e, f, g, h] =
     (let s1 = rotr 6 e XOR rotr 11 e XOR rotr 25 e;
          ch = (e AND f) XOR (NOT e AND g);
          t1 = h + s1 + ch + k + w;
          s0 = rotr 2 a XOR rotr 13 a XOR rotr 22 a;
          maj = (a AND b) XOR (a AND c) XOR (b AND c);
          t2 = s0 + maj
      in [t1 + t2, a, b, c, d + t1, e, f, g])"
| "sha_round _ st = st"

fun chunks_of :: "nat \<Rightarrow> nat \<Rightarrow> 'a list \<Rightarrow> 'a list list" where
  "chunks_of n 0 xs = []"
| "chunks_of n (Suc k) xs = take n xs # chunks_of n k (drop n xs)"

definition sha_block :: "nat list \<Rightarrow> 32 word list \<Rightarrow> 32 word list" where
  "sha_block blk st =
     (let ws = rev (sha_schedule 48 (rev (map big_endian (chunks_of 4 16 blk))))
      in map2 (+) st (fold sha_round (zip sha_K ws) st))"

definition sha256_words :: "nat list \<Rightarrow> 32 word list" where
  "sha256_words m = (let p = sha_pad m in fold sha_block (chunks_of 64 (length p div 64) p) sha_H0)"

definition hex_digit :: "nat \<Rightarrow> char" where
  "hex_digit n = ''0123456789abcdef'' ! n"

definition hex_of_word :: "32 word \<Rightarrow> string" where
  "hex_of_word w = map (\<lambda>i. hex_digit (unat w div 16 ^ i mod 16)) (rev [0..<8])"

definition HashKey :: "string \<Rightarrow> string" where
  "HashKey plaintext = concat (map hex_of_word (sha256_words (map of_char plaintext)))"

section \<open>The shape of a digest\<close>

lemma length_chunks_of [simp]: "length (chunks_of n k xs) = k"
  by (induction n k xs rule: chunks_of.induct) simp_all

lemma length_sha_round [simp]: "length (sha_round kw st) = length st"
  by (cases "(kw, st)" rule: sha_round.cases) (simp_all add: Let_def)

lemma length_fold_sha_round [simp]: "length (fold sha_round kws st) = length st"
  by (induction kws arbitrary: st) simp_all

lemma length_sha_block [simp]: "length (sha_block blk st) = length st"
  by (simp add: sha_block_def Let_def)

lemma length_fold_sha_block [simp]: "length (fold sha_block blks st) = length st"
  by (induction blks arbitrary: st) simp_all

lemma length_concat_const: "(\<And>x. x \<in> set xs \<Longrightarrow> length (f x) = n) \<Longrightarrow> length (concat (map f xs)) = n * length xs"
  by (induction xs) simp_all

lemma hex_digit_set: "n < 16 \<Longrightarrow> hex_digit n \<in> set ''0123456789abcdef''"
  unfolding hex_digit_def by (rule nth_mem) simp

lemma HashKey_shape: "length (HashKey plaintext) = 64 \<and> set (HashKey plaintext) \<subseteq> set ''0123456789abcdef''"
proof
  have "length (sha256_words (map of_char plaintext)) = 8"
    by (simp add: sha256_words_def Let_def sha_H0_def)
  then show "length (HashKey plaintext) = 64"
    using length_concat_const [of "sha256_words (map of_char plaintext)" hex_of_word 8]
    by (simp add: HashKey_def hex_of_word_def)
  show "set (HashKey plaintext) \<subseteq> set ''0123456789abcdef''"
    using hex_digit_set by (auto simp: HashKey_def hex_of_word_def simp del: set_simps list.set)
qed

lemma HashKey_nonempty: "HashKey plaintext \<noteq> []"
  using HashKey_shape [of plaintext] by auto

lemma sha_pad_blocks: "length (sha_pad m) mod 64 = 0"
proof -
  have b: "length (be_bytes 8 n) = 8" for n by (simp add: be_bytes_def)
  define r where "r = length m mod 64"
  have r: "r < 64" "(length m + x) mod 64 = (r + x) mod 64" for x unfolding r_def by (simp_all add: mod_add_left_eq)
  have "length (sha_pad m) = length m + (9 + (119 - r) mod 64)" by (simp add: sha_pad_def b r_def)
  then have "length (sha_pad m) mod 64 = (r + (9 + (119 - r) mod 64)) mod 64" using r(2) by simp
  also have "\<dots> = (r + 9 + (119 - r)) mod 64" by (metis add.assoc mod_add_right_eq)
  also have "r + 9 + (119 - r) = 128" using r(1) by simp
  finally show ?thesis by simp
qed

end
