(* ===== verification/Authentication.thy ===== *)
theory Authentication
  imports Key_Store Key_Hash "HOL-Library.AList"
begin

text \<open>
  \<^verbatim>\<open>internal/auth\<close>: key information, the caching authenticator and the development authenticator. The expirable LRU caches come from a
  library outside the repository: their operations are the records \<open>lru\<close>, what the code relies on is the locale
  \<open>expiring_cache\<close>, which a capacity-bounded list implements. The background update of \<^verbatim>\<open>last_used_at\<close>
  is the list of key ids it is started for. A call to the store is an argument of \<open>Authenticate\<close>, so that the same
  definition serves a sequential history and one in which the database changes during the call.
\<close>

section \<open>State\<close>

record KeyInfo =
  kiKeyID :: string
  kiOrgID :: string
  kiName :: string
  kiRPM :: int
  kiTPM :: int
  kiScopes :: "string list"
  kiExpiresAt :: "instant option"

definition negativeCacheTTL :: duration where
  "negativeCacheTTL = 30 * nanosPerSecond"

definition touchDebounce :: duration where
  "touchDebounce = 60 * nanosPerSecond"

record ('c, 'v) lru =
  lru_New :: "int \<Rightarrow> duration \<Rightarrow> 'c"
  lru_Get :: "instant \<Rightarrow> string \<Rightarrow> 'c \<Rightarrow> 'v option \<times> 'c"
  lru_Add :: "instant \<Rightarrow> string \<Rightarrow> 'v \<Rightarrow> 'c \<Rightarrow> 'c"
  lru_Remove :: "string \<Rightarrow> 'c \<Rightarrow> 'c"

record ('p, 'n, 't) cache_ops =
  posOps :: "('p, KeyInfo) lru"
  negOps :: "('n, unit) lru"
  touchedOps :: "('t, instant) lru"

record ('p, 'n, 't) Cached =
  pos :: 'p
  neg :: 'n
  touched :: 't

section \<open>Operations\<close>

definition NewCached :: "('p, 'n, 't) cache_ops \<Rightarrow> duration \<Rightarrow> int \<Rightarrow> ('p, 'n, 't) Cached" where
  "NewCached ops ttl size' = \<lparr>pos = lru_New (posOps ops) size' ttl, neg = lru_New (negOps ops) size' negativeCacheTTL,
     touched = lru_New (touchedOps ops) size' touchDebounce\<rparr>"

definition maybeTouch ::
  "('p, 'n, 't) cache_ops \<Rightarrow> instant \<Rightarrow> string \<Rightarrow> ('p, 'n, 't) Cached \<Rightarrow> ('p, 'n, 't) Cached \<times> string list"
where
  "maybeTouch ops now keyID c = (case lru_Get (touchedOps ops) now keyID (touched c) of
       (Some _, t) \<Rightarrow> (c\<lparr>touched := t\<rparr>, [])
     | (None, t) \<Rightarrow> (c\<lparr>touched := lru_Add (touchedOps ops) now keyID now t\<rparr>, [keyID]))"

definition key_info :: "APIKey \<Rightarrow> KeyInfo" where
  "key_info row = \<lparr>kiKeyID = akID row, kiOrgID = akOrgID row, kiName = akName row, kiRPM = RateLimitRPM row,
     kiTPM = RateLimitTPM row, kiScopes = akScopes row, kiExpiresAt = akExpiresAt row\<rparr>"

text \<open>The part of \<^verbatim>\<open>Authenticate\<close> before the store is asked, and the part after its answer.\<close>

definition auth_cached ::
  "('p, 'n, 't) cache_ops \<Rightarrow> instant \<Rightarrow> string \<Rightarrow> ('p, 'n, 't) Cached \<Rightarrow>
   (go_error + KeyInfo) option \<times> ('p, 'n, 't) Cached \<times> string list"
where
  "auth_cached ops now hash c = (case lru_Get (posOps ops) now hash (pos c) of
       (Some info, p) \<Rightarrow>
         (let c = c\<lparr>pos := p\<rparr> in
          if (case kiExpiresAt info of None \<Rightarrow> False | Some e \<Rightarrow> \<not> now < e)
          then (Some (Inl (ErrSentinel ErrInvalidKey)),
                c\<lparr>pos := lru_Remove (posOps ops) hash p, neg := lru_Add (negOps ops) now hash () (neg c)\<rparr>, [])
          else (let (c, ts) = maybeTouch ops now (kiKeyID info) c in (Some (Inr info), c, ts)))
     | (None, p) \<Rightarrow>
         (case lru_Get (negOps ops) now hash (neg c) of
            (Some _, n) \<Rightarrow> (Some (Inl (ErrSentinel ErrInvalidKey)), c\<lparr>pos := p, neg := n\<rparr>, [])
          | (None, n) \<Rightarrow> (None, c\<lparr>pos := p, neg := n\<rparr>, [])))"

definition auth_answer ::
  "('p, 'n, 't) cache_ops \<Rightarrow> instant \<Rightarrow> string \<Rightarrow> (go_error + APIKey) \<Rightarrow> ('p, 'n, 't) Cached \<Rightarrow>
   (go_error + KeyInfo) \<times> ('p, 'n, 't) Cached \<times> string list"
where
  "auth_answer ops now hash reply c = (case reply of
       Inl err \<Rightarrow> if errors_Is err ErrNotFound
         then (Inl (ErrSentinel ErrInvalidKey), c\<lparr>neg := lru_Add (negOps ops) now hash () (neg c)\<rparr>, [])
         else (Inl err, c, [])
     | Inr row \<Rightarrow>
         (let info = key_info row;
              c = c\<lparr>pos := lru_Add (posOps ops) now hash info (pos c)\<rparr>;
              (c, ts) = maybeTouch ops now (kiKeyID info) c
          in (Inr info, c, ts)))"

definition Authenticate ::
  "('p, 'n, 't) cache_ops \<Rightarrow> instant \<Rightarrow> (string \<Rightarrow> go_error + APIKey) \<Rightarrow> string \<Rightarrow> ('p, 'n, 't) Cached \<Rightarrow>
   (go_error + KeyInfo) \<times> ('p, 'n, 't) Cached \<times> string list"
where
  "Authenticate ops now get_by_hash plaintext c =
     (let hash = HashKey plaintext in
      case auth_cached ops now hash c of
        (Some res, c', ts) \<Rightarrow> (res, c', ts)
      | (None, c', ts) \<Rightarrow> auth_answer ops now hash (get_by_hash hash) c')"

definition Invalidate :: "('p, 'n, 't) cache_ops \<Rightarrow> string \<Rightarrow> ('p, 'n, 't) Cached \<Rightarrow> ('p, 'n, 't) Cached" where
  "Invalidate ops hashHex c = c\<lparr>pos := lru_Remove (posOps ops) hashHex (pos c), neg := lru_Remove (negOps ops) hashHex (neg c)\<rparr>"

definition AllowAll_Authenticate :: "string \<Rightarrow> go_error + KeyInfo" where
  "AllowAll_Authenticate plaintext = Inr \<lparr>kiKeyID = ''dev'', kiOrgID = ''dev'', kiName = ''dev'', kiRPM = 0, kiTPM = 0,
     kiScopes = [], kiExpiresAt = None\<rparr>"

section \<open>Histories\<close>

text \<open>Calls on one authenticator, one after the other, each with the database and the fault it meets.\<close>

datatype auth_event = AuthCall instant "pg_error option" "APIKey list" string | InvalidateCall string

fun auth_run ::
  "('p, 'n, 't) cache_ops \<Rightarrow> auth_event list \<Rightarrow> ('p, 'n, 't) Cached \<Rightarrow> (auth_event \<times> (go_error + KeyInfo)) list"
where
  "auth_run ops [] c = []"
| "auth_run ops (AuthCall now fault rows plaintext # evs) c =
     (let (res, c', ts) = Authenticate ops now (\<lambda>h. GetByHash now fault h rows) plaintext c
      in (AuthCall now fault rows plaintext, res) # auth_run ops evs c')"
| "auth_run ops (InvalidateCall h # evs) c = auth_run ops evs (Invalidate ops h c)"

text \<open>A cache that meets the interface: the most recent first, at most the given number of entries (0 for no bound), each for its time to live.\<close>

record 'v list_cache =
  cap :: int
  lifetime :: duration
  items :: "(string \<times> 'v \<times> instant) list"

definition bound_items :: "int \<Rightarrow> 'a list \<Rightarrow> 'a list" where
  "bound_items n xs = (if n \<le> 0 then xs else take (nat n) xs)"

definition list_lru :: "('v list_cache, 'v) lru" where
  "list_lru = \<lparr>
     lru_New = (\<lambda>n d. \<lparr>cap = n, lifetime = d, items = []\<rparr>),
     lru_Get = (\<lambda>now k c. case map_of (items c) k of
        Some (v, t) \<Rightarrow> if now < t + lifetime c then (Some v, c\<lparr>items := (k, v, t) # AList.delete k (items c)\<rparr>)
                       else (None, c\<lparr>items := AList.delete k (items c)\<rparr>)
      | None \<Rightarrow> (None, c)),
     lru_Add = (\<lambda>now k v c. c\<lparr>items := bound_items (cap c) ((k, v, now) # AList.delete k (items c))\<rparr>),
     lru_Remove = (\<lambda>k c. c\<lparr>items := AList.delete k (items c)\<rparr>)\<rparr>"

definition list_entries :: "'v list_cache \<Rightarrow> string \<Rightarrow> ('v \<times> instant) option" where
  "list_entries c = map_of (items c)"

definition list_ops :: "(KeyInfo list_cache, unit list_cache, instant list_cache) cache_ops" where
  "list_ops = \<lparr>posOps = list_lru, negOps = list_lru, touchedOps = list_lru\<rparr>"

section \<open>Specification vocabulary\<close>

text \<open>Every cached key was a valid row of the database when it was cached, no later than \<open>T\<close>.\<close>

definition cached_inv ::
  "('p \<Rightarrow> string \<Rightarrow> (KeyInfo \<times> instant) option) \<Rightarrow> (instant \<Rightarrow> APIKey list) \<Rightarrow> instant \<Rightarrow> ('p, 'n, 't) Cached \<Rightarrow> bool"
where
  "cached_inv entries db_at T c \<longleftrightarrow> (\<forall>h info t. entries (pos c) h = Some (info, t) \<longrightarrow>
     t \<le> T \<and> (\<exists>k. valid_row t h (db_at t) k \<and> info = key_info k))"

text \<open>From \<open>T\<close> on, every call of the history comes at \<open>T\<close> or later and finds no valid row for the hash.\<close>

fun never_valid :: "instant \<Rightarrow> string \<Rightarrow> auth_event \<Rightarrow> bool" where
  "never_valid T h (AuthCall now fault rows plaintext) = (T \<le> now \<and> (\<forall>k \<in> set rows. \<not> (KeyHash k = h \<and> IsActive k \<and> unexpired now k)))"
| "never_valid T h (InvalidateCall _) = True"

definition sample_key :: APIKey where
  "sample_key = \<lparr>akID = ''k1'', KeyHash = HashKey ''sk-gw-a'', KeyPrefix = ''sk-gw-a'', akOrgID = ''org'', akName = ''ci'', akScopes = [],
     RateLimitRPM = 60, RateLimitTPM = 100000, IsActive = True, CreatedAt = 0, akExpiresAt = Some 1000, LastUsedAt = None\<rparr>"

section \<open>The caches\<close>

locale expiring_cache =
  fixes ops :: "('c, 'v) lru"
    and entries :: "'c \<Rightarrow> string \<Rightarrow> ('v \<times> instant) option"
    and ttl_of :: "'c \<Rightarrow> duration"
  assumes new_empty: "entries (lru_New ops n ttl) k = None" "ttl_of (lru_New ops n ttl) = ttl"
    and get_live: "lru_Get ops now k c = (Some v, c') \<Longrightarrow> \<exists>t. entries c k = Some (v, t) \<and> now < t + ttl_of c"
    and get_drops: "lru_Get ops now k c = (r, c') \<Longrightarrow> entries c' k' = entries c k' \<or> entries c' k' = None"
    and add_own: "entries (lru_Add ops now k v c) k = Some (v, now) \<or> entries (lru_Add ops now k v c) k = None"
    and add_drops: "k' \<noteq> k \<Longrightarrow> entries (lru_Add ops now k v c) k' = entries c k' \<or> entries (lru_Add ops now k v c) k' = None"
    and remove_own: "entries (lru_Remove ops k c) k = None"
    and remove_drops: "entries (lru_Remove ops k c) k' = entries c k' \<or> entries (lru_Remove ops k c) k' = None"
    and ttl_fixed: "ttl_of (snd (lru_Get ops now k c)) = ttl_of c" "ttl_of (lru_Add ops now k v c) = ttl_of c"
      "ttl_of (lru_Remove ops k c) = ttl_of c"
begin

lemma get_entry: "lru_Get ops now k c = (r, c') \<Longrightarrow> entries c' k' = Some e \<Longrightarrow> entries c k' = Some e"
  using get_drops [of now k c r c' k'] by auto

lemma add_entry: "entries (lru_Add ops now k v c) k' = Some e \<Longrightarrow> (k' = k \<and> e = (v, now)) \<or> entries c k' = Some e"
  using add_own [of now k v c] add_drops [of k' k now v c] by (cases "k' = k") auto

lemma remove_entry: "entries (lru_Remove ops k c) k' = Some e \<Longrightarrow> k' \<noteq> k \<and> entries c k' = Some e"
  using remove_drops [of k c k'] remove_own [of k c] by auto

end

section \<open>Lemmas\<close>

lemma map_of_take: "map_of (take n xs) k = Some v \<Longrightarrow> map_of xs k = Some v"
  by (metis append_take_drop_id map_add_find_right map_of_append)

lemma map_of_bound: "map_of (bound_items n xs) k = map_of xs k \<or> map_of (bound_items n xs) k = None"
  using map_of_take [of "nat n" xs k] by (cases "map_of (take (nat n) xs) k") (auto simp: bound_items_def)

lemma list_add_entry:
  "list_entries (lru_Add list_lru now k v c) k' = (if k' = k then Some (v, now) else list_entries c k') \<or>
   list_entries (lru_Add list_lru now k v c) k' = None"
  using map_of_bound [of "cap c" "(k, v, now) # AList.delete k (items c)" k']
  by (auto simp: list_lru_def list_entries_def delete_conv')

lemma list_get_entry:
  "lru_Get list_lru now k c = (r, c') \<Longrightarrow>
     (list_entries c' k' = list_entries c k' \<or> list_entries c' k' = None) \<and> lifetime c' = lifetime c \<and>
     (\<forall>v. r = Some v \<longrightarrow> (\<exists>t. list_entries c k = Some (v, t) \<and> now < t + lifetime c))"
  by (auto simp: list_lru_def list_entries_def delete_conv' split: option.splits if_splits prod.splits)

lemma list_rest:
  "list_entries (lru_New list_lru n d) k = None" "lifetime (lru_New list_lru n d) = d"
  "list_entries (lru_Remove list_lru k c) k' = (if k' = k then None else list_entries c k')"
  "lifetime (lru_Remove list_lru k c) = lifetime c" "lifetime (lru_Add list_lru now k v c) = lifetime c"
  by (simp_all add: list_lru_def list_entries_def delete_conv')

interpretation list_cache: expiring_cache list_lru list_entries lifetime
proof unfold_locales
  fix c c' :: "'a list_cache" and now :: instant and k k' :: string and v :: 'a and r :: "'a option"
  show "lifetime (snd (lru_Get list_lru now k c)) = lifetime c"
    using list_get_entry [of now k c "fst (lru_Get list_lru now k c)" "snd (lru_Get list_lru now k c)" k] by simp
  show "lru_Get list_lru now k c = (Some v, c') \<Longrightarrow> \<exists>t. list_entries c k = Some (v, t) \<and> now < t + lifetime c"
    using list_get_entry [of now k c "Some v" c' k] by blast
  show "lru_Get list_lru now k c = (r, c') \<Longrightarrow> list_entries c' k' = list_entries c k' \<or> list_entries c' k' = None"
    by (rule conjunct1 [OF list_get_entry])
  show "list_entries (lru_Add list_lru now k v c) k = Some (v, now) \<or> list_entries (lru_Add list_lru now k v c) k = None"
    using list_add_entry [of now k v c k] by simp
  show "k' \<noteq> k \<Longrightarrow> list_entries (lru_Add list_lru now k v c) k' = list_entries c k' \<or>
      list_entries (lru_Add list_lru now k v c) k' = None"
    using list_add_entry [of now k v c k'] by simp
qed (simp_all add: list_rest)

lemma maybeTouch_pos [gw_frame]: "pos (fst (maybeTouch ops now k c)) = pos c" "neg (fst (maybeTouch ops now k c)) = neg c"
  by (simp_all add: maybeTouch_def split: option.splits prod.splits)

lemma auth_cached_pos:
  assumes "auth_cached ops now hash c = (res, c', ts)" "lru_Get (posOps ops) now hash (pos c) = (r, p)"
  shows "pos c' = p \<or> pos c' = lru_Remove (posOps ops) hash p"
proof (cases r)
  case None
  with assms show ?thesis by (auto simp: auth_cached_def split: option.splits prod.splits)
next
  case (Some info)
  obtain c1 ts1 where m: "maybeTouch ops now (kiKeyID info) (c\<lparr>pos := p\<rparr>) = (c1, ts1)" by fastforce
  then have "pos c1 = p" using maybeTouch_pos(1) [of ops now "kiKeyID info" "c\<lparr>pos := p\<rparr>"] by simp
  with assms Some m show ?thesis by (auto simp: auth_cached_def Let_def split: if_splits)
qed

lemma auth_cached_hit:
  assumes "auth_cached ops now hash c = (Some (Inr info), c', ts)"
  shows "\<exists>p. lru_Get (posOps ops) now hash (pos c) = (Some info, p) \<and> (\<forall>e. kiExpiresAt info = Some e \<longrightarrow> now < e)"
  using assms by (auto simp: auth_cached_def Let_def split: option.splits prod.splits if_splits)

locale key_cache = expiring_cache "posOps cops" entries ttl_of
  for cops :: "('p, 'n, 't) cache_ops" and entries :: "'p \<Rightarrow> string \<Rightarrow> (KeyInfo \<times> instant) option" and ttl_of
begin

lemma auth_cached_entries:
  assumes "auth_cached cops now hash c = (res, c', ts)" "entries (pos c') h = Some e"
  shows "entries (pos c) h = Some e"
proof -
  obtain r p where p: "lru_Get (posOps cops) now hash (pos c) = (r, p)" by (cases "lru_Get (posOps cops) now hash (pos c)")
  from auth_cached_pos [OF assms(1) p] have "pos c' = p \<or> pos c' = lru_Remove (posOps cops) hash p" .
  with assms(2) have "entries p h = Some e" using remove_entry [of hash p h e] by (elim disjE) simp_all
  with p show ?thesis by (rule get_entry)
qed

lemma Authenticate_entries:
  assumes "Authenticate cops now look plaintext c = (res, c', ts)" "entries (pos c') h = Some e"
  shows "entries (pos c) h = Some e \<or>
    (\<exists>row. h = HashKey plaintext \<and> look h = Inr row \<and> e = (key_info row, now))"
proof -
  obtain r1 c1 t1 where a: "auth_cached cops now (HashKey plaintext) c = (r1, c1, t1)" by (metis prod_cases3)
  show ?thesis
  proof (cases r1)
    case (Some x)
    with a assms(1) have "c' = c1" by (simp add: Authenticate_def Let_def)
    with auth_cached_entries [OF a] assms(2) show ?thesis by blast
  next
    case None
    then have ans: "auth_answer cops now (HashKey plaintext) (look (HashKey plaintext)) c1 = (res, c', ts)"
      using a assms(1) by (simp add: Authenticate_def Let_def)
    show ?thesis
    proof (cases "look (HashKey plaintext)")
      case (Inl err)
      then have "pos c' = pos c1" using ans by (auto simp: auth_answer_def split: if_splits)
      with auth_cached_entries [OF a] assms(2) show ?thesis by simp
    next
      case (Inr row)
      let ?c = "c1\<lparr>pos := lru_Add (posOps cops) now (HashKey plaintext) (key_info row) (pos c1)\<rparr>"
      have "c' = fst (maybeTouch cops now (kiKeyID (key_info row)) ?c)"
        using ans Inr by (auto simp: auth_answer_def Let_def split: prod.splits)
      then have "pos c' = lru_Add (posOps cops) now (HashKey plaintext) (key_info row) (pos c1)" by (simp add: gw_frame)
      with assms(2) add_entry [of now "HashKey plaintext" "key_info row" "pos c1" h e]
      have "(h = HashKey plaintext \<and> e = (key_info row, now)) \<or> entries (pos c1) h = Some e" by simp
      with Inr auth_cached_entries [OF a] show ?thesis by blast
    qed
  qed
qed

lemma Authenticate_accepts:
  assumes "Authenticate cops now look plaintext c = (Inr info, c', ts)"
  shows "(\<exists>t. entries (pos c) (HashKey plaintext) = Some (info, t) \<and> now < t + ttl_of (pos c) \<and>
      (\<forall>e. kiExpiresAt info = Some e \<longrightarrow> now < e)) \<or>
    (\<exists>row. look (HashKey plaintext) = Inr row \<and> info = key_info row)"
proof -
  obtain r1 c1 t1 where a: "auth_cached cops now (HashKey plaintext) c = (r1, c1, t1)" by (metis prod_cases3)
  show ?thesis
  proof (cases r1)
    case (Some x)
    with a assms(1) have "auth_cached cops now (HashKey plaintext) c = (Some (Inr info), c1, t1)" by (simp add: Authenticate_def Let_def)
    then show ?thesis using auth_cached_hit [of cops now "HashKey plaintext" c info] get_live by metis
  next
    case None
    then have "auth_answer cops now (HashKey plaintext) (look (HashKey plaintext)) c1 = (Inr info, c', ts)"
      using a assms(1) by (simp add: Authenticate_def Let_def)
    then show ?thesis by (auto simp: auth_answer_def Let_def split: sum.splits if_splits prod.splits)
  qed
qed

lemma cached_inv_Authenticate:
  assumes "cached_inv entries db_at T c" "T \<le> now"
    and "Authenticate cops now (\<lambda>h. GetByHash now fault h (db_at now)) plaintext c = (res, c', ts)"
  shows "cached_inv entries db_at now c'"
  unfolding cached_inv_def
proof (intro allI impI)
  fix h info t assume "entries (pos c') h = Some (info, t)"
  from Authenticate_entries [OF assms(3) this] consider "entries (pos c) h = Some (info, t)"
    | row where "GetByHash now fault h (db_at now) = Inr row" "info = key_info row" "t = now" by auto
  then show "t \<le> now \<and> (\<exists>k. valid_row t h (db_at t) k \<and> info = key_info k)"
  proof cases
    case 1
    then have "t \<le> T \<and> (\<exists>k. valid_row t h (db_at t) k \<and> info = key_info k)" using assms(1) unfolding cached_inv_def by blast
    with assms(2) show ?thesis by auto
  next
    case 2
    then show ?thesis using key_table.lookup_valid by blast
  qed
qed

lemma Invalidate_entries:
  "entries (pos (Invalidate cops h c)) h' = Some e \<Longrightarrow> h' \<noteq> h \<and> entries (pos c) h' = Some e"
  by (rule remove_entry) (simp add: Invalidate_def)

lemma cached_inv_Invalidate:
  "cached_inv entries db_at T c \<Longrightarrow> cached_inv entries db_at T (Invalidate cops h c)"
  unfolding cached_inv_def using Invalidate_entries by blast

lemma revoked_stays_out:
  shows "entries (pos c) h = None \<Longrightarrow> list_all (never_valid T h) evs \<Longrightarrow>
    (AuthCall now fault rows plaintext, res) \<in> set (auth_run cops evs c) \<Longrightarrow> HashKey plaintext = h \<Longrightarrow> \<exists>e. res = Inl e"
proof (induction evs arbitrary: c)
  case (Cons ev evs)
  show ?case
  proof (cases ev)
    case (InvalidateCall h')
    have "entries (pos (Invalidate cops h' c)) h = None"
      using Cons.prems(1) Invalidate_entries [of h' c h] by (cases "entries (pos (Invalidate cops h' c)) h") auto
    with Cons.IH Cons.prems InvalidateCall show ?thesis by simp
  next
    case (AuthCall now' fault' rows' pt)
    let ?look = "\<lambda>h. GetByHash now' fault' h rows'"
    obtain res' c' ts where a: "Authenticate cops now' ?look pt c = (res', c', ts)" by (metis prod_cases3)
    have bad: "?look h \<noteq> Inr row" for row
      using Cons.prems(2) AuthCall key_table.lookup_valid [of now' fault' h rows' row] by (auto simp: valid_row_def)
    have "entries (pos c') h = None"
      using Authenticate_entries [OF a, of h] Cons.prems(1) bad by (cases "entries (pos c') h") auto
    moreover have "HashKey pt = h \<Longrightarrow> \<exists>e. res' = Inl e"
      using Authenticate_accepts [of now' ?look pt c] a Cons.prems(1) bad by (cases res') auto
    ultimately show ?thesis using Cons.IH [of c'] Cons.prems(2-4) AuthCall a by auto
  qed
qed simp

end

interpretation list_key_cache: key_cache list_ops list_entries lifetime
  by (simp add: key_cache_def list_ops_def list_cache.expiring_cache_axioms)

section \<open>Properties\<close>

text \<open>
  C14. An accepted API key was valid in the database within the cache lifetime, and is not expired now. For any database history and any
  cache meeting the library's contract, if \<^verbatim>\<open>Authenticate\<close> accepts at time \<open>now\<close>, then at some time \<open>t\<close>, now or less than the cache's time to
  live before, the table held an active, unexpired row with the key's hash, the returned information is that row's, and its expiry is still ahead.
  The cache invariant this rests on is kept.
\<close>

theorem Authenticate_sound:
  assumes "key_cache ops entries ttl_of" "cached_inv entries db_at T c" "T \<le> now"
    and "Authenticate ops now (\<lambda>h. GetByHash now fault h (db_at now)) plaintext c = (res, c', ts)"
  shows "cached_inv entries db_at now c' \<and>
    (\<forall>info. res = Inr info \<longrightarrow>
       (\<exists>t k. t \<le> now \<and> (t = now \<or> now < t + ttl_of (pos c)) \<and> valid_row t (HashKey plaintext) (db_at t) k \<and> info = key_info k) \<and>
       (\<forall>e. kiExpiresAt info = Some e \<longrightarrow> now < e))"
proof (intro conjI allI impI)
  show "cached_inv entries db_at now c'" by (rule key_cache.cached_inv_Authenticate [OF assms(1,2,3,4)])
next
  fix info assume info: "res = Inr info"
  from key_cache.Authenticate_accepts [OF assms(1) assms(4) [unfolded info]]
  consider (hit) t where "entries (pos c) (HashKey plaintext) = Some (info, t)" "now < t + ttl_of (pos c)"
      "\<forall>e. kiExpiresAt info = Some e \<longrightarrow> now < e"
    | (miss) row where "GetByHash now fault (HashKey plaintext) (db_at now) = Inr row" "info = key_info row" by blast
  then have "(\<exists>t k. t \<le> now \<and> (t = now \<or> now < t + ttl_of (pos c)) \<and> valid_row t (HashKey plaintext) (db_at t) k \<and> info = key_info k) \<and>
      (\<forall>e. kiExpiresAt info = Some e \<longrightarrow> now < e)"
  proof cases
    case hit
    then have "t \<le> T" "\<exists>k. valid_row t (HashKey plaintext) (db_at t) k \<and> info = key_info k"
      using assms(2) unfolding cached_inv_def by blast+
    with hit assms(3) show ?thesis by (auto intro!: exI [of _ t])
  next
    case miss
    then have v: "valid_row now (HashKey plaintext) (db_at now) row" by (metis key_table.lookup_valid)
    then have "\<forall>e. kiExpiresAt info = Some e \<longrightarrow> now < e" using miss(2) by (auto simp: valid_row_def unexpired_def key_info_def)
    with v miss(2) show ?thesis by blast
  qed
  then show "\<exists>t k. t \<le> now \<and> (t = now \<or> now < t + ttl_of (pos c)) \<and> valid_row t (HashKey plaintext) (db_at t) k \<and> info = key_info k"
    and "\<And>e. kiExpiresAt info = Some e \<Longrightarrow> now < e" by blast+
qed

theorem Authenticate_sound_witness:
  "\<exists>info c' ts. Authenticate list_ops 5 (\<lambda>h. GetByHash 5 None h [sample_key]) ''sk-gw-a'' (NewCached list_ops 300 10) = (Inr info, c', ts) \<and>
     cached_inv list_entries (\<lambda>_. [sample_key]) 5 c' \<and> (\<forall>e. kiExpiresAt info = Some e \<longrightarrow> 5 < e)"
proof -
  let ?c = "NewCached list_ops 300 10"
  have inv: "cached_inv list_entries (\<lambda>_. [sample_key]) 0 ?c"
    by (simp add: cached_inv_def NewCached_def list_ops_def list_rest)
  have "\<exists>info c' ts. Authenticate list_ops 5 (\<lambda>h. GetByHash 5 None h [sample_key]) ''sk-gw-a'' ?c = (Inr info, c', ts)"
    by (simp add: Authenticate_def auth_cached_def auth_answer_def NewCached_def list_ops_def list_lru_def GetByHash_def sample_key_def
        unexpired_def maybeTouch_def Let_def)
  then obtain info c' ts where a: "Authenticate list_ops 5 (\<lambda>h. GetByHash 5 None h [sample_key]) ''sk-gw-a'' ?c = (Inr info, c', ts)" by blast
  from Authenticate_sound [OF list_key_cache.key_cache_axioms inv _ a] a show ?thesis by auto
qed

text \<open>
  Revocation takes effect at once in a sequential history: once the key's hash has been invalidated and the table holds no valid row for it, every later
  \<^verbatim>\<open>Authenticate\<close> of that key is refused, whatever other calls and invalidations come in between, for as long as the row stays
  revoked.
\<close>

theorem revoked_key_refused:
  assumes "key_cache ops entries ttl_of" "list_all (never_valid T h) evs"
    and "(AuthCall now fault rows plaintext, res) \<in> set (auth_run ops evs (Invalidate ops h c))" "HashKey plaintext = h"
  shows "\<exists>e. res = Inl e"
proof (rule key_cache.revoked_stays_out [OF assms(1) _ assms(2,3,4)])
  show "entries (pos (Invalidate ops h c)) h = None"
    using key_cache.Invalidate_entries [OF assms(1), of h c h] by (cases "entries (pos (Invalidate ops h c)) h") auto
qed

theorem revoked_key_refused_witness:
  "\<exists>e. auth_run list_ops [AuthCall 7 None [sample_key\<lparr>IsActive := False\<rparr>] ''sk-gw-a'']
     (Invalidate list_ops (HashKey ''sk-gw-a'') (NewCached list_ops 300 10)) =
     [(AuthCall 7 None [sample_key\<lparr>IsActive := False\<rparr>] ''sk-gw-a'', Inl e)]"
proof -
  let ?evs = "[AuthCall 7 None [sample_key\<lparr>IsActive := False\<rparr>] ''sk-gw-a'']"
  let ?c = "NewCached list_ops 300 10"
  obtain res where r: "auth_run list_ops ?evs (Invalidate list_ops (HashKey ''sk-gw-a'') ?c) = [(hd ?evs, res)]"
    by (simp add: case_prod_unfold Let_def)
  have "list_all (never_valid 7 (HashKey ''sk-gw-a'')) ?evs" by simp
  moreover have "(AuthCall 7 None [sample_key\<lparr>IsActive := False\<rparr>] ''sk-gw-a'', res)
      \<in> set (auth_run list_ops ?evs (Invalidate list_ops (HashKey ''sk-gw-a'') ?c))" unfolding r by simp
  ultimately have "\<exists>e. res = Inl e"
    by (rule revoked_key_refused [OF list_key_cache.key_cache_axioms]) (rule refl)
  with r show ?thesis by auto
qed

section \<open>A lookup that overlaps a revocation\<close>

text \<open>
  The two halves of \<^verbatim>\<open>Authenticate\<close> around the store's answer are not atomic. If the row is revoked and the cache invalidated between
  the answer and the insertion, the revoked key is inserted after the invalidation and the next call accepts it from the cache.
\<close>

lemma revoke_overlapping_lookup:
  "let reply = GetByHash 5 None (KeyHash sample_key) [sample_key];
       c1 = Invalidate list_ops (KeyHash sample_key) (NewCached list_ops 300 10);
       (res, c2, ts) = auth_answer list_ops 5 (KeyHash sample_key) reply c1;
       (res', c3, ts') = Authenticate list_ops 6 (\<lambda>h. GetByHash 6 None h [sample_key\<lparr>IsActive := False\<rparr>]) ''sk-gw-a'' c2
   in res' = Inr (key_info sample_key)"
  by (simp add: GetByHash_def sample_key_def unexpired_def Invalidate_def NewCached_def list_ops_def list_lru_def auth_answer_def Let_def
      maybeTouch_def Authenticate_def auth_cached_def bound_items_def key_info_def)

end
