(* ===== verification/Rate_Limiter.thy ===== *)
theory Rate_Limiter
  imports Authentication Gateway_Config "HOL-Library.Multiset"
begin

text \<open>
  \<^verbatim>\<open>internal/ratelimit\<close>: the two Lua scripts and the Go limiter around them. Redis is not part of the repository: the commands the scripts call are the
  fields of \<open>redis\<close> over a server state, what the scripts rely on (sorted sets ordered by score, unique members) is the locale
  \<open>sorted_sets\<close>, which a list-based server implements. Scores and counts are integers: the values the scripts handle (milliseconds, request and token
  counts) are integers below \<open>2 ^ 53\<close>, where Lua's and Redis's doubles are exact. A script runs atomically; a round trip that fails, before or after the
  script ran on the server, is the argument \<open>fault\<close>.
\<close>

section \<open>Redis commands\<close>

record 's redis =
  ZREMRANGEBYSCORE :: "string \<Rightarrow> int \<Rightarrow> 's \<Rightarrow> 's"
  ZCARD :: "string \<Rightarrow> 's \<Rightarrow> int"
  ZRANGE_all :: "string \<Rightarrow> 's \<Rightarrow> string list"
  ZRANGE_first :: "string \<Rightarrow> 's \<Rightarrow> (string \<times> int) option"
  ZADD :: "string \<Rightarrow> int \<Rightarrow> string \<Rightarrow> 's \<Rightarrow> 's"
  EXPIRE :: "string \<Rightarrow> int \<Rightarrow> 's \<Rightarrow> 's"

section \<open>The scripts\<close>

definition after_last_colon :: "string \<Rightarrow> string option" where
  "after_last_colon m = (if CHR '':'' \<in> set m then Some (rev (takeWhile (\<lambda>c. c \<noteq> CHR '':'') (rev m))) else None)"

text \<open>Lua's \<^verbatim>\<open>tonumber\<close>: on a decimal numeral its value, on any other text what \<open>other\<close> says.\<close>

definition lua_tonumber :: "(string \<Rightarrow> int option) \<Rightarrow> string \<Rightarrow> int option" where
  "lua_tonumber other s = (if s \<noteq> [] \<and> list_all is_digit s then map_option int (parse_digits 0 s) else other s)"

definition token_count :: "(string \<Rightarrow> int option) \<Rightarrow> string \<Rightarrow> int" where
  "token_count other m = (case after_last_colon m of
       None \<Rightarrow> 0
     | Some s \<Rightarrow> (case lua_tonumber other s of Some n \<Rightarrow> n | None \<Rightarrow> 0))"

definition oldest_score :: "'s redis \<Rightarrow> int \<Rightarrow> string \<Rightarrow> 's \<Rightarrow> int" where
  "oldest_score R now key s = (case ZRANGE_first R key s of Some (m, sc) \<Rightarrow> sc | None \<Rightarrow> now)"

definition lua_ceil_div :: "int \<Rightarrow> int \<Rightarrow> int" where
  "lua_ceil_div a b = \<lceil>rat_of_int a / rat_of_int b\<rceil>"

definition check_lua ::
  "'s redis \<Rightarrow> (string \<Rightarrow> int option) \<Rightarrow> string \<Rightarrow> string \<Rightarrow> int \<Rightarrow> int \<Rightarrow> int \<Rightarrow> int \<Rightarrow> string \<Rightarrow> 's \<Rightarrow> int list \<times> 's"
where
  "check_lua R other rpm_key tpm_key now window rpm_lim tpm_lim req_id s =
     (let ttl = lua_ceil_div (window * 2) 1000;
          s = ZREMRANGEBYSCORE R rpm_key (now - window) s;
          rpm_count = ZCARD R rpm_key s in
      if rpm_lim > 0 \<and> rpm_count \<ge> rpm_lim
      then ([0, 1, rpm_count, oldest_score R now rpm_key s, 0, now], s)
      else
        let s = (if tpm_lim > 0 then ZREMRANGEBYSCORE R tpm_key (now - window) s else s);
            tpm_total = (if tpm_lim > 0 then sum_list (map (token_count other) (ZRANGE_all R tpm_key s)) else 0);
            tpm_oldest = (if tpm_lim > 0 then oldest_score R now tpm_key s else now) in
        if tpm_lim > 0 \<and> tpm_total \<ge> tpm_lim
        then ([0, 2, rpm_count, oldest_score R now rpm_key s, tpm_total, tpm_oldest], s)
        else
          let s = (if rpm_lim > 0 then EXPIRE R rpm_key ttl (ZADD R rpm_key now req_id s) else s)
          in ([1, 0, rpm_count + 1, oldest_score R now rpm_key s, tpm_total, tpm_oldest], s))"

definition tpm_record_lua :: "'s redis \<Rightarrow> string \<Rightarrow> int \<Rightarrow> int \<Rightarrow> string \<Rightarrow> string \<Rightarrow> 's \<Rightarrow> int \<times> 's" where
  "tpm_record_lua R key now window req_id tokens s =
     (1, EXPIRE R key (lua_ceil_div (window * 2) 1) (ZADD R key now (req_id @ '':'' @ tokens) s))"

section \<open>The limiter\<close>

record redisLimiter =
  window :: duration
  defaultRPM :: int
  defaultTPM :: int

definition NewRedis :: "RateLimitConfig \<Rightarrow> redisLimiter" where
  "NewRedis cfg = \<lparr>window = 60 * nanosPerSecond, defaultRPM = DefaultRPM cfg, defaultTPM = DefaultTPM cfg\<rparr>"

definition effectiveRPM :: "redisLimiter \<Rightarrow> KeyInfo \<Rightarrow> int" where
  "effectiveRPM r key = (if kiRPM key > 0 then kiRPM key else defaultRPM r)"

definition effectiveTPM :: "redisLimiter \<Rightarrow> KeyInfo \<Rightarrow> int" where
  "effectiveTPM r key = (if kiTPM key > 0 then kiTPM key else defaultTPM r)"

definition rpmKey :: "KeyInfo \<Rightarrow> string" where
  "rpmKey key = ''ratelimit:'' @ kiOrgID key @ '':'' @ kiKeyID key @ '':rpm''"

definition tpmKey :: "KeyInfo \<Rightarrow> string" where
  "tpmKey key = ''ratelimit:'' @ kiOrgID key @ '':'' @ kiKeyID key @ '':tpm''"

text \<open>The process-wide atomic counter is threaded; \<open>instanceID\<close> is the process's random prefix.\<close>

definition newReqID :: "string \<Rightarrow> int \<Rightarrow> 64 word \<Rightarrow> string \<times> 64 word" where
  "newReqID instanceID nowMs counter =
     (let n = counter + 1 in (instanceID @ ''-'' @ Itoa nowMs @ ''-'' @ Itoa (uint n), n))"

record Reservation =
  Allowed :: bool
  Limit :: int
  Remaining :: int
  Reset :: duration
  TpmLimit :: int
  TpmRemaining :: int
  TpmReset :: duration
  resRetryAfter :: duration

definition zeroReservation :: Reservation where
  "zeroReservation = \<lparr>Allowed = False, Limit = 0, Remaining = 0, Reset = 0, TpmLimit = 0, TpmRemaining = 0, TpmReset = 0, resRetryAfter = 0\<rparr>"

definition clampRemaining :: "int \<Rightarrow> int \<Rightarrow> int" where
  "clampRemaining limit used = (if limit \<le> 0 \<or> used \<ge> limit then 0 else limit - used)"

definition computeReset :: "int \<Rightarrow> int \<Rightarrow> int \<Rightarrow> duration" where
  "computeReset nowMs oldestMs windowMs =
     (let elapsed = wrap64 (nowMs - oldestMs);
          remaining = wrap64 (windowMs - elapsed);
          remaining = (if remaining < 0 then 0 else remaining)
      in wrap64 (remaining * nanosPerMilli))"

record checkResult =
  crAllowed :: bool
  crCode :: int
  rpmUsed :: int
  rpmOldestMs :: int
  tpmUsed :: int
  tpmOldestMs :: int

text \<open>A script reply as the client decodes it: an integer, or a value of some other type.\<close>

datatype redis_value = RedisInt int | RedisOther string

fun int_fields :: "string list \<Rightarrow> redis_value list \<Rightarrow> go_error + int list" where
  "int_fields names [] = Inr []"
| "int_fields names (RedisInt n # vs) = (case int_fields (tl names) vs of Inl e \<Rightarrow> Inl e | Inr ns \<Rightarrow> Inr (n # ns))"
| "int_fields names (RedisOther ty # vs) = Inl (ErrText (''check script: '' @ hd names @ '' not int64 ('' @ ty @ '')''))"

definition parseCheckResult :: "redis_value list \<Rightarrow> go_error + checkResult" where
  "parseCheckResult out =
     (if length out \<noteq> 6 then Inl (ErrText (''check script: got '' @ Itoa (int (length out)) @ '' values, want 6''))
      else case int_fields [''allowed'', ''code'', ''rpm_used'', ''rpm_oldest_ms'', ''tpm_used'', ''tpm_oldest_ms''] out of
          Inl e \<Rightarrow> Inl e
        | Inr f \<Rightarrow> Inr \<lparr>crAllowed = (f ! 0 = 1), crCode = f ! 1, rpmUsed = f ! 2, rpmOldestMs = f ! 3,
                        tpmUsed = f ! 4, tpmOldestMs = f ! 5\<rparr>)"

datatype fault = NoFault | FaultBefore go_error | FaultAfter go_error

definition milliseconds :: "duration \<Rightarrow> int" where
  "milliseconds d = d sdiv nanosPerMilli"

definition reservation_of :: "redisLimiter \<Rightarrow> int \<Rightarrow> int \<Rightarrow> int \<Rightarrow> int \<Rightarrow> checkResult \<Rightarrow> Reservation" where
  "reservation_of r rpm tpm nowMs windowMs parsed =
     (let res = zeroReservation\<lparr>Limit := rpm, TpmLimit := tpm, Allowed := crAllowed parsed,
            Reset := computeReset nowMs (rpmOldestMs parsed) windowMs,
            TpmReset := computeReset nowMs (tpmOldestMs parsed) windowMs,
            Remaining := clampRemaining rpm (rpmUsed parsed),
            TpmRemaining := clampRemaining tpm (tpmUsed parsed)\<rparr> in
      if crAllowed parsed then res
      else
        let ra = (if crCode parsed = 1 then Reset res else if crCode parsed = 2 then TpmReset res else 0)
        in res\<lparr>resRetryAfter := (if ra \<le> 0 then window r else ra)\<rparr>)"

definition Reserve ::
  "'s redis \<Rightarrow> (string \<Rightarrow> int option) \<Rightarrow> fault \<Rightarrow> string \<Rightarrow> redisLimiter \<Rightarrow> int \<Rightarrow> KeyInfo \<Rightarrow> 64 word \<times> 's \<Rightarrow>
   (go_error + Reservation) \<times> 64 word \<times> 's"
where
  "Reserve R other flt instanceID r nowMs key st =
     (let (counter, s) = st;
          rpm = effectiveRPM r key; tpm = effectiveTPM r key in
      if rpm \<le> 0 \<and> tpm \<le> 0 then (Inr (zeroReservation\<lparr>Allowed := True\<rparr>), counter, s)
      else
        let windowMs = milliseconds (window r);
            (reqID, counter) = newReqID instanceID nowMs counter;
            (out, s') = check_lua R other (rpmKey key) (tpmKey key) nowMs windowMs rpm tpm reqID s in
        case flt of
          FaultBefore err \<Rightarrow> (Inl err, counter, s)
        | FaultAfter err \<Rightarrow> (Inl err, counter, s')
        | NoFault \<Rightarrow> (case parseCheckResult (map RedisInt out) of
              Inl perr \<Rightarrow> (Inl perr, counter, s')
            | Inr parsed \<Rightarrow> (Inr (reservation_of r rpm tpm nowMs windowMs parsed), counter, s')))"

definition AllowRequest ::
  "'s redis \<Rightarrow> (string \<Rightarrow> int option) \<Rightarrow> fault \<Rightarrow> string \<Rightarrow> redisLimiter \<Rightarrow> int \<Rightarrow> KeyInfo \<Rightarrow> 64 word \<times> 's \<Rightarrow>
   (bool \<times> duration \<times> go_error option) \<times> 64 word \<times> 's"
where
  "AllowRequest R other flt instanceID r nowMs key st =
     (let (res, st') = Reserve R other flt instanceID r nowMs key st in
      case res of
        Inl err \<Rightarrow> ((True, 0, Some err), st')
      | Inr rs \<Rightarrow> ((Allowed rs, resRetryAfter rs, None), st'))"

definition RecordTokens ::
  "'s redis \<Rightarrow> fault \<Rightarrow> string \<Rightarrow> redisLimiter \<Rightarrow> int \<Rightarrow> KeyInfo \<Rightarrow> int \<Rightarrow> 64 word \<times> 's \<Rightarrow> go_error option \<times> 64 word \<times> 's"
where
  "RecordTokens R flt instanceID r nowMs key tokens st =
     (let (counter, s) = st in
      if tokens \<le> 0 then (None, counter, s)
      else if effectiveTPM r key \<le> 0 then (None, counter, s)
      else
        let windowMs = milliseconds (window r);
            (reqID, counter) = newReqID instanceID nowMs counter;
            s' = snd (tpm_record_lua R (tpmKey key) nowMs windowMs reqID (Itoa tokens) s) in
        case flt of
          FaultBefore err \<Rightarrow> (Some err, counter, s)
        | FaultAfter err \<Rightarrow> (Some err, counter, s')
        | NoFault \<Rightarrow> (None, counter, s'))"

section \<open>What the scripts rely on\<close>

locale sorted_sets =
  fixes R :: "'s redis" and zset :: "string \<Rightarrow> 's \<Rightarrow> (string \<times> int) list"
  assumes zset_sorted: "sorted (map snd (zset k s))"
    and zset_distinct: "distinct (map fst (zset k s))"
    and zset_rem: "zset k' (ZREMRANGEBYSCORE R k mx s) = (if k' = k then filter (\<lambda>e. mx < snd e) (zset k s) else zset k' s)"
    and zset_card: "ZCARD R k s = int (length (zset k s))"
    and zset_all: "ZRANGE_all R k s = map fst (zset k s)"
    and zset_first: "ZRANGE_first R k s = (case zset k s of [] \<Rightarrow> None | e # es \<Rightarrow> Some e)"
    and zset_add: "set (zset k (ZADD R k sc m s)) = insert (m, sc) {e \<in> set (zset k s). fst e \<noteq> m}"
    and zset_add_other: "k' \<noteq> k \<Longrightarrow> zset k' (ZADD R k sc m s) = zset k' s"
    and zset_expire: "zset k' (EXPIRE R k ttl s) = zset k' s"

text \<open>The part of a sorted set above a score, and the tokens its members record.\<close>

definition live_part :: "int \<Rightarrow> (string \<times> int) list \<Rightarrow> (string \<times> int) list" where
  "live_part since es = filter (\<lambda>e. since < snd e) es"

definition live_tokens :: "(string \<Rightarrow> int option) \<Rightarrow> int \<Rightarrow> (string \<times> int) list \<Rightarrow> int" where
  "live_tokens other since es = sum_list (map (\<lambda>e. token_count other (fst e)) (live_part since es))"

section \<open>A list-based server\<close>

type_synonym list_server = "(string \<times> (string \<times> int) list) list"

definition server_set :: "string \<Rightarrow> list_server \<Rightarrow> (string \<times> int) list" where
  "server_set k s = (case map_of s k of Some es \<Rightarrow> sort_key snd (AList.clearjunk es) | None \<Rightarrow> [])"

definition list_redis :: "list_server redis" where
  "list_redis = \<lparr>
     ZREMRANGEBYSCORE = (\<lambda>k mx s. AList.update k (filter (\<lambda>e. mx < snd e) (server_set k s)) s),
     ZCARD = (\<lambda>k s. int (length (server_set k s))),
     ZRANGE_all = (\<lambda>k s. map fst (server_set k s)),
     ZRANGE_first = (\<lambda>k s. case server_set k s of [] \<Rightarrow> None | e # es \<Rightarrow> Some e),
     ZADD = (\<lambda>k sc m s. AList.update k ((m, sc) # filter (\<lambda>e. fst e \<noteq> m) (server_set k s)) s),
     EXPIRE = (\<lambda>k ttl s. s)\<rparr>"

section \<open>Histories of one key\<close>

text \<open>
  What can happen to the request set \<open>K\<close> of one API key, with \<open>w\<close> the window in milliseconds and \<open>bnd\<close> a bound of its limit: a check by any gateway process, at a
  clock that does not run backwards and with a request id not used before; anything that leaves the set alone; the server dropping the set once its
  time to live has run out.
\<close>

record 's rl_config =
  clock :: int
  deadline :: "int option"
  server :: 's
  admitted :: "(int \<times> string) list"

inductive rl_step ::
  "'s redis \<Rightarrow> (string \<Rightarrow> 's \<Rightarrow> (string \<times> int) list) \<Rightarrow> (string \<Rightarrow> int option) \<Rightarrow> string \<Rightarrow> int \<Rightarrow> int \<Rightarrow>
   's rl_config \<Rightarrow> 's rl_config \<Rightarrow> bool"
  for R zset other K w bnd
where
  check_allowed: "clock c \<le> now \<Longrightarrow> 0 < rpm_lim \<Longrightarrow> rpm_lim \<le> bnd \<Longrightarrow> tk \<noteq> K \<Longrightarrow> req_id \<notin> snd ` set (admitted c) \<Longrightarrow>
     check_lua R other K tk now w rpm_lim tpm_lim req_id (server c) = (out, s') \<Longrightarrow> out ! 0 = 1 \<Longrightarrow>
     rl_step R zset other K w bnd c (c\<lparr>clock := now, server := s', admitted := (now, req_id) # admitted c,
       deadline := Some (now + 1000 * lua_ceil_div (w * 2) 1000)\<rparr>)"
| check_rejected: "clock c \<le> now \<Longrightarrow> 0 < rpm_lim \<Longrightarrow> tk \<noteq> K \<Longrightarrow>
     check_lua R other K tk now w rpm_lim tpm_lim req_id (server c) = (out, s') \<Longrightarrow> out ! 0 \<noteq> 1 \<Longrightarrow>
     rl_step R zset other K w bnd c (c\<lparr>clock := now, server := s'\<rparr>)"
| elsewhere: "clock c \<le> now \<Longrightarrow> zset K s' = zset K (server c) \<Longrightarrow> rl_step R zset other K w bnd c (c\<lparr>clock := now, server := s'\<rparr>)"
| expired: "deadline c = Some d \<Longrightarrow> d \<le> now \<Longrightarrow> clock c \<le> now \<Longrightarrow> zset K s' = [] \<Longrightarrow>
     rl_step R zset other K w bnd c (c\<lparr>clock := now, server := s', deadline := None\<rparr>)"

inductive_cases rl_stepE: "rl_step R zset other K w bnd c c'"

definition in_window :: "int \<Rightarrow> int \<Rightarrow> (int \<times> string) list \<Rightarrow> (int \<times> string) list" where
  "in_window w t hist = filter (\<lambda>a. t - w < fst a \<and> fst a \<le> t) hist"

definition rl_inv :: "(string \<Rightarrow> 's \<Rightarrow> (string \<times> int) list) \<Rightarrow> string \<Rightarrow> int \<Rightarrow> int \<Rightarrow> 's rl_config \<Rightarrow> bool" where
  "rl_inv zset K w bnd c \<longleftrightarrow>
     distinct (map snd (admitted c)) \<and>
     (\<forall>(n, i) \<in> set (admitted c). n \<le> clock c \<and> (clock c - w < n \<longrightarrow> (i, n) \<in> set (zset K (server c))) \<and>
        (case deadline c of Some d \<Rightarrow> n + 2 * w \<le> d | None \<Rightarrow> True)) \<and>
     (deadline c = None \<longrightarrow> (\<forall>(n, i) \<in> set (admitted c). n + w \<le> clock c)) \<and>
     (\<forall>t. int (length (in_window w t (admitted c))) \<le> bnd)"

definition sample_limiter :: redisLimiter where
  "sample_limiter = \<lparr>window = 60 * nanosPerSecond, defaultRPM = 2, defaultTPM = 100\<rparr>"

definition sample_info :: KeyInfo where
  "sample_info = \<lparr>kiKeyID = ''k'', kiOrgID = ''o'', kiName = ''n'', kiRPM = 0, kiTPM = 0, kiScopes = [], kiExpiresAt = None\<rparr>"

section \<open>The check script\<close>

lemma length_check_out: "check_lua R other rk tk now w rlim tlim i s = (out, s') \<Longrightarrow> length out = 6"
  by (auto simp: check_lua_def Let_def split: if_splits)

context sorted_sets
begin

lemma oldest_zset: "oldest_score R now k s = (case zset k s of [] \<Rightarrow> now | e # es \<Rightarrow> snd e)"
  by (simp add: oldest_score_def zset_first split: list.splits prod.splits)

lemmas zset_simps = zset_rem zset_card zset_all zset_add_other zset_expire oldest_zset

lemma check_allowed_iff:
  assumes "rk \<noteq> tk" "check_lua R other rk tk now w rlim tlim i s = (out, s')"
  shows "out ! 0 = (if (rlim \<le> 0 \<or> int (length (live_part (now - w) (zset rk s))) < rlim) \<and>
      (tlim \<le> 0 \<or> live_tokens other (now - w) (zset tk s) < tlim) then 1 else 0)"
  using assms by (auto simp: check_lua_def Let_def zset_simps live_part_def live_tokens_def comp_def split: if_splits)

lemma check_rejected_set:
  assumes "rk \<noteq> tk" "check_lua R other rk tk now w rlim tlim i s = (out, s')" "out ! 0 \<noteq> 1"
  shows "zset rk s' = live_part (now - w) (zset rk s)"
  using assms by (auto simp: check_lua_def Let_def zset_simps live_part_def split: if_splits)

lemma check_allowed_set:
  assumes "rk \<noteq> tk" "check_lua R other rk tk now w rlim tlim i s = (out, s')" "out ! 0 = 1" "0 < rlim"
  shows "set (zset rk s') = insert (i, now) {e \<in> set (live_part (now - w) (zset rk s)). fst e \<noteq> i}"
  using assms by (auto simp: check_lua_def Let_def zset_simps zset_add live_part_def split: if_splits)

lemma check_other_keys:
  assumes "check_lua R other rk tk now w rlim tlim i s = (out, s')" "k \<noteq> rk" "k \<noteq> tk"
  shows "zset k s' = zset k s"
  using assms by (auto simp: check_lua_def Let_def zset_simps split: if_splits)

lemma check_token_set:
  assumes "rk \<noteq> tk" "check_lua R other rk tk now w rlim tlim i s = (out, s')"
  shows "zset tk s' = zset tk s \<or> zset tk s' = live_part (now - w) (zset tk s)"
  using assms by (auto simp: check_lua_def Let_def zset_simps live_part_def split: if_splits)

lemma record_zset:
  "set (zset k (snd (tpm_record_lua R k now w i tokens s))) = insert (i @ '':'' @ tokens, now) {e \<in> set (zset k s). fst e \<noteq> i @ '':'' @ tokens}"
  "k' \<noteq> k \<Longrightarrow> zset k' (snd (tpm_record_lua R k now w i tokens s)) = zset k' s"
  by (simp_all add: tpm_record_lua_def zset_simps zset_add)

end

section \<open>The sliding window\<close>

lemma lua_ceil_div_ge: "2 * w \<le> 1000 * lua_ceil_div (w * 2) 1000"
proof -
  define q where "q = rat_of_int (w * 2) / rat_of_int 1000"
  have "rat_of_int (w * 2) = 1000 * q" by (simp add: q_def)
  also have "\<dots> \<le> 1000 * of_int \<lceil>q\<rceil>" using le_of_int_ceiling [of q] by (intro mult_left_mono) simp_all
  also have "\<dots> = of_int (1000 * \<lceil>q\<rceil>)" by simp
  finally have "w * 2 \<le> 1000 * \<lceil>q\<rceil>" by (simp only: of_int_le_iff)
  then show ?thesis by (simp add: lua_ceil_div_def q_def)
qed

lemma in_window_Cons: "in_window w t ((n, i) # hist) = (if t - w < n \<and> n \<le> t then (n, i) # in_window w t hist else in_window w t hist)"
  by (simp add: in_window_def)

context sorted_sets
begin

lemma window_counted:
  assumes "rl_inv zset K w bnd c" "clock c \<le> now" "now \<le> t" "0 \<le> w"
  shows "length (in_window w t (admitted c)) \<le> length (live_part (now - w) (zset K (server c)))"
proof -
  let ?A = "in_window w t (admitted c)" and ?L = "live_part (now - w) (zset K (server c))"
  have "distinct (map snd (admitted c))" using assms(1) by (simp add: rl_inv_def)
  then have dA: "distinct (map snd ?A)" unfolding in_window_def by (induction "admitted c" arbitrary: ) (auto simp: distinct_map_filter)
  have "prod.swap ` set ?A \<subseteq> set ?L"
  proof (clarsimp simp: in_window_def live_part_def)
    fix n i assume a: "(n, i) \<in> set (admitted c)" "t - w < n"
    then have "clock c - w < n" using assms(2,3) by simp
    with a(1) assms(1) have "(i, n) \<in> set (zset K (server c))" by (auto simp: rl_inv_def)
    then show "(i, n) \<in> set (zset K (server c)) \<and> now - w < n" using a assms(3) by simp
  qed
  then have "card (prod.swap ` set ?A) \<le> card (set ?L)" by (simp add: card_mono)
  moreover have "card (prod.swap ` set ?A) = length ?A"
  proof -
    have "card (prod.swap ` set ?A) = card (set ?A)" by (intro card_image inj_onI) auto
    then show ?thesis using dA by (simp add: distinct_card distinct_map)
  qed
  moreover have "card (set ?L) \<le> length ?L" by (rule card_length)
  ultimately show ?thesis by simp
qed

lemma rl_inv_step:
  assumes "rl_inv zset K w bnd c" "rl_step R zset other K w bnd c c'" "0 \<le> w"
  shows "rl_inv zset K w bnd c'"
  using assms(2)
proof cases
  case (check_allowed now rpm_lim tk req_id tpm_lim out s')
  let ?L = "live_part (now - w) (zset K (server c))"
  have tk: "K \<noteq> tk" using check_allowed(5) by simp
  have less: "int (length ?L) < bnd"
    using check_allowed_iff [OF tk check_allowed(7)] check_allowed(3,4,8) by (auto split: if_splits)
  have zs: "set (zset K s') = insert (req_id, now) {e \<in> set ?L. fst e \<noteq> req_id}"
    by (rule check_allowed_set [OF tk check_allowed(7,8,3)])
  have dl: "n \<le> now \<Longrightarrow> n + 2 * w \<le> now + 1000 * lua_ceil_div (w * 2) 1000" for n
    using lua_ceil_div_ge [of w] by linarith
  have "int (length (in_window w t ((now, req_id) # admitted c))) \<le> bnd" for t
  proof (cases "t - w < now \<and> now \<le> t")
    case True
    then have "length (in_window w t (admitted c)) \<le> length ?L"
      by (intro window_counted [OF assms(1) check_allowed(2) _ assms(3)]) simp
    with less True show ?thesis by (simp add: in_window_Cons)
  next
    case False
    then have "in_window w t ((now, req_id) # admitted c) = in_window w t (admitted c)"
      by (simp only: in_window_Cons if_False)
    then show ?thesis using assms(1) by (simp add: rl_inv_def)
  qed
  moreover have "(i, n) \<in> set (zset K s')" if "(n, i) \<in> set (admitted c)" "now - w < n" for n i
  proof -
    have "clock c - w < n" using that check_allowed(2) by simp
    then have "(i, n) \<in> set ?L" using that assms(1) by (auto simp: rl_inv_def live_part_def)
    moreover have "i \<noteq> req_id" using that check_allowed(6) by force
    ultimately show ?thesis by (simp add: zs)
  qed
  moreover have le: "n \<le> now" if "(n, i) \<in> set (admitted c)" for n i
    using that assms(1) check_allowed(2) by (fastforce simp: rl_inv_def)
  moreover have "n + 2 * w \<le> now + 1000 * lua_ceil_div (w * 2) 1000" if "(n, i) \<in> set (admitted c)" for n i
    using le [OF that] by (rule dl)
  moreover have "w \<le> 500 * lua_ceil_div (w * 2) 1000" using lua_ceil_div_ge [of w] by simp
  ultimately show ?thesis
    using assms(1) check_allowed(6) unfolding check_allowed(1) by (auto simp: rl_inv_def zs image_iff)
next
  case (check_rejected now rpm_lim tk tpm_lim req_id out s')
  have tk: "K \<noteq> tk" using check_rejected(4) by simp
  have "zset K s' = live_part (now - w) (zset K (server c))"
    by (rule check_rejected_set [OF tk check_rejected(5,6)])
  then show ?thesis using assms(1) check_rejected(2) unfolding check_rejected(1)
    by (fastforce simp: rl_inv_def live_part_def split: option.splits)
next
  case (elsewhere now s')
  then show ?thesis using assms(1) by (fastforce simp: rl_inv_def split: option.splits)
next
  case (expired d now s')
  have "n + w \<le> now" if "(n, i) \<in> set (admitted c)" for n i
    using that assms(1,3) expired(2,3) by (fastforce simp: rl_inv_def)
  then show ?thesis using assms(1) expired unfolding expired(1)
    by (fastforce simp: rl_inv_def)
qed

lemma rl_inv_reachable:
  assumes "(rl_step R zset other K w bnd)\<^sup>*\<^sup>* c c'" "rl_inv zset K w bnd c" "0 \<le> w"
  shows "rl_inv zset K w bnd c'"
  using assms by (induction rule: rtranclp_induct) (auto intro: rl_inv_step)

end

section \<open>The list-based server meets the interface\<close>

lemma distinct_fst_sort: "distinct (map fst (sort_key f xs)) \<longleftrightarrow> distinct (map fst xs)"
  by (rule mset_eq_imp_distinct_iff) (simp add: mset_map)

lemma server_set_ok: "sorted (map snd (server_set k s))" "distinct (map fst (server_set k s))"
  by (simp_all add: server_set_def distinct_fst_sort split: option.splits)

lemma server_set_update:
  "server_set k' (AList.update k es s) = (if k' = k then sort_key snd (AList.clearjunk es) else server_set k' s)"
  by (simp add: server_set_def update_conv')

lemma distinct_fst_filter: "distinct (map fst xs) \<Longrightarrow> distinct (map fst (filter P xs))"
  by (simp add: distinct_map_filter)

interpretation list_server: sorted_sets list_redis server_set
proof unfold_locales
  fix k k' m :: string and s :: list_server and sc mx :: int
  show "server_set k' (ZREMRANGEBYSCORE list_redis k mx s) =
      (if k' = k then filter (\<lambda>e. mx < snd e) (server_set k s) else server_set k' s)"
    using server_set_ok [of k s]
    by (simp add: list_redis_def server_set_update distinct_fst_filter sorted_filter sort_key_id_if_sorted)
  show "set (server_set k (ZADD list_redis k sc m s)) = insert (m, sc) {e \<in> set (server_set k s). fst e \<noteq> m}"
  proof -
    let ?es = "(m, sc) # filter (\<lambda>e. fst e \<noteq> m) (server_set k s)"
    have "distinct (map fst ?es)" using server_set_ok(2) [of k s] by (auto simp: distinct_fst_filter)
    then have "AList.clearjunk ?es = ?es" by (rule distinct_clearjunk_id)
    then have "server_set k (ZADD list_redis k sc m s) = sort_key snd ?es"
      by (simp only: list_redis_def redis.select_convs server_set_update if_True refl)
    then show ?thesis by (simp only: set_sort) auto
  qed
qed (simp_all add: server_set_ok list_redis_def server_set_update)

section \<open>Request ids and token members\<close>

lemma nat_digits_no: "c \<in> set (nat_digits n) \<Longrightarrow> c \<noteq> CHR '':'' \<and> c \<noteq> CHR ''-''"
  using nat_digits_are_digits [of c n] by (auto simp: is_digit_def)

lemma takeWhile_rev_suffix: "c \<notin> set t \<Longrightarrow> takeWhile (\<lambda>x. x \<noteq> c) (rev (a @ [c] @ t)) = rev t"
  using takeWhile_append2 [of "rev t" "\<lambda>x. x \<noteq> c" "c # rev a"] by auto

lemma after_last_colon_append: "CHR '':'' \<notin> set t \<Longrightarrow> after_last_colon (i @ '':'' @ t) = Some t"
  using takeWhile_rev_suffix [of "CHR '':''" t i] by (simp add: after_last_colon_def)

lemma token_count_member:
  assumes "0 \<le> n"
  shows "token_count other (i @ '':'' @ Itoa n) = n"
proof -
  have t: "Itoa n = nat_digits (nat n)" using assms by (simp add: Itoa_def)
  have "CHR '':'' \<notin> set (Itoa n)" unfolding t using nat_digits_no by blast
  then have "after_last_colon (i @ '':'' @ Itoa n) = Some (Itoa n)" by (rule after_last_colon_append)
  moreover have "lua_tonumber other (Itoa n) = Some n"
    unfolding t lua_tonumber_def using assms by (simp add: parse_digits_nat_digits list_all_iff nat_digits_are_digits)
  ultimately show ?thesis by (simp add: token_count_def)
qed

lemma last_dash_split:
  assumes "CHR ''-'' \<notin> set d" "CHR ''-'' \<notin> set d'" "a @ ''-'' @ d = a' @ ''-'' @ d'"
  shows "a = a' \<and> d = d'"
proof -
  have "takeWhile (\<lambda>c. c \<noteq> CHR ''-'') (rev (a @ ''-'' @ d)) = rev d" "takeWhile (\<lambda>c. c \<noteq> CHR ''-'') (rev (a' @ ''-'' @ d')) = rev d'"
    by (rule takeWhile_rev_suffix [OF assms(1)], rule takeWhile_rev_suffix [OF assms(2)])
  with assms(3) have "d = d'" by simp
  with assms(3) show ?thesis by simp
qed

lemma Itoa_inj:
  assumes "Itoa m = Itoa n" "0 \<le> m" "0 \<le> n"
  shows "m = n"
proof -
  have "nat_digits (nat m) = nat_digits (nat n)" using assms by (simp add: Itoa_def)
  then have "nat m = nat n" by (rule nat_digits_inj)
  with assms(2,3) show ?thesis by simp
qed

lemma newReqID_inj:
  assumes "fst (newReqID p t c) = fst (newReqID p' t' c')" "0 \<le> t" "0 \<le> t'"
  shows "p = p' \<and> t = t' \<and> c = c'"
proof -
  have d: "CHR ''-'' \<notin> set (Itoa n)" if "0 \<le> n" for n using that nat_digits_no by (auto simp: Itoa_def)
  have "(p @ ''-'' @ Itoa t) @ ''-'' @ Itoa (uint (c + 1)) = (p' @ ''-'' @ Itoa t') @ ''-'' @ Itoa (uint (c' + 1))"
    using assms(1) by (simp add: newReqID_def Let_def)
  from last_dash_split [OF d d this] have 1: "p @ ''-'' @ Itoa t = p' @ ''-'' @ Itoa t'" "Itoa (uint (c + 1)) = Itoa (uint (c' + 1))" by simp_all
  from last_dash_split [OF d d 1(1)] assms(2,3) have 2: "p = p'" "Itoa t = Itoa t'" by simp_all
  have "uint (c + 1) = uint (c' + 1)" by (rule Itoa_inj [OF 1(2)]) simp_all
  moreover have "t = t'" by (rule Itoa_inj [OF 2(2) assms(2,3)])
  ultimately show ?thesis using 2(1) by (simp add: word_uint_eq_iff [symmetric])
qed

section \<open>Reservations\<close>

lemma rpm_tpm_keys: "rpmKey k \<noteq> tpmKey k'"
proof
  assume "rpmKey k = tpmKey k'"
  then have "last (butlast (rpmKey k)) = last (butlast (tpmKey k'))" by simp
  then have "CHR ''p'' = last (butlast (tpmKey k'))" by (simp add: rpmKey_def butlast_append)
  moreover have "hd (drop 2 (rev (rpmKey k))) = hd (drop 2 (rev (tpmKey k')))" using \<open>rpmKey k = tpmKey k'\<close> by simp
  ultimately show False by (simp add: rpmKey_def tpmKey_def)
qed

lemma parse_ints:
  "length out = 6 \<Longrightarrow> parseCheckResult (map RedisInt out) = Inr \<lparr>crAllowed = (out ! 0 = 1), crCode = out ! 1, rpmUsed = out ! 2,
     rpmOldestMs = out ! 3, tpmUsed = out ! 4, tpmOldestMs = out ! 5\<rparr>"
proof -
  have f: "int_fields names (map RedisInt xs) = Inr xs" for names xs
    by (induction xs arbitrary: names) simp_all
  assume "length out = 6"
  then show ?thesis by (simp add: parseCheckResult_def f)
qed

lemma computeReset_live:
  assumes "now - w < sc" "sc \<le> now" "0 \<le> w" "w \<le> 2 ^ 40" "0 \<le> sc" "now \<le> 2 ^ 62"
  shows "computeReset now sc w = (sc + w - now) * 1000000"
proof -
  have e: "wrap64 (now - sc) = now - sc" using assms by (intro wrap64_id) (simp add: in_int64_def)
  have r: "wrap64 (w - (now - sc)) = sc + w - now" using assms by (subst wrap64_id) (simp_all add: in_int64_def)
  have "wrap64 ((sc + w - now) * 1000000) = (sc + w - now) * 1000000"
    using assms by (intro wrap64_id) (simp add: in_int64_def)
  then show ?thesis using assms(1) by (simp add: computeReset_def Let_def e r nanosPerMilli_def)
qed

lemma Reserve_runs:
  assumes "0 < effectiveRPM r key \<or> 0 < effectiveTPM r key"
    and "check_lua R other (rpmKey key) (tpmKey key) nowMs (milliseconds (window r)) (effectiveRPM r key) (effectiveTPM r key)
      (fst (newReqID pid nowMs n)) s = (out, s')"
  shows "Reserve R other NoFault pid r nowMs key (n, s) =
    (Inr (reservation_of r (effectiveRPM r key) (effectiveTPM r key) nowMs (milliseconds (window r))
       \<lparr>crAllowed = (out ! 0 = 1), crCode = out ! 1, rpmUsed = out ! 2, rpmOldestMs = out ! 3, tpmUsed = out ! 4, tpmOldestMs = out ! 5\<rparr>),
     n + 1, s')"
proof -
  have "\<not> (effectiveRPM r key \<le> 0 \<and> effectiveTPM r key \<le> 0)" using assms(1) by linarith
  moreover have "snd (newReqID pid nowMs n) = n + 1" by (simp add: newReqID_def Let_def)
  ultimately show ?thesis
    using assms(2) parse_ints [OF length_check_out [OF assms(2)]] by (simp add: Reserve_def Let_def split_def)
qed

lemma reservation_fields:
  "Allowed (reservation_of r rpm tpm now w p) = crAllowed p"
  "Limit (reservation_of r rpm tpm now w p) = rpm" "TpmLimit (reservation_of r rpm tpm now w p) = tpm"
  "Remaining (reservation_of r rpm tpm now w p) = clampRemaining rpm (rpmUsed p)"
  "TpmRemaining (reservation_of r rpm tpm now w p) = clampRemaining tpm (tpmUsed p)"
  "resRetryAfter (reservation_of r rpm tpm now w p) = (if crAllowed p then 0 else
     let ra = (if crCode p = 1 then computeReset now (rpmOldestMs p) w else if crCode p = 2 then computeReset now (tpmOldestMs p) w else 0)
     in if ra \<le> 0 then window r else ra)"
  by (simp_all add: reservation_of_def Let_def zeroReservation_def)

lemma sorted_hd_le: "sorted (map snd xs) \<Longrightarrow> xs \<noteq> [] \<Longrightarrow> e \<in> set xs \<Longrightarrow> snd (hd xs) \<le> snd e"
  by (cases xs) auto

context sorted_sets
begin

lemma check_used:
  assumes "rk \<noteq> tk" "check_lua R other rk tk now w rlim tlim i s = (out, s')"
  shows "out ! 2 = int (length (live_part (now - w) (zset rk s))) + out ! 0"
  using assms by (auto simp: check_lua_def Let_def zset_simps live_part_def split: if_splits)

lemma check_reject_code:
  assumes "rk \<noteq> tk" "check_lua R other rk tk now w rlim tlim i s = (out, s')" "out ! 0 \<noteq> 1"
  shows "out ! 1 = 1 \<and> 0 < rlim \<and> rlim \<le> int (length (live_part (now - w) (zset rk s))) \<and>
      out ! 3 = snd (hd (live_part (now - w) (zset rk s))) \<or>
    out ! 1 = 2 \<and> 0 < tlim \<and> tlim \<le> live_tokens other (now - w) (zset tk s) \<and>
      out ! 5 = snd (hd (live_part (now - w) (zset tk s)))"
  using assms by (auto simp: check_lua_def Let_def zset_simps live_part_def live_tokens_def comp_def split: if_splits list.splits)

lemma live_hd:
  assumes "live_part since (zset k s) \<noteq> []"
  shows "hd (live_part since (zset k s)) \<in> set (zset k s)" "since < snd (hd (live_part since (zset k s)))"
  using hd_in_set [OF assms] by (auto simp: live_part_def)

lemma oldest_leaves:
  assumes "live_part since (zset k s) \<noteq> []" "snd (hd (live_part since (zset k s))) \<le> since'"
  shows "length (live_part since' (zset k s)) < length (live_part since (zset k s))"
proof -
  let ?L = "live_part since (zset k s)"
  have "since \<le> since'" using live_hd(2) [OF assms(1)] assms(2) by simp
  then have "live_part since' (zset k s) = filter (\<lambda>e. since' < snd e) ?L" by (auto simp: live_part_def intro: filter_cong)
  moreover have "\<not> since' < snd (hd ?L)" using assms(2) by simp
  then have "length (filter (\<lambda>e. since' < snd e) ?L) < length ?L"
    using hd_in_set [OF assms(1)] by (intro length_filter_less)
  ultimately show ?thesis by simp
qed

lemma record_live_tokens:
  assumes "i @ '':'' @ tokens \<notin> fst ` set (zset k s)" "since < now"
  shows "live_tokens other since (zset k (snd (tpm_record_lua R k now w i tokens s))) =
    live_tokens other since (zset k s) + token_count other (i @ '':'' @ tokens)"
proof -
  let ?m = "(i @ '':'' @ tokens, now)" and ?f = "\<lambda>e. token_count other (fst e)"
  let ?s' = "snd (tpm_record_lua R k now w i tokens s)"
  have sum: "live_tokens other since (zset k x) = sum ?f {e \<in> set (zset k x). since < snd e}" for x
  proof -
    have "distinct (live_part since (zset k x))" using zset_distinct [of k x] by (simp add: live_part_def distinct_map)
    then show ?thesis by (simp add: live_tokens_def sum_list_distinct_conv_sum_set live_part_def)
  qed
  have "\<forall>e \<in> set (zset k s). fst e \<noteq> i @ '':'' @ tokens" using assms(1) by (metis imageI)
  then have "{e \<in> set (zset k s). fst e \<noteq> i @ '':'' @ tokens} = set (zset k s)" by blast
  then have "set (zset k ?s') = insert ?m (set (zset k s))" unfolding record_zset(1) by (rule arg_cong)
  then have "{e \<in> set (zset k ?s'). since < snd e} = insert ?m {e \<in> set (zset k s). since < snd e}" using assms(2) by auto
  moreover have "?m \<notin> set (zset k s)" using assms(1) by (metis imageI fst_conv)
  ultimately show ?thesis by (simp add: sum)
qed

end

section \<open>Properties\<close>

text \<open>
  C4. The sliding window holds: whatever checks the gateway processes run against one key's request set, in any order and interleaved with anything else that leaves
  the set alone, with the server free to drop the set when its time to live runs out, at most \<open>bnd\<close> requests are admitted in any interval of one window's
  length, \<open>bnd\<close> being a bound of the limits the checks pass.
\<close>

theorem rpm_window_bound:
  assumes "sorted_sets R zset" "(rl_step R zset other K w bnd)\<^sup>*\<^sup>* c0 c" "admitted c0 = []" "0 \<le> w" "0 \<le> bnd"
  shows "int (length (in_window w t (admitted c))) \<le> bnd"
proof -
  have "rl_inv zset K w bnd c0" using assms(3,5) by (simp add: rl_inv_def in_window_def split: option.splits)
  then have "rl_inv zset K w bnd c" by (rule sorted_sets.rl_inv_reachable [OF assms(1,2) _ assms(4)])
  then show ?thesis by (simp add: rl_inv_def)
qed

theorem rpm_window_bound_witness:
  "\<exists>c. (rl_step list_redis server_set (\<lambda>_. None) ''rk'' 60000 1)\<^sup>*\<^sup>*
      \<lparr>clock = 0, deadline = None, server = [], admitted = []\<rparr> c \<and> admitted c = [(1000, ''a'')] \<and> clock c = 2000 \<and>
      int (length (in_window 60000 1500 (admitted c))) \<le> 1"
proof -
  let ?c0 = "\<lparr>clock = 0, deadline = None, server = [] :: list_server, admitted = []\<rparr>"
  let ?c1 = "?c0\<lparr>clock := 1000, server := [(''rk'', [(''a'', 1000)])], admitted := [(1000, ''a'')],
      deadline := Some (1000 + 1000 * lua_ceil_div (60000 * 2) 1000)\<rparr>"
  let ?c2 = "?c1\<lparr>clock := 2000, server := [(''rk'', [(''a'', 1000)])]\<rparr>"
  let ?step = "rl_step list_redis server_set (\<lambda>_. None) ''rk'' 60000 1"
  have "check_lua list_redis (\<lambda>_. None) ''rk'' ''tk'' 1000 60000 1 0 ''a'' [] = ([1, 0, 1, 1000, 0, 1000], [(''rk'', [(''a'', 1000)])])"
    by code_simp
  then have 1: "?step ?c0 ?c1"
    using rl_step.check_allowed [of ?c0 1000 1 1 "''tk''" "''rk''" "''a''" list_redis "\<lambda>_. None" 60000 0] by simp
  have "check_lua list_redis (\<lambda>_. None) ''rk'' ''tk'' 2000 60000 1 0 ''b'' [(''rk'', [(''a'', 1000)])] =
      ([0, 1, 1, 1000, 0, 2000], [(''rk'', [(''a'', 1000)])])"
    by code_simp
  then have 2: "?step ?c1 ?c2"
    using rl_step.check_rejected [of ?c1 2000 1 "''tk''" "''rk''" list_redis "\<lambda>_. None" 60000 0 "''b''"] by simp
  have "?step\<^sup>*\<^sup>* ?c0 ?c2" using 1 2 by (blast intro: rtranclp.intros)
  from this rpm_window_bound [OF list_server.sorted_sets_axioms this, of 1500] show ?thesis by (intro exI [of _ ?c2]) simp
qed

text \<open>
  C13. A reservation that reaches the server is granted exactly when the key's live requests are below its effective request limit and its live tokens below its
  effective token limit, a limit of zero being no limit. A refusal adds nothing to the request set; a grant adds the request at the current time, and the remaining
  quota it reports is what the set then leaves.
\<close>

theorem Reserve_decision:
  assumes "sorted_sets R zset" "0 < effectiveRPM r key \<or> 0 < effectiveTPM r key"
    and res: "Reserve R other NoFault pid r nowMs key (n, s) = (Inr res, n', s')"
  shows "let since = nowMs - milliseconds (window r);
             live = live_part since (zset (rpmKey key) s);
             req_id = fst (newReqID pid nowMs n)
         in (Allowed res \<longleftrightarrow> (effectiveRPM r key \<le> 0 \<or> int (length live) < effectiveRPM r key) \<and>
               (effectiveTPM r key \<le> 0 \<or> live_tokens other since (zset (tpmKey key) s) < effectiveTPM r key)) \<and>
            (\<not> Allowed res \<longrightarrow> zset (rpmKey key) s' = live) \<and>
            (Allowed res \<and> 0 < effectiveRPM r key \<longrightarrow>
               set (zset (rpmKey key) s') = insert (req_id, nowMs) {e \<in> set live. fst e \<noteq> req_id} \<and>
               Remaining res = effectiveRPM r key - int (length live) - 1)"
proof -
  let ?since = "nowMs - milliseconds (window r)" and ?id = "fst (newReqID pid nowMs n)"
  let ?live = "live_part ?since (zset (rpmKey key) s)"
  obtain out s'' where c: "check_lua R other (rpmKey key) (tpmKey key) nowMs (milliseconds (window r)) (effectiveRPM r key)
      (effectiveTPM r key) ?id s = (out, s'')" by fastforce
  note facts = sorted_sets.check_allowed_iff [OF assms(1) rpm_tpm_keys c] sorted_sets.check_used [OF assms(1) rpm_tpm_keys c]
    sorted_sets.check_rejected_set [OF assms(1) rpm_tpm_keys c] sorted_sets.check_allowed_set [OF assms(1) rpm_tpm_keys c]
  have a: "Allowed res \<longleftrightarrow> out ! 0 = 1" and s: "s' = s''" and rm: "Remaining res = clampRemaining (effectiveRPM r key) (out ! 2)"
    using res unfolding Reserve_runs [OF assms(2) c] by (auto simp: reservation_fields)
  have "Allowed res \<longleftrightarrow> (effectiveRPM r key \<le> 0 \<or> int (length ?live) < effectiveRPM r key) \<and>
      (effectiveTPM r key \<le> 0 \<or> live_tokens other ?since (zset (tpmKey key) s) < effectiveTPM r key)"
    unfolding a facts(1) by simp
  moreover have "zset (rpmKey key) s' = ?live" if "\<not> Allowed res"
    using facts(3) that unfolding a s by simp
  moreover have "set (zset (rpmKey key) s') = insert (?id, nowMs) {e \<in> set ?live. fst e \<noteq> ?id} \<and>
      Remaining res = effectiveRPM r key - int (length ?live) - 1" if "Allowed res" "0 < effectiveRPM r key"
  proof -
    have o: "out ! 0 = 1" using that(1) a by simp
    have "int (length ?live) < effectiveRPM r key" using facts(1) o that(2) by (auto split: if_splits)
    then have "Remaining res = effectiveRPM r key - int (length ?live) - 1"
      using facts(2) that(2) unfolding rm o by (simp add: clampRemaining_def)
    then show ?thesis using facts(4) [OF o that(2)] unfolding s by simp
  qed
  ultimately show ?thesis unfolding Let_def by blast
qed

theorem Reserve_decision_witness:
  "\<exists>res s'. Reserve list_redis (\<lambda>_. None) NoFault ''p'' sample_limiter 9 sample_info (0, []) = (Inr res, 1, s') \<and>
    Allowed res \<and> Remaining res = 1"
proof -
  have r: "Reserve list_redis (\<lambda>_. None) NoFault ''p'' sample_limiter 9 sample_info (0, []) =
    (Inr \<lparr>Allowed = True, Limit = 2, Remaining = 1, Reset = 60000000000, TpmLimit = 100, TpmRemaining = 100, TpmReset = 60000000000,
       resRetryAfter = 0\<rparr>, 1, [(''ratelimit:o:k:rpm'', [(''p-9-1'', 9)]), (''ratelimit:o:k:tpm'', [])])"
    by code_simp
  have lim: "effectiveRPM sample_limiter sample_info = 2" "effectiveTPM sample_limiter sample_info = 100" by code_simp+
  have "server_set k [] = []" for k by (simp add: server_set_def)
  then show ?thesis
    using Reserve_decision [OF list_server.sorted_sets_axioms _ r] r by (simp add: lim Let_def live_part_def live_tokens_def)
qed



text \<open>
  C26. Recorded usage comes back in the sum: after tokens are recorded for a key that has a token limit, the live tokens a check at any time within the window computes
  have grown by exactly that number, whatever the server held before; the member is new because request ids are.
\<close>

theorem RecordTokens_counted:
  assumes "sorted_sets R zset" "0 < tokens" "0 < effectiveTPM r key" "since < nowMs"
    and "fst (newReqID pid nowMs n) @ '':'' @ Itoa tokens \<notin> fst ` set (zset (tpmKey key) s)"
    and "RecordTokens R NoFault pid r nowMs key tokens (n, s) = (err, n', s')"
  shows "err = None \<and> live_tokens other since (zset (tpmKey key) s') = live_tokens other since (zset (tpmKey key) s) + tokens \<and>
    zset (rpmKey key) s' = zset (rpmKey key) s"
proof -
  let ?id = "fst (newReqID pid nowMs n)"
  have s': "s' = snd (tpm_record_lua R (tpmKey key) nowMs (milliseconds (window r)) ?id (Itoa tokens) s)" and e: "err = None"
    using assms(2,3,6) by (auto simp: RecordTokens_def Let_def split_def)
  show ?thesis unfolding s' e
    using sorted_sets.record_live_tokens [OF assms(1,5,4), of other] sorted_sets.record_zset(2) [OF assms(1) rpm_tpm_keys]
      token_count_member [of tokens other ?id] assms(2)
    by simp
qed

theorem RecordTokens_counted_witness:
  "live_tokens (\<lambda>_. None) 0 (server_set (tpmKey sample_info)
     (snd (snd (RecordTokens list_redis NoFault ''p'' sample_limiter 9 sample_info 42 (0, []))))) = 42"
proof -
  obtain err n' s' where r: "RecordTokens list_redis NoFault ''p'' sample_limiter 9 sample_info 42 (0, []) = (err, n', s')"
    by (metis surj_pair)
  have "0 < effectiveTPM sample_limiter sample_info" by code_simp
  then have "live_tokens (\<lambda>_. None) 0 (server_set (tpmKey sample_info) s') = live_tokens (\<lambda>_. None) 0 (server_set (tpmKey sample_info) []) + 42"
    using RecordTokens_counted [OF list_server.sorted_sets_axioms _ _ _ _ r, of 0 "\<lambda>_. None"] by (simp add: server_set_def)
  then show ?thesis by (simp add: r server_set_def live_tokens_def live_part_def)
qed

text \<open>
  Request ids do not collide: ids drawn under different process prefixes, or by one process at different values of its 64-bit counter, are different strings,
  whatever the times at which they are drawn.
\<close>

theorem newReqID_unique:
  assumes "0 \<le> t" "0 \<le> t'" "(p, c) \<noteq> (p', c')"
  shows "fst (newReqID p t c) \<noteq> fst (newReqID p' t' c')"
  using newReqID_inj [OF _ assms(1,2)] assms(3) by blast

theorem newReqID_unique_witness: "fst (newReqID ''a1'' 1000 7) \<noteq> fst (newReqID ''a1'' 1000 8)"
  by (rule newReqID_unique) simp_all

end
