(* ===== verification/Json.thy ===== *)
theory Json
  imports Gateway_Prelude
begin

text \<open>
  JSON text as Go's \<^verbatim>\<open>encoding/json\<close> reads and writes it, on byte strings: the string escapes and the UTF-8 coercion, the number automaton, and a scanner that
  keeps its nesting on an explicit stack, as the library's does. Reading distinguishes a syntax error from running out of input, which the request size limit
  depends on. The main result is that what is written is read back.
\<close>

section \<open>Values\<close>

datatype json =
    JNull
  | JBool bool
  | JNum string
  | JStr string
  | JArr "json list"
  | JObj "(string \<times> json) list"

datatype 'a parsed = Done 'a string | Bad | More

fun prepend :: "string \<Rightarrow> string parsed \<Rightarrow> string parsed" where
  "prepend p (Done a s) = Done (p @ a) s"
| "prepend p Bad = Bad"
| "prepend p More = More"

abbreviation byte :: "char \<Rightarrow> nat" where
  "byte c \<equiv> of_char c"

section \<open>UTF-8\<close>

definition cont_byte :: "nat \<Rightarrow> nat \<Rightarrow> char \<Rightarrow> bool" where
  "cont_byte lo hi c \<longleftrightarrow> lo \<le> byte c \<and> byte c \<le> hi"

text \<open>The width of the code point a byte string starts with, 0 when it starts with none: \<^verbatim>\<open>utf8.DecodeRune\<close>.\<close>

fun utf8_width :: "string \<Rightarrow> nat" where
  "utf8_width [] = 0"
| "utf8_width (a # s) =
     (let n = byte a; tail = cont_byte 128 191 in
      if n < 128 then 1
      else if 194 \<le> n \<and> n \<le> 223 then (case s of b # _ \<Rightarrow> if tail b then 2 else 0 | _ \<Rightarrow> 0)
      else if 224 \<le> n \<and> n \<le> 239 then
        (case s of b # c # _ \<Rightarrow>
           if cont_byte (if n = 224 then 160 else 128) (if n = 237 then 159 else 191) b \<and> tail c then 3 else 0 | _ \<Rightarrow> 0)
      else if 240 \<le> n \<and> n \<le> 244 then
        (case s of b # c # d # _ \<Rightarrow>
           if cont_byte (if n = 240 then 144 else 128) (if n = 244 then 143 else 191) b \<and> tail c \<and> tail d then 4 else 0 | _ \<Rightarrow> 0)
      else 0)"

function valid_utf8 :: "string \<Rightarrow> bool" where
  "valid_utf8 s = (if s = [] then True else if utf8_width s = 0 then False else valid_utf8 (drop (utf8_width s) s))"
  by pat_completeness auto
termination
  by (relation "measure length") auto

declare valid_utf8.simps [simp del]

definition utf8_encode :: "nat \<Rightarrow> string" where
  "utf8_encode r = map char_of
     (if r < 128 then [r]
      else if r < 2048 then [192 + r div 64, 128 + r mod 64]
      else if r < 65536 then [224 + r div 4096, 128 + r div 64 mod 64, 128 + r mod 64]
      else [240 + r div 262144, 128 + r div 4096 mod 64, 128 + r div 64 mod 64, 128 + r mod 64])"

definition RuneError :: string where
  "RuneError = utf8_encode 0xFFFD"

section \<open>Strings\<close>

definition hex_char :: "nat \<Rightarrow> char" where
  "hex_char n = ''0123456789abcdef'' ! n"

definition hex_value :: "char \<Rightarrow> nat option" where
  "hex_value c = (let n = byte c in
     if 48 \<le> n \<and> n \<le> 57 then Some (n - 48)
     else if 97 \<le> n \<and> n \<le> 102 then Some (n - 87)
     else if 65 \<le> n \<and> n \<le> 70 then Some (n - 55)
     else None)"

definition u_escape :: "nat \<Rightarrow> string" where
  "u_escape r = [CHR 0x5C, CHR ''u'', hex_char (r div 4096 mod 16), hex_char (r div 256 mod 16), hex_char (r div 16 mod 16), hex_char (r mod 16)]"

text \<open>The two-character escapes, in the order character, letter.\<close>

definition escapes :: "(char \<times> char) list" where
  "escapes = [(CHR 0x22, CHR 0x22), (CHR 0x5C, CHR 0x5C), (CHR 0x08, CHR ''b''), (CHR 0x0C, CHR ''f''), (CHR 0x0A, CHR ''n''),
     (CHR 0x0D, CHR ''r''), (CHR 0x09, CHR ''t'')]"

definition quote_ascii :: "char \<Rightarrow> string" where
  "quote_ascii c =
     (case map_of escapes c of
        Some e \<Rightarrow> [CHR 0x5C, e]
      | None \<Rightarrow> if byte c < 32 \<or> c \<in> set ''<>&'' then u_escape (byte c) else [c])"

function quote_chars :: "string \<Rightarrow> string" where
  "quote_chars s =
     (case s of
        [] \<Rightarrow> []
      | c # cs \<Rightarrow>
          if byte c < 128 then quote_ascii c @ quote_chars cs
          else let n = utf8_width s in
            if n = 0 then u_escape 0xFFFD @ quote_chars cs
            else (if take n s = utf8_encode 0x2028 then u_escape 0x2028
                  else if take n s = utf8_encode 0x2029 then u_escape 0x2029
                  else take n s) @ quote_chars (drop n s))"
  by pat_completeness auto
termination
  by (relation "measure length") auto

declare quote_chars.simps [simp del]

definition json_quote :: "string \<Rightarrow> string" where
  "json_quote s = [CHR 0x22] @ quote_chars s @ [CHR 0x22]"

text \<open>The scanner's pass over a string literal after its opening quote; the result is the raw text up to the closing one.\<close>

fun scan_hex :: "nat \<Rightarrow> string \<Rightarrow> string parsed" where
  "scan_hex 0 s = Done [] s"
| "scan_hex (Suc n) [] = More"
| "scan_hex (Suc n) (c # s) = (if hex_value c = None then Bad else prepend [c] (scan_hex n s))"

lemma scan_hex_length: "scan_hex n s = Done h r \<Longrightarrow> length r \<le> length s"
proof (induction n s arbitrary: h rule: scan_hex.induct)
  case (3 n c s)
  then show ?case by (cases "scan_hex n s") (auto split: if_splits)
qed auto

function scan_string :: "string \<Rightarrow> string parsed" where
  "scan_string [] = More"
| "scan_string (c # s) =
     (if c = CHR 0x22 then Done [] s
      else if byte c < 32 then Bad
      else if c = CHR 0x5C then
        (case s of
           [] \<Rightarrow> More
         | e # s' \<Rightarrow>
             if e \<in> set ''bfnrt/'' \<or> e = CHR 0x5C \<or> e = CHR 0x22 then prepend [c, e] (scan_string s')
             else if e = CHR ''u'' then
               (case scan_hex 4 s' of
                  Done h r \<Rightarrow> prepend ([c, e] @ h) (scan_string r)
                | Bad \<Rightarrow> Bad
                | More \<Rightarrow> More)
             else Bad)
      else prepend [c] (scan_string s))"
  by pat_completeness auto
termination
  by (relation "measure length") (auto dest: scan_hex_length)

declare scan_string.simps [simp del]

definition hex4 :: "char \<Rightarrow> char \<Rightarrow> char \<Rightarrow> char \<Rightarrow> nat" where
  "hex4 a b c d = (let v = (\<lambda>x. case hex_value x of Some n \<Rightarrow> n | None \<Rightarrow> 0) in ((v a * 16 + v b) * 16 + v c) * 16 + v d)"

definition is_surrogate :: "nat \<Rightarrow> bool" where
  "is_surrogate r \<longleftrightarrow> 0xD800 \<le> r \<and> r < 0xE000"

text \<open>\<^verbatim>\<open>utf16.DecodeRune\<close> on a surrogate and the escape that follows it.\<close>

definition decode_pair :: "nat \<Rightarrow> string \<Rightarrow> nat option" where
  "decode_pair r s =
     (case s of
        bs # u # a # b # c # d # _ \<Rightarrow>
          (let r2 = hex4 a b c d in
           if bs = CHR 0x5C \<and> u = CHR ''u'' \<and> 0xD800 \<le> r \<and> r < 0xDC00 \<and> 0xDC00 \<le> r2 \<and> r2 < 0xE000
           then Some ((r - 0xD800) * 1024 + (r2 - 0xDC00) + 0x10000) else None)
      | _ \<Rightarrow> None)"

definition unescape :: "char \<Rightarrow> char" where
  "unescape e = (case find (\<lambda>p. snd p = e) escapes of Some p \<Rightarrow> fst p | None \<Rightarrow> e)"

function unquote :: "string \<Rightarrow> string" where
  "unquote s =
     (case s of
        [] \<Rightarrow> []
      | c # cs \<Rightarrow>
          if c = CHR 0x5C then
            (case cs of
               [] \<Rightarrow> []
             | e # s1 \<Rightarrow>
                 if e = CHR ''u'' then
                   (case s1 of
                      h1 # h2 # h3 # h4 # s' \<Rightarrow>
                        (let r = hex4 h1 h2 h3 h4 in
                         if is_surrogate r then
                           (case decode_pair r s' of
                              Some p \<Rightarrow> utf8_encode p @ unquote (drop 6 s')
                            | None \<Rightarrow> RuneError @ unquote s')
                         else utf8_encode r @ unquote s')
                    | _ \<Rightarrow> [])
                 else unescape e # unquote s1)
          else if byte c < 128 then c # unquote cs
          else let n = utf8_width s in
            if n = 0 then RuneError @ unquote cs else take n s @ unquote (drop n s))"
  by pat_completeness auto
termination
  by (relation "measure length") auto

declare unquote.simps [simp del]

section \<open>Numbers and literals\<close>

datatype num_state = NumNeg | NumZero | NumInt | NumDot | NumFrac | NumE | NumESign | NumExp

fun num_next :: "num_state \<Rightarrow> char \<Rightarrow> num_state option" where
  "num_next NumNeg c = (if c = CHR ''0'' then Some NumZero else if is_digit c then Some NumInt else None)"
| "num_next NumZero c = (if c = CHR ''.'' then Some NumDot else if c \<in> set ''eE'' then Some NumE else None)"
| "num_next NumInt c = (if is_digit c then Some NumInt else if c = CHR ''.'' then Some NumDot else if c \<in> set ''eE'' then Some NumE else None)"
| "num_next NumDot c = (if is_digit c then Some NumFrac else None)"
| "num_next NumFrac c = (if is_digit c then Some NumFrac else if c \<in> set ''eE'' then Some NumE else None)"
| "num_next NumE c = (if c \<in> set ''+-'' then Some NumESign else if is_digit c then Some NumExp else None)"
| "num_next NumESign c = (if is_digit c then Some NumExp else None)"
| "num_next NumExp c = (if is_digit c then Some NumExp else None)"

definition num_final :: "num_state \<Rightarrow> bool" where
  "num_final st \<longleftrightarrow> st \<in> {NumZero, NumInt, NumFrac, NumExp}"

fun scan_num :: "num_state \<Rightarrow> string \<Rightarrow> string parsed" where
  "scan_num st [] = (if num_final st then Done [] [] else More)"
| "scan_num st (c # s) =
     (case num_next st c of
        Some st' \<Rightarrow> prepend [c] (scan_num st' s)
      | None \<Rightarrow> if num_final st then Done [] (c # s) else Bad)"

fun scan_lit :: "string \<Rightarrow> string \<Rightarrow> string parsed" where
  "scan_lit [] s = Done [] s"
| "scan_lit (e # es) [] = More"
| "scan_lit (e # es) (c # s) = (if c = e then scan_lit es s else Bad)"

section \<open>Reading\<close>

datatype token = TObjOpen | TObjClose | TArrOpen | TArrClose | TColon | TComma | TVal json

definition is_space :: "char \<Rightarrow> bool" where
  "is_space c \<longleftrightarrow> c \<in> {CHR 0x20, CHR 0x09, CHR 0x0D, CHR 0x0A}"

fun as_token :: "(string \<Rightarrow> json) \<Rightarrow> string parsed \<Rightarrow> token parsed" where
  "as_token f (Done a s) = Done (TVal (f a)) s"
| "as_token f Bad = Bad"
| "as_token f More = More"

definition token_at :: "char \<Rightarrow> string \<Rightarrow> token parsed" where
  "token_at c s =
     (if c = CHR ''{'' then Done TObjOpen s
      else if c = CHR ''}'' then Done TObjClose s
      else if c = CHR ''['' then Done TArrOpen s
      else if c = CHR '']'' then Done TArrClose s
      else if c = CHR '':'' then Done TColon s
      else if c = CHR '','' then Done TComma s
      else if c = CHR 0x22 then as_token (\<lambda>a. JStr (unquote a)) (scan_string s)
      else if c = CHR ''t'' then as_token (\<lambda>_. JBool True) (scan_lit ''rue'' s)
      else if c = CHR ''f'' then as_token (\<lambda>_. JBool False) (scan_lit ''alse'' s)
      else if c = CHR ''n'' then as_token (\<lambda>_. JNull) (scan_lit ''ull'' s)
      else if c = CHR ''-'' then as_token (\<lambda>a. JNum (c # a)) (scan_num NumNeg s)
      else if c = CHR ''0'' then as_token (\<lambda>a. JNum (c # a)) (scan_num NumZero s)
      else if is_digit c then as_token (\<lambda>a. JNum (c # a)) (scan_num NumInt s)
      else Bad)"

fun next_token :: "string \<Rightarrow> token parsed" where
  "next_token [] = More"
| "next_token (c # s) = (if is_space c then next_token s else token_at c s)"

text \<open>An open array or object, with what it holds so far; an object also with the key whose value is being read.\<close>

datatype frame = FArr "json list" | FObj "(string \<times> json) list" string

datatype expect = EValue | EValueOrClose | EKeyOrClose "(string \<times> json) list" | EKey "(string \<times> json) list" | EColon "(string \<times> json) list" string | EAfter

definition maxNestingDepth :: nat where
  "maxNestingDepth = 10000"

text \<open>What a completed value \<open>v\<close> does to the stack: the outermost one is the result.\<close>

fun add_value :: "json \<Rightarrow> frame list \<Rightarrow> (json, frame list) sum" where
  "add_value v [] = Inl v"
| "add_value v (FArr vs # stk) = Inr (FArr (vs @ [v]) # stk)"
| "add_value v (FObj kvs k # stk) = Inr (FObj (kvs @ [(k, v)]) [] # stk)"

datatype move = Go expect "frame list" | Finish json | Reject

definition close_value :: "json \<Rightarrow> frame list \<Rightarrow> move" where
  "close_value v stk = (case add_value v stk of Inl r \<Rightarrow> Finish r | Inr stk' \<Rightarrow> Go EAfter stk')"

definition begin_value :: "token \<Rightarrow> frame list \<Rightarrow> move" where
  "begin_value t stk = (case t of
       TVal v \<Rightarrow> close_value v stk
     | TArrOpen \<Rightarrow> if length stk < maxNestingDepth then Go EValueOrClose (FArr [] # stk) else Reject
     | TObjOpen \<Rightarrow> if length stk < maxNestingDepth then Go (EKeyOrClose []) stk else Reject
     | _ \<Rightarrow> Reject)"

fun advance :: "expect \<Rightarrow> token \<Rightarrow> frame list \<Rightarrow> move" where
  "advance EValue t stk = begin_value t stk"
| "advance EValueOrClose t stk =
     (if t = TArrClose then (case stk of FArr vs # stk' \<Rightarrow> close_value (JArr vs) stk' | _ \<Rightarrow> Reject) else begin_value t stk)"
| "advance (EKeyOrClose kvs) t stk =
     (case t of TObjClose \<Rightarrow> close_value (JObj kvs) stk | TVal (JStr k) \<Rightarrow> Go (EColon kvs k) stk | _ \<Rightarrow> Reject)"
| "advance (EKey kvs) t stk = (case t of TVal (JStr k) \<Rightarrow> Go (EColon kvs k) stk | _ \<Rightarrow> Reject)"
| "advance (EColon kvs k) t stk = (if t = TColon then Go EValue (FObj kvs k # stk) else Reject)"
| "advance EAfter t stk =
     (case stk of
        FArr vs # stk' \<Rightarrow> if t = TComma then Go EValue stk else if t = TArrClose then close_value (JArr vs) stk' else Reject
      | FObj kvs k # stk' \<Rightarrow> if t = TComma then Go (EKey kvs) stk' else if t = TObjClose then close_value (JObj kvs) stk' else Reject
      | [] \<Rightarrow> Reject)"

lemma prepend_Done: "prepend p x = Done a r \<Longrightarrow> \<exists>b. x = Done b r"
  by (cases x) auto

lemma scan_string_length: "scan_string s = Done a r \<Longrightarrow> length r < length s"
proof (induction "length s" arbitrary: s a rule: less_induct)
  case less
  have IH: "length r < length s" if "scan_string t = Done b r" "length t < length s" for t b
    using less(1) [OF that(2,1)] that(2) by simp
  show ?case
  proof (cases s)
    case (Cons c cs)
    with less(2) show ?thesis
      by (auto simp: scan_string.simps(2) split: if_splits list.splits parsed.splits dest!: prepend_Done scan_hex_length
          dest: IH [simplified])
  qed (use less(2) in \<open>simp add: scan_string.simps\<close>)
qed

lemma scan_num_length: "scan_num st s = Done a r \<Longrightarrow> length r \<le> length s"
  by (induction st s arbitrary: a rule: scan_num.induct) (auto split: if_splits option.splits dest!: prepend_Done intro: le_SucI)

lemma scan_lit_length: "scan_lit e s = Done a r \<Longrightarrow> length r \<le> length s"
  by (induction e s rule: scan_lit.induct) (auto split: if_splits)

lemma as_token_Done: "as_token f x = Done t r \<Longrightarrow> \<exists>a. x = Done a r"
  by (cases x) auto

lemma token_at_length: "token_at c s = Done t r \<Longrightarrow> length r \<le> length s"
  by (auto simp: token_at_def split: if_splits dest!: as_token_Done dest: scan_string_length scan_num_length scan_lit_length)

lemma next_token_length: "next_token s = Done t r \<Longrightarrow> length r < length s"
  by (induction s rule: next_token.induct) (auto split: if_splits dest: token_at_length)

function read_value :: "expect \<Rightarrow> frame list \<Rightarrow> string \<Rightarrow> json parsed" where
  "read_value ex stk s =
     (case next_token s of
        Done t r \<Rightarrow> (case advance ex t stk of Go ex' stk' \<Rightarrow> read_value ex' stk' r | Finish v \<Rightarrow> Done v r | Reject \<Rightarrow> Bad)
      | Bad \<Rightarrow> Bad
      | More \<Rightarrow> More)"
  by pat_completeness auto
termination
  by (relation "measure (\<lambda>(ex, stk, s). length s)") (auto dest: next_token_length)

declare read_value.simps [simp del]

text \<open>\<^verbatim>\<open>json.Unmarshal\<close> reads one value with nothing but space around it; \<^verbatim>\<open>Decoder.Decode\<close> stops after it.\<close>

definition json_decode :: "string \<Rightarrow> json parsed" where
  "json_decode s = read_value EValue [] s"

definition json_unmarshal :: "string \<Rightarrow> json option" where
  "json_unmarshal s = (case json_decode s of Done v r \<Rightarrow> if list_all is_space r then Some v else None | _ \<Rightarrow> None)"

section \<open>Writing\<close>

fun json_text :: "json \<Rightarrow> string" where
  "json_text JNull = ''null''"
| "json_text (JBool b) = (if b then ''true'' else ''false'')"
| "json_text (JNum n) = n"
| "json_text (JStr s) = json_quote s"
| "json_text (JArr vs) = ''['' @ strings_Join (map json_text vs) '','' @ '']''"
| "json_text (JObj kvs) = ''{'' @ strings_Join (map (\<lambda>(k, v). json_quote k @ '':'' @ json_text v) kvs) '','' @ ''}''"

section \<open>Specification vocabulary\<close>

text \<open>One step of the quoting loop: it takes a prefix off the input and writes a piece of text.\<close>

definition quote_step :: "string \<Rightarrow> nat \<times> string" where
  "quote_step s =
     (if byte (hd s) < 128 then (1, quote_ascii (hd s))
      else let n = utf8_width s in
        if n = 0 then (1, u_escape 0xFFFD)
        else (n, if take n s = utf8_encode 0x2028 then u_escape 0x2028 else if take n s = utf8_encode 0x2029 then u_escape 0x2029 else take n s))"

text \<open>The values the writer produces: number literals, UTF-8 strings, a bounded depth; and the characters that may follow a value.\<close>

definition is_number :: "string \<Rightarrow> bool" where
  "is_number n \<longleftrightarrow> n \<noteq> [] \<and> token_at (hd n) (tl n) = Done (TVal (JNum n)) []"

fun json_wf :: "json \<Rightarrow> bool" where
  "json_wf JNull = True"
| "json_wf (JBool b) = True"
| "json_wf (JNum n) = is_number n"
| "json_wf (JStr s) = valid_utf8 s"
| "json_wf (JArr vs) = list_all json_wf vs"
| "json_wf (JObj kvs) = list_all (\<lambda>(k, v). valid_utf8 k \<and> json_wf v) kvs"

fun json_depth :: "json \<Rightarrow> nat" where
  "json_depth (JArr vs) = Suc (foldr max (map json_depth vs) 0)"
| "json_depth (JObj kvs) = Suc (foldr max (map (\<lambda>(k, v). json_depth v) kvs) 0)"
| "json_depth _ = 0"

definition delimited :: "string \<Rightarrow> bool" where
  "delimited r \<longleftrightarrow> r = [] \<or> hd r \<in> set '',]}'' \<or> is_space (hd r)"

fun resume :: "move \<Rightarrow> string \<Rightarrow> json parsed" where
  "resume (Go ex stk) r = read_value ex stk r"
| "resume (Finish v) r = Done v r"
| "resume Reject r = Bad"

definition num_start :: "char \<Rightarrow> num_state" where
  "num_start c = (if c = CHR ''-'' then NumNeg else if c = CHR ''0'' then NumZero else NumInt)"

text \<open>Once a value is open, the reader takes its text off the input and goes on as after the finished value.\<close>

definition reads :: "json \<Rightarrow> bool" where
  "reads v \<longleftrightarrow> (\<forall>stk r. length stk + json_depth v \<le> maxNestingDepth \<longrightarrow> delimited r \<longrightarrow>
     (\<exists>t r'. next_token (json_text v @ r) = Done t r' \<and> t \<noteq> TArrClose \<and> resume (begin_value t stk) r' = resume (close_value v stk) r))"

section \<open>What is written is read back: strings\<close>

lemma hex_value_hex_char:
  assumes "n < 16"
  shows "hex_value (hex_char n) = Some n"
proof -
  have "list_all (\<lambda>n. hex_value (hex_char n) = Some n) [0..<16]" by code_simp
  then have "\<forall>n \<in> set [0..<16]. hex_value (hex_char n) = Some n" by (simp only: list_all_iff)
  moreover have "n \<in> set [0..<16]" using assms by (simp only: set_upt atLeastLessThan_iff) simp
  ultimately show ?thesis by (rule bspec)
qed

lemma scan_hex4:
  assumes "\<forall>x \<in> set [a, b, c, d]. hex_value x \<noteq> None"
  shows "scan_hex 4 (a # b # c # d # s) = Done [a, b, c, d] s"
proof -
  have four: "(4 :: nat) = Suc (Suc (Suc (Suc 0)))" by simp
  show ?thesis unfolding four using assms by simp
qed

lemma scan_u_escape: "scan_string (u_escape r @ s) = prepend (u_escape r) (scan_string s)"
proof -
  let ?a = "hex_char (r div 4096 mod 16)" and ?b = "hex_char (r div 256 mod 16)" and ?c = "hex_char (r div 16 mod 16)" and ?d = "hex_char (r mod 16)"
  have "scan_hex 4 (?a # ?b # ?c # ?d # s) = Done [?a, ?b, ?c, ?d] s"
    by (rule scan_hex4) (simp add: hex_value_hex_char)
  then show ?thesis by (simp add: u_escape_def scan_string.simps(2))
qed

lemma hex4_u_escape:
  assumes "r < 65536"
  shows "hex4 (hex_char (r div 4096 mod 16)) (hex_char (r div 256 mod 16)) (hex_char (r div 16 mod 16)) (hex_char (r mod 16)) = r"
proof -
  define a b c where "a = r div 16" and "b = a div 16" and "c = b div 16"
  have "r div 256 = b" "r div 4096 = c" by (simp_all add: a_def b_def c_def div_mult2_eq [symmetric])
  moreover have "c < 16" using assms by (simp add: a_def b_def c_def div_mult2_eq [symmetric] less_mult_imp_div_less)
  moreover have "a * 16 + r mod 16 = r" "b * 16 + a mod 16 = a" "c * 16 + b mod 16 = b" by (simp_all add: a_def b_def c_def)
  ultimately show ?thesis by (simp add: hex4_def hex_value_hex_char a_def [symmetric])
qed

lemma unquote_u_escape:
  assumes "r < 65536" "\<not> is_surrogate r"
  shows "unquote (u_escape r @ s) = utf8_encode r @ unquote s"
proof -
  let ?h = "\<lambda>k. hex_char (r div k mod 16)"
  have "unquote (CHR 0x5C # CHR ''u'' # a # b # c # d # s) = utf8_encode (hex4 a b c d) @ unquote s"
    if "\<not> is_surrogate (hex4 a b c d)" for a b c d
    using that by (subst unquote.simps) (simp add: Let_def)
  from this [of "?h 4096" "?h 256" "?h 16" "hex_char (r mod 16)", unfolded hex4_u_escape [OF assms(1)], OF assms(2)] show ?thesis
    by (simp only: u_escape_def append_Cons append_Nil)
qed

lemma map_of_escapes_None: "map_of escapes c = None \<longleftrightarrow> c \<notin> set (map fst escapes)"
  by (simp add: escapes_def)

lemma quote_ascii_cases:
  obtains (esc) e where "(c, e) \<in> set escapes" "quote_ascii c = [CHR 0x5C, e]"
  | (u) "byte c < 32 \<or> c \<in> set ''<>&''" "quote_ascii c = u_escape (byte c)"
  | (plain) "32 \<le> byte c" "c \<noteq> CHR 0x22" "c \<noteq> CHR 0x5C" "quote_ascii c = [c]"
proof (cases "map_of escapes c")
  case None
  then have "c \<noteq> CHR 0x22" "c \<noteq> CHR 0x5C" by (auto simp: escapes_def split: if_splits)
  with None show ?thesis using u plain by (cases "byte c < 32 \<or> c \<in> set ''<>&''") (auto simp: quote_ascii_def)
next
  case (Some e)
  then show ?thesis using esc map_of_SomeD [OF Some] by (simp add: quote_ascii_def)
qed

lemma scan_quote_ascii: "scan_string (quote_ascii c @ s) = prepend (quote_ascii c) (scan_string s)"
proof (cases c rule: quote_ascii_cases)
  case (esc e)
  then have "e \<in> set ''bfnrt/'' \<or> e = CHR 0x5C \<or> e = CHR 0x22" by (auto simp: escapes_def)
  then show ?thesis by (simp add: esc(2) scan_string.simps(2))
qed (simp_all add: scan_u_escape scan_string.simps(2))

lemma unescape_escapes: "(c, e) \<in> set escapes \<Longrightarrow> unescape e = c \<and> e \<noteq> CHR ''u''"
  by (auto simp: escapes_def unescape_def)

lemma byte_lt_128: "c \<in> set ''<>&'' \<Longrightarrow> byte c < 128"
  by auto

lemma unquote_quote_ascii:
  assumes "byte c < 128"
  shows "unquote (quote_ascii c @ s) = c # unquote s"
proof (cases c rule: quote_ascii_cases)
  case (esc e)
  then show ?thesis using unescape_escapes [OF esc(1)] by (subst unquote.simps) simp
next
  case u
  have "utf8_encode (byte c) = [c]" using assms by (simp add: utf8_encode_def)
  then show ?thesis using assms by (simp add: u(2) unquote_u_escape is_surrogate_def)
next
  case plain
  then show ?thesis using assms by (subst unquote.simps) simp
qed

lemma utf8_width_le: "utf8_width s \<le> length s"
  by (cases s) (auto simp: Let_def split: list.splits)

lemma utf8_multi:
  assumes "utf8_width s \<noteq> 0" "\<not> byte (hd s) < 128"
  obtains p t where "s = p @ t" "utf8_width s = length p" "\<forall>c \<in> set p. 128 \<le> byte c" "\<And>x. utf8_width (p @ x) = length p"
proof -
  obtain a s1 where s: "s = a # s1" using assms(1) by (cases s) auto
  have a: "\<not> byte a < 128" using assms(2) s by simp
  consider (two) "194 \<le> byte a" "byte a \<le> 223" | (three) "224 \<le> byte a" "byte a \<le> 239" | (four) "240 \<le> byte a" "byte a \<le> 244"
    using assms(1) a unfolding s by (simp add: Let_def split: if_splits)
  then show ?thesis
  proof cases
    case two
    then obtain b t where "s1 = b # t" "cont_byte 128 191 b"
      using assms(1) a unfolding s by (cases s1) (simp_all add: Let_def split: if_splits)
    then show ?thesis using two a that [of "[a, b]" t] by (simp add: s Let_def cont_byte_def)
  next
    case three
    then obtain b c t where "s1 = b # c # t" "cont_byte (if byte a = 224 then 160 else 128) (if byte a = 237 then 159 else 191) b" "cont_byte 128 191 c"
      using assms(1) a unfolding s by (cases s1; cases "List.tl s1") (simp_all add: Let_def split: if_splits)
    then show ?thesis using three a that [of "[a, b, c]" t] by (simp add: s Let_def cont_byte_def split: if_splits)
  next
    case four
    then obtain b c d t where "s1 = b # c # d # t" "cont_byte (if byte a = 240 then 144 else 128) (if byte a = 244 then 143 else 191) b"
        "cont_byte 128 191 c" "cont_byte 128 191 d"
      using assms(1) a unfolding s
      by (cases s1; cases "List.tl s1"; cases "List.tl (List.tl s1)") (simp_all add: Let_def split: if_splits)
    then show ?thesis using four a that [of "[a, b, c, d]" t] by (simp add: s Let_def cont_byte_def split: if_splits)
  qed
qed

lemma scan_high: "\<forall>c \<in> set p. 128 \<le> byte c \<Longrightarrow> scan_string (p @ s) = prepend p (scan_string s)"
proof (induction p)
  case Nil
  then show ?case by (cases "scan_string s") simp_all
next
  case (Cons c p)
  have "c \<noteq> CHR 0x22" "c \<noteq> CHR 0x5C" "\<not> byte c < 32" using Cons.prems by auto
  then have "scan_string (c # p @ s) = prepend [c] (scan_string (p @ s))" by (simp add: scan_string.simps(2))
  with Cons show ?case by (cases "scan_string s") simp_all
qed

lemma prepend_prepend: "prepend p (prepend q x) = prepend (p @ q) x"
  by (cases x) simp_all

lemma quote_chars_step:
  assumes "s \<noteq> []"
  shows "quote_chars s = snd (quote_step s) @ quote_chars (drop (fst (quote_step s)) s)"
proof -
  obtain c cs where "s = c # cs" using assms by (cases s) auto
  then show ?thesis using quote_chars.simps [of s] by (simp add: quote_step_def Let_def del: utf8_width.simps)
qed

lemma quote_step_pos: "0 < fst (quote_step s)"
  by (simp add: quote_step_def Let_def)

lemma scan_quote_step: "s \<noteq> [] \<Longrightarrow> scan_string (snd (quote_step s) @ x) = prepend (snd (quote_step s)) (scan_string x)"
proof (cases "\<not> byte (hd s) < 128 \<and> utf8_width s \<noteq> 0")
  case True
  then obtain p t where "s = p @ t" "utf8_width s = length p" "\<forall>c \<in> set p. 128 \<le> byte c" by (meson utf8_multi)
  then have "take (utf8_width s) s = p" "\<forall>c \<in> set p. 128 \<le> byte c" by simp_all
  with True show ?thesis by (simp add: quote_step_def Let_def scan_u_escape scan_high)
qed (auto simp: quote_step_def Let_def scan_quote_ascii scan_u_escape)

lemma unquote_quote_step:
  assumes "s \<noteq> []" "utf8_width s \<noteq> 0"
  shows "unquote (snd (quote_step s) @ x) = take (fst (quote_step s)) s @ unquote x"
proof (cases "byte (hd s) < 128")
  case True
  then show ?thesis using assms(1) by (cases s) (simp_all add: quote_step_def unquote_quote_ascii)
next
  case False
  then obtain p t where p: "s = p @ t" "utf8_width s = length p" "\<forall>c \<in> set p. 128 \<le> byte c" "\<And>x. utf8_width (p @ x) = length p"
    using assms(2) by (meson utf8_multi)
  have "p \<noteq> []" using p(2) assms(2) by auto
  then obtain c cs where pc: "p = c # cs" by (cases p) auto
  have "c \<noteq> CHR 0x5C" "\<not> byte c < 128" using p(3) pc by auto
  then have "unquote (p @ x) = p @ unquote x" using p(4) [of x] pc by (subst unquote.simps) (simp add: Let_def)
  moreover have "unquote (u_escape r @ x) = utf8_encode r @ unquote x" if "r = 0x2028 \<or> r = 0x2029" for r
    using that by (intro unquote_u_escape) (auto simp: is_surrogate_def)
  moreover have "take (utf8_width s) s = p" unfolding p(2) using p(1) by simp
  ultimately show ?thesis using False assms(2) by (simp add: quote_step_def Let_def)
qed

lemma scan_quote_chars: "scan_string (quote_chars s @ CHR 0x22 # r) = Done (quote_chars s) r"
proof (induction "length s" arbitrary: s rule: less_induct)
  case less
  show ?case
  proof (cases "s = []")
    case True
    then show ?thesis by (simp add: quote_chars.simps scan_string.simps)
  next
    case False
    let ?d = "drop (fst (quote_step s)) s"
    have "length ?d < length s" using False quote_step_pos [of s] by simp
    from less [OF this] show ?thesis using quote_chars_step [OF False] scan_quote_step [OF False] by simp
  qed
qed

lemma unquote_quote_chars: "valid_utf8 s \<Longrightarrow> unquote (quote_chars s) = s"
proof (induction "length s" arbitrary: s rule: less_induct)
  case less
  show ?case
  proof (cases "s = []")
    case True
    then show ?thesis by (simp add: quote_chars.simps unquote.simps)
  next
    case False
    let ?d = "drop (fst (quote_step s)) s"
    have w: "utf8_width s \<noteq> 0" "valid_utf8 (drop (utf8_width s) s)"
      using less.prems False by (subst (asm) valid_utf8.simps, simp split: if_splits)+
    have "fst (quote_step s) = utf8_width s"
      using False w(1) by (cases s) (auto simp: quote_step_def Let_def split: if_splits)
    moreover have "length ?d < length s" using False quote_step_pos [of s] by simp
    ultimately have "unquote (quote_chars ?d) = ?d" using less.hyps w(2) by simp
    then show ?thesis using quote_chars_step [OF False] unquote_quote_step [OF False w(1)] by simp
  qed
qed

section \<open>What is written is read back: values\<close>

lemma read_value_token: "next_token s = Done t r \<Longrightarrow> read_value ex stk s = resume (advance ex t stk) r"
  by (subst read_value.simps) (simp split: move.splits)

lemma depth_member: "x \<in> set xs \<Longrightarrow> f x \<le> foldr max (map f xs) (0 :: nat)"
  by (induction xs) (auto simp: le_max_iff_disj)

lemma delimited_no_digit: "delimited (c # r) \<Longrightarrow> \<not> is_digit c \<and> c \<noteq> CHR ''.'' \<and> c \<notin> set ''eE''"
  by (auto simp: delimited_def is_space_def is_digit_def)

lemma scan_num_delimited:
  assumes "scan_num st s = Done a []" "delimited r"
  shows "scan_num st (s @ r) = Done a r"
  using assms(1)
proof (induction st s arbitrary: a rule: scan_num.induct)
  case (1 st)
  then have f: "num_final st" "a = []" by (auto split: if_splits)
  show ?case
  proof (cases r)
    case (Cons c r')
    then have "num_next st c = None" using delimited_no_digit [of c r'] assms(2) f(1) by (cases st) (auto simp: num_final_def)
    then show ?thesis using f Cons by simp
  qed (use f in simp)
next
  case (2 st c s)
  show ?case
  proof (cases "num_next st c")
    case (Some st')
    with "2.prems" obtain b where b: "scan_num st' s = Done b []" by (auto dest: prepend_Done)
    with "2.IH" [OF Some b] "2.prems" Some show ?thesis by simp
  qed (use "2.prems" in \<open>auto split: if_splits\<close>)
qed

lemma as_token_value: "as_token f x = Done t r \<Longrightarrow> \<exists>a. t = TVal (f a) \<and> x = Done a r"
  by (cases x) auto

lemma token_at_number:
  assumes "c = CHR ''-'' \<or> is_digit c"
  shows "\<not> is_space c" "token_at c s = as_token (\<lambda>a. JNum (c # a)) (scan_num (num_start c) s)"
proof -
  have "byte c = 45 \<or> 48 \<le> byte c \<and> byte c \<le> 57" using assms by (auto simp: is_digit_def)
  then have ne: "byte c \<noteq> 123" "byte c \<noteq> 125" "byte c \<noteq> 91" "byte c \<noteq> 93" "byte c \<noteq> 58" "byte c \<noteq> 44" "byte c \<noteq> 34" "byte c \<noteq> 116"
    "byte c \<noteq> 102" "byte c \<noteq> 110" "byte c \<noteq> 32" "byte c \<noteq> 9" "byte c \<noteq> 13" "byte c \<noteq> 10" by linarith+
  then have c: "c \<noteq> CHR ''{''" "c \<noteq> CHR ''}''" "c \<noteq> CHR ''[''" "c \<noteq> CHR '']''" "c \<noteq> CHR '':''" "c \<noteq> CHR '',''" "c \<noteq> CHR 0x22"
    "c \<noteq> CHR ''t''" "c \<noteq> CHR ''f''" "c \<noteq> CHR ''n''" by auto
  show "\<not> is_space c" unfolding is_space_def using ne(11-14) by auto
  show "token_at c s = as_token (\<lambda>a. JNum (c # a)) (scan_num (num_start c) s)"
    using assms by (auto simp add: token_at_def c num_start_def)
qed

lemma number_head: "token_at c s = Done (TVal (JNum n)) r \<Longrightarrow> c = CHR ''-'' \<or> is_digit c"
proof (rule ccontr)
  assume t: "token_at c s = Done (TVal (JNum n)) r" and "\<not> (c = CHR ''-'' \<or> is_digit c)"
  then have c: "c \<noteq> CHR ''-''" "c \<noteq> CHR ''0''" "\<not> is_digit c" by (auto simp: is_digit_def)
  from t show False by (simp add: token_at_def c split: if_splits) (auto dest!: as_token_value)
qed

lemma token_number:
  assumes "is_number n" "delimited r"
  shows "next_token (n @ r) = Done (TVal (JNum n)) r"
proof -
  obtain c s where n: "n = c # s" using assms(1) by (cases n) (auto simp: is_number_def)
  have t: "token_at c s = Done (TVal (JNum (c # s))) []" using assms(1) by (simp add: is_number_def n)
  note c = token_at_number [OF number_head [OF t]]
  have "scan_num (num_start c) s = Done s []" using t as_token_value unfolding c(2) by fastforce
  then have "scan_num (num_start c) (s @ r) = Done s r" by (rule scan_num_delimited [OF _ assms(2)])
  then show ?thesis using c(1) by (simp add: n c(2))
qed

lemma token_string: "valid_utf8 s \<Longrightarrow> next_token (json_quote s @ r) = Done (TVal (JStr s)) r"
  by (simp add: json_quote_def is_space_def token_at_def scan_quote_chars unquote_quote_chars)

lemma token_char:
  "next_token (CHR '','' # r) = Done TComma r" "next_token (CHR '':'' # r) = Done TColon r"
  "next_token (CHR ''['' # r) = Done TArrOpen r" "next_token (CHR '']'' # r) = Done TArrClose r"
  "next_token (CHR ''{'' # r) = Done TObjOpen r" "next_token (CHR ''}'' # r) = Done TObjClose r"
  by (simp_all add: is_space_def token_at_def)

lemmas read_char = token_char [THEN read_value_token]

lemma strings_Join_Cons: "strings_Join (x # xs) sep = x @ (if xs = [] then [] else sep @ strings_Join xs sep)"
  by (cases xs) simp_all

lemma reads_value:
  assumes "reads v" "length stk + json_depth v \<le> maxNestingDepth" "delimited r"
  shows "read_value EValue stk (json_text v @ r) = resume (close_value v stk) r"
    and "read_value EValueOrClose stk (json_text v @ r) = resume (close_value v stk) r"
proof -
  obtain t r' where t: "next_token (json_text v @ r) = Done t r'" "t \<noteq> TArrClose" "resume (begin_value t stk) r' = resume (close_value v stk) r"
    using assms unfolding reads_def by blast
  show "read_value EValue stk (json_text v @ r) = resume (close_value v stk) r"
    "read_value EValueOrClose stk (json_text v @ r) = resume (close_value v stk) r"
    using t(2,3) by (simp_all add: read_value_token [OF t(1)])
qed

lemma reads_elements:
  assumes "\<forall>v \<in> set vs. reads v \<and> length stk + Suc (json_depth v) \<le> maxNestingDepth" "vs \<noteq> []"
  shows "read_value EValue (FArr acc # stk) (strings_Join (map json_text vs) '','' @ CHR '']'' # r) = resume (close_value (JArr (acc @ vs)) stk) r"
  using assms
proof (induction vs arbitrary: acc)
  case (Cons v vs)
  have d: "delimited (CHR '','' # x)" "delimited (CHR '']'' # x)" for x by (simp_all add: delimited_def)
  show ?case
  proof (cases "vs = []")
    case True
    then show ?thesis using Cons.prems reads_value(1) [of v "FArr acc # stk" "CHR '']'' # r"] d
      by (simp add: close_value_def read_char)
  next
    case False
    then have IH: "read_value EValue (FArr (acc @ [v]) # stk) (strings_Join (map json_text vs) '','' @ CHR '']'' # r) =
        resume (close_value (JArr (acc @ v # vs)) stk) r" using Cons.IH [of "acc @ [v]"] Cons.prems by simp
    show ?thesis using Cons.prems False
        reads_value(1) [of v "FArr acc # stk" "CHR '','' # strings_Join (map json_text vs) '','' @ CHR '']'' # r"] d IH
      by (simp add: close_value_def read_char strings_Join_Cons)
  qed
qed simp

lemma reads_members:
  assumes "\<forall>(k, v) \<in> set kvs. valid_utf8 k \<and> reads v \<and> length stk + Suc (json_depth v) \<le> maxNestingDepth" "kvs \<noteq> []"
    and ex: "ex = EKey acc \<or> ex = EKeyOrClose acc"
  shows "read_value ex stk (strings_Join (map (\<lambda>(k, v). json_quote k @ '':'' @ json_text v) kvs) '','' @ CHR ''}'' # r) =
    resume (close_value (JObj (acc @ kvs)) stk) r"
  using assms
proof (induction kvs arbitrary: acc ex)
  case (Cons kv kvs)
  obtain k v where kv: "kv = (k, v)" by fastforce
  have d: "delimited (CHR '','' # x)" "delimited (CHR ''}'' # x)" for x by (simp_all add: delimited_def)
  have k: "read_value ex stk (json_quote k @ CHR '':'' # x) = read_value EValue (FObj acc k # stk) x" for x
    using Cons.prems(1,3) by (auto simp: kv read_value_token [OF token_string] read_char)
  have v: "reads v" "length (FObj acc k # stk) + json_depth v \<le> maxNestingDepth" using Cons.prems(1) by (auto simp: kv)
  show ?case
  proof (cases "kvs = []")
    case True
    then show ?thesis using reads_value(1) [OF v, of "CHR ''}'' # r"] d
      by (simp add: kv k close_value_def read_char)
  next
    case False
    let ?rest = "strings_Join (map (\<lambda>(k, v). json_quote k @ '':'' @ json_text v) kvs) '','' @ CHR ''}'' # r"
    have "read_value (EKey (acc @ [(k, v)])) stk ?rest = resume (close_value (JObj (acc @ kv # kvs)) stk) r"
      using Cons.IH [of "EKey (acc @ [(k, v)])" "acc @ [(k, v)]"] Cons.prems False by (simp add: kv)
    then show ?thesis using False reads_value(1) [OF v, of "CHR '','' # ?rest"] d
      by (simp add: kv k close_value_def read_char strings_Join_Cons)
  qed
qed simp

lemma json_wf_reads: "json_wf v \<Longrightarrow> reads v"
proof (induction v)
  case JNull
  then show ?case by (simp add: reads_def begin_value_def is_space_def token_at_def)
next
  case (JBool b)
  then show ?case by (simp add: reads_def begin_value_def is_space_def token_at_def)
next
  case (JNum n)
  then show ?case by (simp add: reads_def begin_value_def token_number)
next
  case (JStr s)
  then show ?case by (simp add: reads_def begin_value_def token_string)
next
  case (JArr vs)
  show ?case
    unfolding reads_def
  proof (intro allI impI exI conjI)
    fix stk :: "frame list" and r assume d: "length stk + json_depth (JArr vs) \<le> maxNestingDepth"
    let ?in = "strings_Join (map json_text vs) '','' @ CHR '']'' # r"
    show "next_token (json_text (JArr vs) @ r) = Done TArrOpen ?in" by (simp add: token_char del: next_token.simps)
    have b: "begin_value TArrOpen stk = Go EValueOrClose (FArr [] # stk)" using d by (simp add: begin_value_def)
    have m: "\<forall>v \<in> set vs. reads v \<and> length stk + Suc (json_depth v) \<le> maxNestingDepth"
      using JArr d depth_member [of _ vs json_depth] by (fastforce simp: list_all_iff)
    show "resume (begin_value TArrOpen stk) ?in = resume (close_value (JArr vs) stk) r"
    proof (cases vs)
      case Nil
      then show ?thesis by (simp add: b read_char)
    next
      case (Cons v vs')
      have "read_value EValueOrClose (FArr [] # stk) ?in = read_value EValue (FArr [] # stk) ?in"
        using reads_value [of v "FArr [] # stk" "(if vs' = [] then [] else '','' @ strings_Join (map json_text vs') '','') @ CHR '']'' # r"] m
        by (simp add: Cons strings_Join_Cons delimited_def)
      then show ?thesis using reads_elements [OF m, of "[]" r] by (simp add: b Cons)
    qed
  qed simp
next
  case (JObj kvs)
  show ?case
    unfolding reads_def
  proof (intro allI impI exI conjI)
    fix stk :: "frame list" and r assume d: "length stk + json_depth (JObj kvs) \<le> maxNestingDepth"
    let ?in = "strings_Join (map (\<lambda>(k, v). json_quote k @ '':'' @ json_text v) kvs) '','' @ CHR ''}'' # r"
    show "next_token (json_text (JObj kvs) @ r) = Done TObjOpen ?in" by (simp add: token_char del: next_token.simps)
    have b: "begin_value TObjOpen stk = Go (EKeyOrClose []) stk" using d by (simp add: begin_value_def)
    have "valid_utf8 k \<and> reads v \<and> length stk + Suc (json_depth v) \<le> maxNestingDepth" if "(k, v) \<in> set kvs" for k v
      using JObj that d depth_member [OF that, of "\<lambda>(k, v). json_depth v"] by (fastforce simp: list_all_iff)
    then have "kvs \<noteq> [] \<Longrightarrow> read_value (EKeyOrClose []) stk ?in = resume (close_value (JObj kvs) stk) r"
      using reads_members [of kvs stk "EKeyOrClose []" "[]" r] by auto
    then show "resume (begin_value TObjOpen stk) ?in = resume (close_value (JObj kvs) stk) r"
      by (cases "kvs = []") (simp_all add: b read_char)
  qed simp
qed

lemma json_decode_text:
  assumes "json_wf v" "json_depth v \<le> maxNestingDepth" "delimited r"
  shows "json_decode (json_text v @ r) = Done v r"
  using reads_value(1) [OF json_wf_reads [OF assms(1)], of "[]" r] assms(2,3) by (simp add: json_decode_def close_value_def)

end
