(* ===== verification/Json_Codec.thy ===== *)
theory Json_Codec
  imports Json Chat_Model
begin

text \<open>
  How \<^verbatim>\<open>encoding/json\<close> moves the records of \<^verbatim>\<open>internal/model\<close> in and out of JSON values, following their struct tags. Decoding works into an
  existing value, as the library does: an object's keys are matched to fields without regard to case and processed in order, \<^verbatim>\<open>null\<close> leaves a
  plain field alone and empties a pointer or slice, and any type mismatch is an error. Encoding keeps the field order and drops \<^verbatim>\<open>omitempty\<close> zeros. The
  sign of a zero number is not kept.
\<close>

section \<open>Decoding into a value\<close>

text \<open>Case folding of keys: ASCII letters, and the two code points beyond ASCII that fold to one.\<close>

fun fold_name :: "string \<Rightarrow> string" where
  "fold_name [] = []"
| "fold_name (c # s) =
     (let n = of_char c :: nat in
      if n = 0xC5 \<and> take 1 s = [CHR 0xBF] then CHR ''S'' # fold_name (drop 1 s)
      else if n = 0xE2 \<and> take 2 s = [CHR 0x84, CHR 0xAA] then CHR ''K'' # fold_name (drop 2 s)
      else (if 97 \<le> n \<and> n \<le> 122 then char_of (n - 32) else c) # fold_name s)"

type_synonym 'a decoder = "json \<Rightarrow> 'a \<Rightarrow> 'a option"

fun dec_fields :: "(string \<Rightarrow> json \<Rightarrow> 'a \<Rightarrow> 'a option) \<Rightarrow> (string \<times> json) list \<Rightarrow> 'a \<Rightarrow> 'a option" where
  "dec_fields f [] x = Some x"
| "dec_fields f ((k, v) # kvs) x = (case f (fold_name k) v x of Some y \<Rightarrow> dec_fields f kvs y | None \<Rightarrow> None)"

definition dec_struct :: "(string \<Rightarrow> json \<Rightarrow> 'a \<Rightarrow> 'a option) \<Rightarrow> 'a decoder" where
  "dec_struct f j x = (case j of JObj kvs \<Rightarrow> dec_fields f kvs x | JNull \<Rightarrow> Some x | _ \<Rightarrow> None)"

fun dec_elems :: "'a \<Rightarrow> 'a decoder \<Rightarrow> json list \<Rightarrow> 'a list \<Rightarrow> 'a list option" where
  "dec_elems zero f [] old = Some []"
| "dec_elems zero f (v # vs) old =
     (case f v (case old of [] \<Rightarrow> zero | x # _ \<Rightarrow> x) of
        Some y \<Rightarrow> map_option ((#) y) (dec_elems zero f vs (drop 1 old))
      | None \<Rightarrow> None)"

definition dec_slice :: "'a \<Rightarrow> 'a decoder \<Rightarrow> 'a list option decoder" where
  "dec_slice zero f j x = (case j of
       JArr vs \<Rightarrow> map_option Some (dec_elems zero f vs (case x of Some old \<Rightarrow> old | None \<Rightarrow> []))
     | JNull \<Rightarrow> Some None
     | _ \<Rightarrow> None)"

text \<open>A slice whose nil and empty values are not told apart.\<close>

definition dec_list :: "'a \<Rightarrow> 'a decoder \<Rightarrow> 'a list decoder" where
  "dec_list zero f j x = map_option (\<lambda>r. case r of Some xs \<Rightarrow> xs | None \<Rightarrow> []) (dec_slice zero f j (Some x))"

definition dec_ptr :: "'a \<Rightarrow> 'a decoder \<Rightarrow> 'a option decoder" where
  "dec_ptr zero f j x = (if j = JNull then Some None else map_option Some (f j (case x of Some y \<Rightarrow> y | None \<Rightarrow> zero)))"

definition dec_string :: "string decoder" where
  "dec_string j x = (case j of JStr s \<Rightarrow> Some s | JNull \<Rightarrow> Some x | _ \<Rightarrow> None)"

definition dec_bool :: "bool decoder" where
  "dec_bool j x = (case j of JBool b \<Rightarrow> Some b | JNull \<Rightarrow> Some x | _ \<Rightarrow> None)"

definition dec_int :: "int decoder" where
  "dec_int j x = (case j of JNum n \<Rightarrow> Atoi n | JNull \<Rightarrow> Some x | _ \<Rightarrow> None)"

definition pow10 :: "int \<Rightarrow> rat" where
  "pow10 k = (if 0 \<le> k then 10 ^ nat k else 1 / 10 ^ nat (- k))"

definition digits_value :: "string \<Rightarrow> int" where
  "digits_value ds = fold (\<lambda>c n. n * 10 + int (of_char c - 48)) ds 0"

text \<open>The value of a number literal: sign, digits before and after the point, exponent.\<close>

definition literal_value :: "string \<Rightarrow> rat" where
  "literal_value n =
     (let neg = (take 1 n = ''-'');
          n = (if neg then drop 1 n else n);
          ip = takeWhile is_digit n;
          n = dropWhile is_digit n;
          fp = (if take 1 n = ''.'' then takeWhile is_digit (drop 1 n) else []);
          n = dropWhile (\<lambda>c. is_digit c \<or> c = CHR ''.'') n;
          eneg = (take 1 (drop 1 n) = ''-'');
          ev = digits_value (dropWhile (\<lambda>c. \<not> is_digit c) n);
          v = of_int (digits_value (ip @ fp)) * pow10 ((if eneg then - ev else ev) - int (length fp))
      in if neg then - v else v)"

definition dec_f64 :: "float64 decoder" where
  "dec_f64 j x = (case j of
       JNum n \<Rightarrow> (case f64_round (literal_value n) of Fin r \<Rightarrow> Some (Fin r) | _ \<Rightarrow> None)
     | JNull \<Rightarrow> Some x
     | _ \<Rightarrow> None)"

section \<open>Encoding numbers\<close>

definition enc_int :: "int \<Rightarrow> json" where
  "enc_int n = JNum (Itoa n)"

text \<open>\<^verbatim>\<open>strconv.AppendFloat\<close> with the shortest digits that read back as the number, searched by their count.\<close>

fun dec_exponent :: "nat \<Rightarrow> rat \<Rightarrow> int" where
  "dec_exponent 0 x = 0"
| "dec_exponent (Suc fuel) x = (if 10 \<le> x then dec_exponent fuel (x / 10) + 1 else if x < 1 then dec_exponent fuel (x * 10) - 1 else 0)"

fun shortest :: "nat \<Rightarrow> int \<Rightarrow> rat \<Rightarrow> int \<times> int" where
  "shortest 0 n x = (\<lfloor>x\<rfloor>, 0)"
| "shortest (Suc fuel) n x =
     (let q = dec_exponent 400 x - (n - 1);
          lo = \<lfloor>x / pow10 q\<rfloor>;
          ok = (\<lambda>c. rnd (of_int c * pow10 q) = x);
          up = (if ok lo \<and> ok (lo + 1) then x - of_int lo * pow10 q > of_int (lo + 1) * pow10 q - x else ok (lo + 1))
      in if ok lo \<or> ok (lo + 1) then (if up then lo + 1 else lo, q) else shortest fuel (n + 1) x)"

definition f64_digits :: "rat \<Rightarrow> string" where
  "f64_digits x =
     (let (m, q) = shortest 17 1 x;
          ds = Itoa m;
          ds = (if m = 0 then ''0'' else rev (dropWhile (\<lambda>c. c = CHR ''0'') (rev ds)));
          e = int (length (Itoa m)) - 1 + q
      in if x < rnd (pow10 (- 6)) \<or> pow10 21 \<le> x
         then take 1 ds @ (if length ds > 1 then ''.'' @ drop 1 ds else []) @ ''e'' @ (if e < 0 then ''-'' else ''+'') @ Itoa \<bar>e\<bar>
         else if e < 0 then ''0.'' @ replicate (nat (- e - 1)) CHR ''0'' @ ds
         else let ip = take (nat (e + 1)) ds; fp = drop (nat (e + 1)) ds
              in ip @ replicate (nat (e + 1) - length ip) CHR ''0'' @ (if fp = [] then [] else ''.'' @ fp))"

fun enc_f64 :: "float64 \<Rightarrow> json option" where
  "enc_f64 (Fin x) = Some (JNum (if x = 0 then ''0'' else if x < 0 then ''-'' @ f64_digits (- x) else f64_digits x))"
| "enc_f64 _ = None"

section \<open>The chat records\<close>

definition omitempty :: "bool \<Rightarrow> string \<Rightarrow> json \<Rightarrow> (string \<times> json) list" where
  "omitempty zero k v = (if zero then [] else [(k, v)])"

definition enc_string_field :: "string \<Rightarrow> string \<Rightarrow> (string \<times> json) list" where
  "enc_string_field k s = omitempty (s = []) k (JStr s)"

definition zeroMessage :: Message where
  "zeroMessage = \<lparr>Role = [], Content = [], Name = []\<rparr>"

definition enc_Message :: "Message \<Rightarrow> json" where
  "enc_Message m = JObj ([(''role'', JStr (Role m)), (''content'', JStr (Content m))] @ enc_string_field ''name'' (Name m))"

definition dec_Message :: "Message decoder" where
  "dec_Message = dec_struct (\<lambda>k v m.
     if k = ''ROLE'' then map_option (\<lambda>x. m\<lparr>Role := x\<rparr>) (dec_string v (Role m))
     else if k = ''CONTENT'' then map_option (\<lambda>x. m\<lparr>Content := x\<rparr>) (dec_string v (Content m))
     else if k = ''NAME'' then map_option (\<lambda>x. m\<lparr>Name := x\<rparr>) (dec_string v (Name m))
     else Some m)"

definition dec_ChatCompletionRequest :: "ChatCompletionRequest decoder" where
  "dec_ChatCompletionRequest = dec_struct (\<lambda>k v r.
     if k = ''MODEL'' then map_option (\<lambda>x. r\<lparr>reqModel := x\<rparr>) (dec_string v (reqModel r))
     else if k = ''MESSAGES'' then map_option (\<lambda>x. r\<lparr>Messages := x\<rparr>) (dec_list zeroMessage dec_Message v (Messages r))
     else if k = ''TEMPERATURE'' then map_option (\<lambda>x. r\<lparr>Temperature := x\<rparr>) (dec_ptr (Fin 0) dec_f64 v (Temperature r))
     else if k = ''TOP_P'' then map_option (\<lambda>x. r\<lparr>TopP := x\<rparr>) (dec_ptr (Fin 0) dec_f64 v (TopP r))
     else if k = ''N'' then map_option (\<lambda>x. r\<lparr>reqN := x\<rparr>) (dec_ptr 0 dec_int v (reqN r))
     else if k = ''STREAM'' then map_option (\<lambda>x. r\<lparr>Stream := x\<rparr>) (dec_bool v (Stream r))
     else if k = ''STOP'' then map_option (\<lambda>x. r\<lparr>Stop := x\<rparr>) (dec_list [] dec_string v (Stop r))
     else if k = ''MAX_TOKENS'' then map_option (\<lambda>x. r\<lparr>MaxTokens := x\<rparr>) (dec_ptr 0 dec_int v (MaxTokens r))
     else if k = ''PRESENCE_PENALTY'' then map_option (\<lambda>x. r\<lparr>PresencePenalty := x\<rparr>) (dec_ptr (Fin 0) dec_f64 v (PresencePenalty r))
     else if k = ''FREQUENCY_PENALTY'' then map_option (\<lambda>x. r\<lparr>FrequencyPenalty := x\<rparr>) (dec_ptr (Fin 0) dec_f64 v (FrequencyPenalty r))
     else if k = ''USER'' then map_option (\<lambda>x. r\<lparr>reqUser := x\<rparr>) (dec_string v (reqUser r))
     else Some r)"

definition enc_Usage :: "Usage \<Rightarrow> json" where
  "enc_Usage u = JObj [(''prompt_tokens'', enc_int (PromptTokens u)), (''completion_tokens'', enc_int (CompletionTokens u)),
     (''total_tokens'', enc_int (TotalTokens u))]"

definition dec_Usage :: "Usage decoder" where
  "dec_Usage = dec_struct (\<lambda>k v u.
     if k = ''PROMPT_TOKENS'' then map_option (\<lambda>x. u\<lparr>PromptTokens := x\<rparr>) (dec_int v (PromptTokens u))
     else if k = ''COMPLETION_TOKENS'' then map_option (\<lambda>x. u\<lparr>CompletionTokens := x\<rparr>) (dec_int v (CompletionTokens u))
     else if k = ''TOTAL_TOKENS'' then map_option (\<lambda>x. u\<lparr>TotalTokens := x\<rparr>) (dec_int v (TotalTokens u))
     else Some u)"

definition zeroChoice :: Choice where
  "zeroChoice = \<lparr>Index = 0, choiceMessage = zeroMessage, FinishReason = []\<rparr>"

definition enc_Choice :: "Choice \<Rightarrow> json" where
  "enc_Choice c = JObj [(''index'', enc_int (Index c)), (''message'', enc_Message (choiceMessage c)), (''finish_reason'', JStr (FinishReason c))]"

definition dec_Choice :: "Choice decoder" where
  "dec_Choice = dec_struct (\<lambda>k v c.
     if k = ''INDEX'' then map_option (\<lambda>x. c\<lparr>Index := x\<rparr>) (dec_int v (Index c))
     else if k = ''MESSAGE'' then map_option (\<lambda>x. c\<lparr>choiceMessage := x\<rparr>) (dec_Message v (choiceMessage c))
     else if k = ''FINISH_REASON'' then map_option (\<lambda>x. c\<lparr>FinishReason := x\<rparr>) (dec_string v (FinishReason c))
     else Some c)"

definition enc_slice :: "('a \<Rightarrow> json) \<Rightarrow> 'a list option \<Rightarrow> json" where
  "enc_slice f x = (case x of Some xs \<Rightarrow> JArr (map f xs) | None \<Rightarrow> JNull)"

definition zeroResponse :: ChatCompletionResponse where
  "zeroResponse = \<lparr>ID = [], Object = [], Created = 0, respModel = [], Choices = None, respUsage = zeroUsage, SystemFingerprint = []\<rparr>"

definition enc_ChatCompletionResponse :: "ChatCompletionResponse \<Rightarrow> json" where
  "enc_ChatCompletionResponse r = JObj ([(''id'', JStr (ID r)), (''object'', JStr (Object r)), (''created'', enc_int (Created r)),
     (''model'', JStr (respModel r)), (''choices'', enc_slice enc_Choice (Choices r)), (''usage'', enc_Usage (respUsage r))] @
     enc_string_field ''system_fingerprint'' (SystemFingerprint r))"

definition dec_ChatCompletionResponse :: "ChatCompletionResponse decoder" where
  "dec_ChatCompletionResponse = dec_struct (\<lambda>k v r.
     if k = ''ID'' then map_option (\<lambda>x. r\<lparr>ID := x\<rparr>) (dec_string v (ID r))
     else if k = ''OBJECT'' then map_option (\<lambda>x. r\<lparr>Object := x\<rparr>) (dec_string v (Object r))
     else if k = ''CREATED'' then map_option (\<lambda>x. r\<lparr>Created := x\<rparr>) (dec_int v (Created r))
     else if k = ''MODEL'' then map_option (\<lambda>x. r\<lparr>respModel := x\<rparr>) (dec_string v (respModel r))
     else if k = ''CHOICES'' then map_option (\<lambda>x. r\<lparr>Choices := x\<rparr>) (dec_slice zeroChoice dec_Choice v (Choices r))
     else if k = ''USAGE'' then map_option (\<lambda>x. r\<lparr>respUsage := x\<rparr>) (dec_Usage v (respUsage r))
     else if k = ''SYSTEM_FINGERPRINT'' then map_option (\<lambda>x. r\<lparr>SystemFingerprint := x\<rparr>) (dec_string v (SystemFingerprint r))
     else Some r)"

definition zeroDelta :: DeltaMessage where
  "zeroDelta = \<lparr>deltaRole = [], deltaContent = []\<rparr>"

definition enc_DeltaMessage :: "DeltaMessage \<Rightarrow> json" where
  "enc_DeltaMessage d = JObj (enc_string_field ''role'' (deltaRole d) @ enc_string_field ''content'' (deltaContent d))"

definition dec_DeltaMessage :: "DeltaMessage decoder" where
  "dec_DeltaMessage = dec_struct (\<lambda>k v d.
     if k = ''ROLE'' then map_option (\<lambda>x. d\<lparr>deltaRole := x\<rparr>) (dec_string v (deltaRole d))
     else if k = ''CONTENT'' then map_option (\<lambda>x. d\<lparr>deltaContent := x\<rparr>) (dec_string v (deltaContent d))
     else Some d)"

definition zeroChunkChoice :: ChunkChoice where
  "zeroChunkChoice = \<lparr>chunkIndex = 0, Delta = zeroDelta, chunkFinishReason = None\<rparr>"

definition enc_ptr :: "('a \<Rightarrow> json) \<Rightarrow> 'a option \<Rightarrow> json" where
  "enc_ptr f x = (case x of Some y \<Rightarrow> f y | None \<Rightarrow> JNull)"

definition enc_ChunkChoice :: "ChunkChoice \<Rightarrow> json" where
  "enc_ChunkChoice c = JObj [(''index'', enc_int (chunkIndex c)), (''delta'', enc_DeltaMessage (Delta c)),
     (''finish_reason'', enc_ptr JStr (chunkFinishReason c))]"

definition dec_ChunkChoice :: "ChunkChoice decoder" where
  "dec_ChunkChoice = dec_struct (\<lambda>k v c.
     if k = ''INDEX'' then map_option (\<lambda>x. c\<lparr>chunkIndex := x\<rparr>) (dec_int v (chunkIndex c))
     else if k = ''DELTA'' then map_option (\<lambda>x. c\<lparr>Delta := x\<rparr>) (dec_DeltaMessage v (Delta c))
     else if k = ''FINISH_REASON'' then map_option (\<lambda>x. c\<lparr>chunkFinishReason := x\<rparr>) (dec_ptr [] dec_string v (chunkFinishReason c))
     else Some c)"

definition zeroChunk :: ChatCompletionChunk where
  "zeroChunk = \<lparr>chunkID = [], chunkObject = [], chunkCreated = 0, chunkModel = [], chunkChoices = None, chunkUsage = None\<rparr>"

definition enc_ChatCompletionChunk :: "ChatCompletionChunk \<Rightarrow> json" where
  "enc_ChatCompletionChunk c = JObj ([(''id'', JStr (chunkID c)), (''object'', JStr (chunkObject c)), (''created'', enc_int (chunkCreated c)),
     (''model'', JStr (chunkModel c)), (''choices'', enc_slice enc_ChunkChoice (chunkChoices c))] @
     omitempty (chunkUsage c = None) ''usage'' (enc_ptr enc_Usage (chunkUsage c)))"

definition dec_ChatCompletionChunk :: "ChatCompletionChunk decoder" where
  "dec_ChatCompletionChunk = dec_struct (\<lambda>k v c.
     if k = ''ID'' then map_option (\<lambda>x. c\<lparr>chunkID := x\<rparr>) (dec_string v (chunkID c))
     else if k = ''OBJECT'' then map_option (\<lambda>x. c\<lparr>chunkObject := x\<rparr>) (dec_string v (chunkObject c))
     else if k = ''CREATED'' then map_option (\<lambda>x. c\<lparr>chunkCreated := x\<rparr>) (dec_int v (chunkCreated c))
     else if k = ''MODEL'' then map_option (\<lambda>x. c\<lparr>chunkModel := x\<rparr>) (dec_string v (chunkModel c))
     else if k = ''CHOICES'' then map_option (\<lambda>x. c\<lparr>chunkChoices := x\<rparr>) (dec_slice zeroChunkChoice dec_ChunkChoice v (chunkChoices c))
     else if k = ''USAGE'' then map_option (\<lambda>x. c\<lparr>chunkUsage := x\<rparr>) (dec_ptr zeroUsage dec_Usage v (chunkUsage c))
     else Some c)"

text \<open>\<^verbatim>\<open>json.Unmarshal\<close> and \<^verbatim>\<open>json.Marshal\<close> of a record, and the text \<^verbatim>\<open>Encoder.Encode\<close> writes.\<close>

definition unmarshal :: "'a decoder \<Rightarrow> 'a \<Rightarrow> string \<Rightarrow> 'a option" where
  "unmarshal f zero s = (case json_unmarshal s of Some j \<Rightarrow> f j zero | None \<Rightarrow> None)"

definition encoder_text :: "json \<Rightarrow> string" where
  "encoder_text j = json_text j @ [CHR 0x0A]"

section \<open>Specification vocabulary\<close>

text \<open>The chunks Go can hold: byte strings that are UTF-8 text, and 64-bit integers.\<close>

definition delta_ok :: "DeltaMessage \<Rightarrow> bool" where
  "delta_ok d \<longleftrightarrow> valid_utf8 (deltaRole d) \<and> valid_utf8 (deltaContent d)"

definition chunk_choice_ok :: "ChunkChoice \<Rightarrow> bool" where
  "chunk_choice_ok c \<longleftrightarrow> in_int64 (chunkIndex c) \<and> delta_ok (Delta c) \<and> pred_option valid_utf8 (chunkFinishReason c)"

definition usage_ok :: "Usage \<Rightarrow> bool" where
  "usage_ok u \<longleftrightarrow> in_int64 (PromptTokens u) \<and> in_int64 (CompletionTokens u) \<and> in_int64 (TotalTokens u)"

definition chunk_ok :: "ChatCompletionChunk \<Rightarrow> bool" where
  "chunk_ok c \<longleftrightarrow> valid_utf8 (chunkID c) \<and> valid_utf8 (chunkObject c) \<and> in_int64 (chunkCreated c) \<and> valid_utf8 (chunkModel c) \<and>
     pred_option (list_all chunk_choice_ok) (chunkChoices c) \<and> pred_option usage_ok (chunkUsage c)"

definition message_ok :: "Message \<Rightarrow> bool" where
  "message_ok m \<longleftrightarrow> valid_utf8 (Role m) \<and> valid_utf8 (Content m) \<and> valid_utf8 (Name m)"

definition response_ok :: "ChatCompletionResponse \<Rightarrow> bool" where
  "response_ok r \<longleftrightarrow> valid_utf8 (ID r) \<and> valid_utf8 (Object r) \<and> in_int64 (Created r) \<and> valid_utf8 (respModel r) \<and>
     pred_option (list_all (\<lambda>c. in_int64 (Index c) \<and> message_ok (choiceMessage c) \<and> valid_utf8 (FinishReason c))) (Choices r) \<and>
     usage_ok (respUsage r) \<and> valid_utf8 (SystemFingerprint r)"

section \<open>Numbers\<close>

lemma scan_digits:
  assumes "list_all is_digit s" "st = NumInt"
  shows "scan_num st s = Done s []"
  using assms by (induction s arbitrary: st) (simp_all add: num_final_def)

lemma nat_digits_head: "0 < n \<Longrightarrow> hd (nat_digits n) \<noteq> CHR ''0''"
proof (induction n rule: nat_digits.induct)
  case (1 n)
  show ?case
  proof (cases "n < 10")
    case True
    then have "48 + n < 256" by simp
    then have "of_char (digit_char n) = (48 + n :: nat)" by (simp add: digit_char_def)
    moreover have "of_char (CHR ''0'') = (48 :: nat)" by simp
    ultimately have "digit_char n \<noteq> CHR ''0''" using 1(2) by (metis add_cancel_right_right less_irrefl)
    then show ?thesis using True by (simp add: nat_digits.simps)
  next
    case False
    moreover have "nat_digits (n div 10) \<noteq> []" by (subst nat_digits.simps) simp
    moreover have "nat_digits n = nat_digits (n div 10) @ [digit_char (n mod 10)]" using False by (subst nat_digits.simps) simp
    ultimately show ?thesis using 1(1) by (simp add: hd_append)
  qed
qed

lemma number_nat_digits: "0 < n \<Longrightarrow> \<exists>c s. nat_digits n = c # s \<and> is_digit c \<and> c \<noteq> CHR ''0'' \<and> list_all is_digit s"
proof -
  assume "0 < n"
  moreover obtain c s where "nat_digits n = c # s" by (cases "nat_digits n") (use nat_digits.simps [of n] in \<open>auto split: if_splits\<close>)
  ultimately show ?thesis using nat_digits_head [of n] nat_digits_are_digits [of _ n] by (auto simp: list_all_iff)
qed

lemma is_number_Itoa: "is_number (Itoa n)"
proof (cases "n = 0")
  case True
  moreover have "is_number (Itoa 0)" by code_simp
  ultimately show ?thesis by simp
next
  case False
  then obtain c s where cs: "nat_digits (nat \<bar>n\<bar>) = c # s" "is_digit c" "c \<noteq> CHR ''0''" "list_all is_digit s"
    using number_nat_digits [of "nat \<bar>n\<bar>"] by auto
  have m: "c \<noteq> CHR ''-''" using cs(2) by (auto simp: is_digit_def)
  show ?thesis
  proof (cases "n < 0")
    case True
    then have "Itoa n = CHR ''-'' # c # s" using cs(1) by (simp add: Itoa_def)
    then show ?thesis using cs by (simp add: is_number_def token_at_number num_start_def scan_digits)
  next
    case False
    then have "Itoa n = c # s" using cs(1) by (simp add: Itoa_def)
    then show ?thesis using cs m by (simp add: is_number_def token_at_number num_start_def scan_digits)
  qed
qed

lemma dec_enc_int: "in_int64 n \<Longrightarrow> dec_int (enc_int n) x = Some n"
  by (simp add: dec_int_def enc_int_def Atoi_Itoa)

section \<open>Records read back\<close>

lemma fold_names:
  "fold_name ''id'' = ''ID''" "fold_name ''object'' = ''OBJECT''" "fold_name ''created'' = ''CREATED''" "fold_name ''model'' = ''MODEL''"
  "fold_name ''choices'' = ''CHOICES''" "fold_name ''usage'' = ''USAGE''" "fold_name ''index'' = ''INDEX''" "fold_name ''delta'' = ''DELTA''"
  "fold_name ''message'' = ''MESSAGE''" "fold_name ''finish_reason'' = ''FINISH_REASON''" "fold_name ''role'' = ''ROLE''"
  "fold_name ''content'' = ''CONTENT''" "fold_name ''name'' = ''NAME''" "fold_name ''prompt_tokens'' = ''PROMPT_TOKENS''"
  "fold_name ''completion_tokens'' = ''COMPLETION_TOKENS''" "fold_name ''total_tokens'' = ''TOTAL_TOKENS''"
  "fold_name ''system_fingerprint'' = ''SYSTEM_FINGERPRINT''"
  by code_simp+

lemma dec_string_JStr [simp]: "dec_string (JStr s) x = Some s"
  by (simp add: dec_string_def)

lemma dec_elems_map:
  assumes "\<forall>x \<in> set xs. f (g x) zero = Some x"
  shows "dec_elems zero f (map g xs) [] = Some xs"
  using assms by (induction xs) simp_all

lemma dec_slice_enc:
  assumes "pred_option (list_all ok) x" "\<And>y. ok y \<Longrightarrow> f (g y) zero = Some y"
  shows "dec_slice zero f (enc_slice g x) None = Some x"
  using assms by (cases x) (auto simp: dec_slice_def enc_slice_def list_all_iff intro!: dec_elems_map)

lemmas codec_simps = fold_names dec_struct_def dec_enc_int enc_string_field_def omitempty_def enc_ptr_def dec_ptr_def

lemma dec_enc_Usage: "usage_ok u \<Longrightarrow> dec_Usage (enc_Usage u) x = Some u"
  by (simp add: usage_ok_def enc_Usage_def dec_Usage_def codec_simps del: fold_name.simps)

lemma dec_enc_Delta: "dec_DeltaMessage (enc_DeltaMessage d) zeroDelta = Some d"
  by (simp add: enc_DeltaMessage_def dec_DeltaMessage_def zeroDelta_def codec_simps del: fold_name.simps)

lemma dec_enc_ChunkChoice: "chunk_choice_ok c \<Longrightarrow> dec_ChunkChoice (enc_ChunkChoice c) zeroChunkChoice = Some c"
  by (simp add: chunk_choice_ok_def enc_ChunkChoice_def dec_ChunkChoice_def zeroChunkChoice_def dec_enc_Delta codec_simps
      del: fold_name.simps split: option.splits)

lemma dec_enc_Chunk: "chunk_ok c \<Longrightarrow> dec_ChatCompletionChunk (enc_ChatCompletionChunk c) zeroChunk = Some c"
proof -
  assume c: "chunk_ok c"
  then have "dec_slice zeroChunkChoice dec_ChunkChoice (enc_slice enc_ChunkChoice (chunkChoices c)) None = Some (chunkChoices c)"
    by (intro dec_slice_enc [of chunk_choice_ok]) (auto simp: chunk_ok_def dec_enc_ChunkChoice)
  moreover have "enc_Usage u \<noteq> JNull" for u by (simp add: enc_Usage_def)
  ultimately show ?thesis using c
    by (cases "chunkUsage c") (simp_all add: chunk_ok_def enc_ChatCompletionChunk_def dec_ChatCompletionChunk_def zeroChunk_def dec_enc_Usage codec_simps
        del: fold_name.simps)
qed

lemma dec_enc_Message: "dec_Message (enc_Message m) zeroMessage = Some m"
  by (simp add: enc_Message_def dec_Message_def zeroMessage_def codec_simps del: fold_name.simps)

lemma dec_enc_Choice: "in_int64 (Index c) \<Longrightarrow> dec_Choice (enc_Choice c) zeroChoice = Some c"
  by (simp add: enc_Choice_def dec_Choice_def zeroChoice_def dec_enc_Message codec_simps del: fold_name.simps)

lemma dec_enc_Response: "response_ok r \<Longrightarrow> dec_ChatCompletionResponse (enc_ChatCompletionResponse r) zeroResponse = Some r"
proof -
  assume r: "response_ok r"
  then have "dec_slice zeroChoice dec_Choice (enc_slice enc_Choice (Choices r)) None = Some (Choices r)"
    by (intro dec_slice_enc [of "\<lambda>c. in_int64 (Index c)"]) (auto simp: response_ok_def dec_enc_Choice list_all_iff pred_option_def)
  then show ?thesis using r
    by (simp add: response_ok_def enc_ChatCompletionResponse_def dec_ChatCompletionResponse_def zeroResponse_def dec_enc_Usage codec_simps
        del: fold_name.simps)
qed

section \<open>Text that reads back\<close>

lemma enc_int_simps [simp]: "json_wf (enc_int n)" "json_depth (enc_int n) = 0"
  by (simp_all add: enc_int_def is_number_Itoa)

lemma json_wf_slice: "pred_option (list_all ok) x \<Longrightarrow> (\<And>y. ok y \<Longrightarrow> json_wf (g y)) \<Longrightarrow> json_wf (enc_slice g x)"
  by (cases x) (auto simp: enc_slice_def list_all_iff)

lemma json_depth_slice: "(\<And>y. json_depth (g y) \<le> n) \<Longrightarrow> json_depth (enc_slice g x) \<le> Suc n"
proof (cases x)
  case (Some xs)
  moreover assume "\<And>y. json_depth (g y) \<le> n"
  ultimately show ?thesis by (auto simp: enc_slice_def) (induction xs arbitrary: x, simp_all)
qed (simp add: enc_slice_def)

lemma valid_utf8_ascii: "list_all (\<lambda>c. of_char c < (128 :: nat)) s \<Longrightarrow> valid_utf8 s"
  by (induction s) (subst valid_utf8.simps, simp)+

lemma names_utf8:
  "valid_utf8 ''id''" "valid_utf8 ''object''" "valid_utf8 ''created''" "valid_utf8 ''model''" "valid_utf8 ''choices''" "valid_utf8 ''usage''"
  "valid_utf8 ''index''" "valid_utf8 ''delta''" "valid_utf8 ''message''" "valid_utf8 ''finish_reason''" "valid_utf8 ''role''" "valid_utf8 ''content''"
  "valid_utf8 ''name''" "valid_utf8 ''prompt_tokens''" "valid_utf8 ''completion_tokens''" "valid_utf8 ''total_tokens''"
  "valid_utf8 ''system_fingerprint''"
  by (rule valid_utf8_ascii, simp)+

lemma enc_Usage_text: "json_wf (enc_Usage u)" "json_depth (enc_Usage u) = 1"
  by (simp_all add: enc_Usage_def names_utf8)

lemma enc_Delta_text: "delta_ok d \<Longrightarrow> json_wf (enc_DeltaMessage d)" "json_depth (enc_DeltaMessage d) = 1"
  by (simp_all add: delta_ok_def enc_DeltaMessage_def enc_string_field_def omitempty_def names_utf8)

lemma enc_ChunkChoice_text: "chunk_choice_ok c \<Longrightarrow> json_wf (enc_ChunkChoice c)" "json_depth (enc_ChunkChoice c) = 2"
  by (auto simp: chunk_choice_ok_def enc_ChunkChoice_def enc_ptr_def enc_Delta_text names_utf8 split: option.splits)

lemma enc_Chunk_text: "chunk_ok c \<Longrightarrow> json_wf (enc_ChatCompletionChunk c)" "json_depth (enc_ChatCompletionChunk c) \<le> maxNestingDepth"
proof -
  have "json_depth (enc_slice enc_ChunkChoice (chunkChoices c)) \<le> 3"
    using json_depth_slice [of enc_ChunkChoice 2] by (simp add: enc_ChunkChoice_text)
  then show "json_depth (enc_ChatCompletionChunk c) \<le> maxNestingDepth"
    by (simp add: enc_ChatCompletionChunk_def omitempty_def enc_ptr_def enc_Usage_text maxNestingDepth_def split: option.splits)
  assume c: "chunk_ok c"
  then have "json_wf (enc_slice enc_ChunkChoice (chunkChoices c))"
    by (intro json_wf_slice [of chunk_choice_ok]) (auto simp: chunk_ok_def enc_ChunkChoice_text)
  with c show "json_wf (enc_ChatCompletionChunk c)"
    by (simp add: chunk_ok_def enc_ChatCompletionChunk_def omitempty_def enc_ptr_def enc_Usage_text names_utf8 split: option.splits)
qed

lemma enc_Message_text: "message_ok m \<Longrightarrow> json_wf (enc_Message m)" "json_depth (enc_Message m) = 1"
  by (simp_all add: message_ok_def enc_Message_def enc_string_field_def omitempty_def names_utf8)

lemma enc_Response_text: "response_ok r \<Longrightarrow> json_wf (enc_ChatCompletionResponse r)" "json_depth (enc_ChatCompletionResponse r) \<le> maxNestingDepth"
proof -
  have "json_depth (enc_slice enc_Choice (Choices r)) \<le> 3"
    using json_depth_slice [of enc_Choice 2] by (simp add: enc_Choice_def enc_Message_text)
  then show "json_depth (enc_ChatCompletionResponse r) \<le> maxNestingDepth"
    by (simp add: enc_ChatCompletionResponse_def enc_string_field_def omitempty_def enc_Usage_text maxNestingDepth_def)
  assume r: "response_ok r"
  then have "json_wf (enc_slice enc_Choice (Choices r))" unfolding response_ok_def
    by (elim conjE, rotate_tac 4) (rule json_wf_slice, assumption, simp add: enc_Choice_def enc_Message_text names_utf8)
  with r show "json_wf (enc_ChatCompletionResponse r)"
    by (simp add: response_ok_def enc_ChatCompletionResponse_def enc_string_field_def omitempty_def enc_Usage_text names_utf8)
qed

lemma unmarshal_text:
  assumes "json_wf j" "json_depth j \<le> maxNestingDepth" "list_all is_space r"
  shows "unmarshal f zero (json_text j @ r) = f j zero"
proof -
  have "delimited r" using assms(3) by (cases r) (simp_all add: delimited_def)
  then show ?thesis using assms by (simp add: unmarshal_def json_unmarshal_def json_decode_text)
qed

end
