(* ===== verification/Http_Response.thy ===== *)
theory Http_Response
  imports Metrics Json_Codec "HOL-Library.AList"
begin

text \<open>
  The response side of \<^verbatim>\<open>net/http\<close> as the gateway uses it, the error rendering of \<^verbatim>\<open>internal/apierr\<close> and the
  error mapping of \<^verbatim>\<open>internal/handler/errors.go\<close>. A \<^verbatim>\<open>http.ResponseWriter\<close> is the mutable header map, what was sent of it
  with the status at the first \<^verbatim>\<open>WriteHeader\<close>, the body bytes written, the number of flushes and whether a handler
  panicked on an invalid status code.
\<close>

section \<open>Header names\<close>

definition ascii_upper :: "char \<Rightarrow> char" where
  "ascii_upper c = (let n = of_char c :: nat in if 97 \<le> n \<and> n \<le> 122 then char_of (n - 32) else c)"

definition token_char :: "char \<Rightarrow> bool" where
  "token_char c = (let n = of_char c :: nat in
     (48 \<le> n \<and> n \<le> 57) \<or> (65 \<le> n \<and> n \<le> 90) \<or> (97 \<le> n \<and> n \<le> 122) \<or> c \<in> set ''!#$%&*+-.^_`|~'' \<or> n = 39)"

fun canonical_chars :: "bool \<Rightarrow> string \<Rightarrow> string" where
  "canonical_chars upper [] = []"
| "canonical_chars upper (c # s) =
     (if upper then ascii_upper c else ascii_lower c) # canonical_chars (c = CHR ''-'') s"

definition CanonicalMIMEHeaderKey :: "string \<Rightarrow> string" where
  "CanonicalMIMEHeaderKey s = (if list_all token_char s then canonical_chars True s else s)"

section \<open>Response writers\<close>

type_synonym headers = "(string \<times> string) list"

record ResponseWriter =
  hdr :: headers
  sent :: "(int \<times> headers) option"
  body :: string
  flushes :: nat
  panicked :: bool

definition new_response :: ResponseWriter where
  "new_response = \<lparr>hdr = [], sent = None, body = [], flushes = 0, panicked = False\<rparr>"

definition Header_Set :: "string \<Rightarrow> string \<Rightarrow> ResponseWriter \<Rightarrow> ResponseWriter" where
  "Header_Set k v w = (if panicked w then w else w\<lparr>hdr := AList.update (CanonicalMIMEHeaderKey k) v (hdr w)\<rparr>)"

definition Header_Get :: "string \<Rightarrow> headers \<Rightarrow> string" where
  "Header_Get k h = (case map_of h (CanonicalMIMEHeaderKey k) of Some v \<Rightarrow> v | None \<Rightarrow> [])"

text \<open>\<^verbatim>\<open>WriteHeader\<close>: an invalid code panics, a second call is ignored, a 1xx other than 101 is informational.\<close>

definition WriteHeader :: "int \<Rightarrow> ResponseWriter \<Rightarrow> ResponseWriter" where
  "WriteHeader code w =
     (if panicked w \<or> sent w \<noteq> None then w
      else if code < 100 \<or> 999 < code then w\<lparr>panicked := True\<rparr>
      else if code \<le> 199 \<and> code \<noteq> 101 then w
      else w\<lparr>sent := Some (code, hdr w)\<rparr>)"

definition Write_bytes :: "string \<Rightarrow> ResponseWriter \<Rightarrow> ResponseWriter" where
  "Write_bytes b w = (let w = (if sent w = None then WriteHeader 200 w else w) in
     if panicked w then w else w\<lparr>body := body w @ b\<rparr>)"

definition Flush :: "ResponseWriter \<Rightarrow> ResponseWriter" where
  "Flush w = (let w = (if sent w = None then WriteHeader 200 w else w) in
     if panicked w then w else w\<lparr>flushes := Suc (flushes w)\<rparr>)"

text \<open>
  What a handler does to the writer it is given, as data: the same calls can then be made on the connection's writer or on one that wraps it. A handler that
  panics, or that waits forever, does so as its last operation and never returns.
\<close>

datatype writer_op = SetHeader string string | SendHeader int | SendBytes string | FlushNow | Panic | Block

fun apply_op :: "writer_op \<Rightarrow> ResponseWriter \<Rightarrow> ResponseWriter" where
  "apply_op (SetHeader k v) w = Header_Set k v w"
| "apply_op (SendHeader code) w = WriteHeader code w"
| "apply_op (SendBytes b) w = Write_bytes b w"
| "apply_op FlushNow w = Flush w"
| "apply_op Panic w = w\<lparr>panicked := True\<rparr>"
| "apply_op Block w = w"

definition run_ops :: "writer_op list \<Rightarrow> ResponseWriter \<Rightarrow> ResponseWriter" where
  "run_ops ops w = fold apply_op ops w"

definition returns :: "writer_op list \<Rightarrow> bool" where
  "returns ops \<longleftrightarrow> Panic \<notin> set ops \<and> Block \<notin> set ops"

section \<open>Error bodies\<close>

record APIError =
  errMessage :: string
  errType :: string
  errCode :: string

definition enc_APIError :: "APIError \<Rightarrow> json" where
  "enc_APIError e = JObj [(''error'', JObj ([(''message'', JStr (errMessage e)), (''type'', JStr (errType e))] @ enc_string_field ''code'' (errCode e)))]"

definition error_text :: "APIError \<Rightarrow> string" where
  "error_text e = encoder_text (enc_APIError e)"

definition apierr_Write :: "int \<Rightarrow> string \<Rightarrow> string \<Rightarrow> string \<Rightarrow> writer_op list" where
  "apierr_Write status typ code message =
     [SetHeader ''Content-Type'' ''application/json'', SendHeader status,
      SendBytes (error_text \<lparr>errMessage = message, errType = typ, errCode = code\<rparr>)]"

definition retry_seconds :: "(float64 \<Rightarrow> int) \<Rightarrow> duration \<Rightarrow> int" where
  "retry_seconds conv retryAfter =
     (let secs = f64_to_int64 conv (f64_ceil (duration_Seconds retryAfter)) in if secs < 1 then 1 else secs)"

definition WriteRateLimit :: "(float64 \<Rightarrow> int) \<Rightarrow> duration \<Rightarrow> string \<Rightarrow> writer_op list" where
  "WriteRateLimit conv retryAfter message =
     (let secs = retry_seconds conv retryAfter;
          message = (if message = [] then ''Rate limit exceeded. Try again in '' @ Itoa secs @ ''s.'' else message)
      in SetHeader ''Retry-After'' (Itoa secs) # apierr_Write 429 ''rate_limit_error'' ''rate_limit_exceeded'' message)"

definition provider_error_status :: "ProviderError \<Rightarrow> int" where
  "provider_error_status pe = (if StatusCode pe \<ge> 500 then 502 else StatusCode pe)"

definition handleProviderError :: "go_error \<Rightarrow> writer_op list" where
  "handleProviderError err =
     (case errors_As_ProviderError err of
        Some pe \<Rightarrow> apierr_Write (provider_error_status pe) (peType pe) ''provider_error'' (peMessage pe)
      | None \<Rightarrow> apierr_Write 502 ''upstream_error'' ''provider_error'' ''upstream provider error'')"

text \<open>The status codes that end a response.\<close>

definition final_code :: "int \<Rightarrow> bool" where
  "final_code code \<longleftrightarrow> code = 101 \<or> (200 \<le> code \<and> code \<le> 999)"

section \<open>Lemmas\<close>

lemma run_ops_simps [simp]: "run_ops [] w = w" "run_ops (xs @ ys) w = run_ops ys (run_ops xs w)"
  by (simp_all add: run_ops_def)

lemma run_ops_Cons: "run_ops (x # xs) w = run_ops xs (apply_op x w)"
  by (simp add: run_ops_def)

lemma map_of_hdr_Set [simp]:
  "\<not> panicked w \<Longrightarrow> map_of (hdr (Header_Set k v w)) = (map_of (hdr w))(CanonicalMIMEHeaderKey k \<mapsto> v)"
  by (simp add: Header_Set_def update_conv')

lemma Header_Set_frame [simp]:
  "sent (Header_Set k v w) = sent w" "body (Header_Set k v w) = body w" "panicked (Header_Set k v w) = panicked w"
  "flushes (Header_Set k v w) = flushes w"
  by (simp_all add: Header_Set_def)

lemma WriteHeader_final:
  "final_code code \<Longrightarrow> \<not> panicked w \<Longrightarrow> sent w = None \<Longrightarrow> WriteHeader code w = w\<lparr>sent := Some (code, hdr w)\<rparr>"
  by (auto simp: WriteHeader_def final_code_def)

lemma WriteHeader_once: "sent w \<noteq> None \<Longrightarrow> WriteHeader code w = w"
  by (simp add: WriteHeader_def)

lemma apierr_Write_fresh:
  assumes "final_code status" "\<not> panicked w" "sent w = None"
  shows "\<exists>h. run_ops (apierr_Write status typ code message) w =
      w\<lparr>hdr := h, sent := Some (status, h), body := body w @ error_text \<lparr>errMessage = message, errType = typ, errCode = code\<rparr>\<rparr> \<and>
    map_of h = (map_of (hdr w))(''Content-Type'' \<mapsto> ''application/json'')"
proof (intro exI conjI)
  let ?h = "AList.update ''Content-Type'' ''application/json'' (hdr w)"
  have c: "CanonicalMIMEHeaderKey ''Content-Type'' = ''Content-Type''" by code_simp
  have hs: "Header_Set ''Content-Type'' ''application/json'' w = w\<lparr>hdr := ?h\<rparr>" using assms(2) by (simp add: Header_Set_def c)
  show "run_ops (apierr_Write status typ code message) w =
      w\<lparr>hdr := ?h, sent := Some (status, ?h), body := body w @ error_text \<lparr>errMessage = message, errType = typ, errCode = code\<rparr>\<rparr>"
    using assms by (simp add: apierr_Write_def run_ops_def Write_bytes_def hs WriteHeader_final)
  show "map_of ?h = (map_of (hdr w))(''Content-Type'' \<mapsto> ''application/json'')" by (rule update_conv')
qed

lemma whole_seconds_exact:
  assumes "0 \<le> sec" "sec < 2 ^ 22" "0 < x" "x < 1" "1 / 2 ^ 30 \<le> x"
  shows "\<lceil>rnd (of_int sec + rnd x)\<rceil> = sec + 1"
proof -
  have "rnd (pow2 (- 30)) \<le> rnd x" using assms(5) by (intro rnd_mono) (simp add: pow2_def)
  then have lo: "pow2 (- 30) \<le> rnd x" by simp
  have "rnd x \<le> rnd (of_int 1)" using assms(4) by (intro rnd_mono) simp
  then have hi: "rnd x \<le> 1" using rnd_of_int [of 1] by simp
  let ?m = "sec * 2 ^ 30 + 1"
  have "of_int sec + pow2 (- 30) = of_int ?m * pow2 (- 30)" by (simp add: pow2_def field_simps)
  then have "rnd (of_int sec + pow2 (- 30)) = of_int sec + pow2 (- 30)"
    by (rule rnd_exact) (use assms(1,2) in simp_all)
  then have "of_int sec + pow2 (- 30) \<le> rnd (of_int sec + rnd x)"
    using rnd_mono [of "of_int sec + pow2 (- 30)" "of_int sec + rnd x"] lo by simp
  then have 1: "of_int sec < rnd (of_int sec + rnd x)" using pow2_pos [of "- 30"] by linarith
  have "rnd (of_int sec + rnd x) \<le> rnd (of_int (sec + 1))" using hi by (intro rnd_mono) simp
  also have "\<dots> = of_int (sec + 1)" using assms(1,2) by (intro rnd_of_int) simp
  finally show ?thesis using 1 by (intro ceiling_unique) simp_all
qed

lemma duration_Seconds_ceil:
  assumes "0 \<le> d" "d < 2 ^ 22 * nanosPerSecond"
  shows "f64_to_int64 conv (f64_ceil (duration_Seconds d)) = (d + nanosPerSecond - 1) div nanosPerSecond"
proof -
  define sec where "sec = d div nanosPerSecond"
  define ns where "ns = d mod nanosPerSecond"
  have n: "nanosPerSecond = 1000000000" by (simp add: nanosPerSecond_def)
  have d: "d = sec * 1000000000 + ns" "0 \<le> ns" "ns < 1000000000" unfolding sec_def ns_def n by simp_all
  have sec: "0 \<le> sec" "sec < 2 ^ 22" using assms d unfolding n by linarith+
  have sm: "d sdiv nanosPerSecond = sec" "d smod nanosPerSecond = ns"
    unfolding sec_def ns_def using assms(1)
    by (cases "d = 0"; simp add: signed_divide_int_def signed_modulo_int_def n)+
  let ?x = "of_int ns / 1000000000 :: rat"
  have x: "0 \<le> ?x" "?x < 1" using d by simp_all
  then have r: "0 \<le> rnd ?x" "rnd ?x \<le> 1" using rnd_mono [of ?x "of_int 1"] rnd_of_int [of 1] by (simp_all add: rnd_nonneg)
  have big: "(2 :: rat) ^ 23 \<le> 2 ^ 1023" by simp
  have fx: "f64_round ?x = Fin (rnd ?x)" using x by (intro f64_round_finite order_trans [OF _ big]) simp
  have "of_int sec \<le> (of_int (2 ^ 22) :: rat)" using sec(2) by (simp only: of_int_le_iff less_imp_le)
  then have "\<bar>of_int sec + rnd ?x\<bar> \<le> 2 ^ 23" using sec(1) r by simp
  then have fs: "f64_round (of_int sec + rnd ?x) = Fin (rnd (of_int sec + rnd ?x))"
    by (intro f64_round_finite) (rule order_trans [OF _ big])
  have S: "duration_Seconds d = Fin (rnd (of_int sec + rnd ?x))"
    unfolding duration_Seconds_def sm using sec d fx fs by (simp add: f64_of_int_small)
  define q where "q = (if ns = 0 then sec else sec + 1)"
  have "\<lceil>rnd (of_int sec + rnd ?x)\<rceil> = q"
  proof (cases "ns = 0")
    case True
    then show ?thesis using sec by (simp add: q_def)
  next
    case False
    then have "1 \<le> ns" using d(2) by simp
    then have "(1 :: rat) / 1000000000 \<le> ?x" by simp
    then have "1 / 2 ^ 30 \<le> ?x" by (rule order_trans [rotated]) simp
    with False x sec show ?thesis unfolding q_def by (intro trans [OF whole_seconds_exact]) simp_all
  qed
  moreover have "in_int64 q" using sec by (simp add: q_def in_int64_def)
  moreover have "0 \<le> q" using sec by (simp add: q_def)
  ultimately have "f64_to_int64 conv (f64_ceil (duration_Seconds d)) = q" by (simp add: S)
  moreover have "(d + nanosPerSecond - 1) div nanosPerSecond = q"
  proof (cases "ns = 0")
    case True
    then show ?thesis using d(1) by (simp add: n q_def)
  next
    case False
    then have "d + nanosPerSecond - 1 = (sec + 1) * 1000000000 + (ns - 1)" using d(1) by (simp add: n)
    moreover have "((sec + 1) * 1000000000 + (ns - 1)) div 1000000000 = sec + 1" using False d by simp
    ultimately show ?thesis using False by (simp add: n q_def)
  qed
  ultimately show ?thesis by simp
qed

lemma rate_limit_response:
  assumes "0 \<le> d" "d < 2 ^ 22 * nanosPerSecond" "\<not> panicked w" "sent w = None"
  shows "\<exists>h. sent (run_ops (WriteRateLimit conv d message) w) = Some (429, h) \<and> \<not> panicked (run_ops (WriteRateLimit conv d message) w) \<and>
    Header_Get ''Retry-After'' h = Itoa (max 1 ((d + nanosPerSecond - 1) div nanosPerSecond)) \<and>
    (\<forall>k. k \<notin> {''Retry-After'', ''Content-Type''} \<longrightarrow> map_of h k = map_of (hdr w) k)"
proof -
  let ?secs = "retry_seconds conv d"
  have secs: "?secs = max 1 ((d + nanosPerSecond - 1) div nanosPerSecond)"
    unfolding retry_seconds_def duration_Seconds_ceil [OF assms(1,2)] by (simp add: Let_def max_def)
  let ?w = "Header_Set ''Retry-After'' (Itoa ?secs) w"
  have fin: "final_code 429" by (simp add: final_code_def)
  have w: "\<not> panicked ?w" "sent ?w = None" using assms(3,4) by simp_all
  have c: "CanonicalMIMEHeaderKey ''Retry-After'' = ''Retry-After''" by code_simp
  have "\<exists>h. run_ops (apierr_Write 429 ty cd msg) ?w =
      ?w\<lparr>hdr := h, sent := Some (429, h), body := body ?w @ error_text \<lparr>errMessage = msg, errType = ty, errCode = cd\<rparr>\<rparr> \<and>
    map_of h = (map_of (hdr ?w))(''Content-Type'' \<mapsto> ''application/json'')" for ty cd msg
    by (rule apierr_Write_fresh [OF fin w])
  then obtain h msg where h: "run_ops (WriteRateLimit conv d message) w = ?w\<lparr>hdr := h, sent := Some (429, h), body := msg\<rparr>"
    "map_of h = (map_of (hdr ?w))(''Content-Type'' \<mapsto> ''application/json'')"
    unfolding WriteRateLimit_def Let_def run_ops_Cons apply_op.simps by blast
  show ?thesis
    by (rule exI [of _ h]) (use h w assms(3) in \<open>simp add: Header_Get_def c secs\<close>)
qed

section \<open>Properties\<close>

text \<open>
  A rate-limit response on a fresh writer is a 429 whose \<^verbatim>\<open>Retry-After\<close> is the wait rounded up to whole seconds and
  never below 1, for every wait from 0 to \<open>2 ^ 22\<close> seconds (48 days): the detour through floating-point seconds loses
  nothing. The headers already set are sent with it.
\<close>

theorem WriteRateLimit_retry_after:
  assumes "0 \<le> d" "d < 2 ^ 22 * nanosPerSecond" "\<not> panicked w" "sent w = None"
  shows "\<exists>h. sent (run_ops (WriteRateLimit conv d message) w) = Some (429, h) \<and> \<not> panicked (run_ops (WriteRateLimit conv d message) w) \<and>
    Header_Get ''Retry-After'' h = Itoa (max 1 ((d + nanosPerSecond - 1) div nanosPerSecond)) \<and>
    (\<forall>k. k \<notin> {''Retry-After'', ''Content-Type''} \<longrightarrow> map_of h k = map_of (hdr w) k)"
  using assms by (rule rate_limit_response)

theorem WriteRateLimit_retry_after_witness:
  "\<exists>h. sent (run_ops (WriteRateLimit (\<lambda>_. 0) 1500000000 []) new_response) = Some (429, h) \<and> Header_Get ''Retry-After'' h = ''2''"
proof -
  have "Itoa (max 1 ((1500000000 + nanosPerSecond - 1) div nanosPerSecond)) = ''2''"
    unfolding nanosPerSecond_def by code_simp
  moreover have "(1500000000 :: int) < 2 ^ 22 * nanosPerSecond" "\<not> panicked new_response" "sent new_response = None"
    by (simp_all add: nanosPerSecond_def new_response_def)
  ultimately show ?thesis
    using WriteRateLimit_retry_after [of 1500000000 new_response "\<lambda>_. 0" "[]"] by auto
qed

text \<open>
  Provider failures reach the client with the right status: a provider error below 500 keeps its status, type and message, one
  of 500 or above becomes 502, and any other error is a 502 \<^verbatim>\<open>upstream_error\<close> that does not reveal the error's text.
\<close>

theorem handleProviderError_status:
  assumes "\<not> panicked w" "sent w = None" "\<And>pe. errors_As_ProviderError err = Some pe \<Longrightarrow> 200 \<le> StatusCode pe"
  shows "\<exists>h. run_ops (handleProviderError err) w = (case errors_As_ProviderError err of
      Some pe \<Rightarrow> w\<lparr>hdr := h, sent := Some (if 500 \<le> StatusCode pe then 502 else StatusCode pe, h),
          body := body w @ error_text \<lparr>errMessage = peMessage pe, errType = peType pe, errCode = ''provider_error''\<rparr>\<rparr>
    | None \<Rightarrow> w\<lparr>hdr := h, sent := Some (502, h),
          body := body w @ error_text \<lparr>errMessage = ''upstream provider error'', errType = ''upstream_error'', errCode = ''provider_error''\<rparr>\<rparr>)"
proof (cases "errors_As_ProviderError err")
  case None
  have "final_code 502" by (simp add: final_code_def)
  from apierr_Write_fresh [OF this assms(1,2), of "''upstream_error''" "''provider_error''" "''upstream provider error''"]
  obtain h where h: "run_ops (apierr_Write 502 ''upstream_error'' ''provider_error'' ''upstream provider error'') w = w\<lparr>hdr := h, sent := Some (502, h),
      body := body w @ error_text \<lparr>errMessage = ''upstream provider error'', errType = ''upstream_error'', errCode = ''provider_error''\<rparr>\<rparr>" by blast
  show ?thesis by (rule exI [of _ h]) (simp add: handleProviderError_def None h)
next
  case (Some pe)
  then have "final_code (provider_error_status pe)"
    using assms(3) [of pe] by (simp add: final_code_def provider_error_status_def)
  from apierr_Write_fresh [OF this assms(1,2), of "peType pe" "''provider_error''" "peMessage pe"]
  obtain h where h: "run_ops (apierr_Write (provider_error_status pe) (peType pe) ''provider_error'' (peMessage pe)) w =
      w\<lparr>hdr := h, sent := Some (provider_error_status pe, h),
        body := body w @ error_text \<lparr>errMessage = peMessage pe, errType = peType pe, errCode = ''provider_error''\<rparr>\<rparr>" by blast
  show ?thesis by (rule exI [of _ h]) (simp add: handleProviderError_def Some h, simp add: provider_error_status_def)
qed

theorem handleProviderError_status_witness:
  "\<exists>h. sent (run_ops (handleProviderError (ErrProvider \<lparr>StatusCode = 503, peType = ''x'', peMessage = ''y'', Retryable = True, RetryAfter = 0\<rparr>)) new_response)
     = Some (502, h)"
proof -
  let ?e = "ErrProvider \<lparr>StatusCode = 503, peType = ''x'', peMessage = ''y'', Retryable = True, RetryAfter = 0\<rparr>"
  have "\<not> panicked new_response" "sent new_response = None" by (simp_all add: new_response_def)
  moreover have "\<And>pe. errors_As_ProviderError ?e = Some pe \<Longrightarrow> 200 \<le> StatusCode pe" by auto
  ultimately show ?thesis using handleProviderError_status [of new_response ?e] by auto
qed

end
