(* ===== verification/Request_Context.thy ===== *)
theory Request_Context
  imports Http_Response Authentication
begin

text \<open>
  Requests and the state one request is served in: \<^verbatim>\<open>internal/middleware/context.go\<close> and the request side of \<^verbatim>\<open>net/http\<close>. A handler is a function from a
  request and an \<open>exchange\<close> to what it does to the response writer and the exchange afterwards. The exchange holds the shared \<^verbatim>\<open>*RequestInfo\<close>, the metrics
  and log lines emitted so far, and everything else the handlers share (caches, database, Redis, providers, clocks) as \<open>world\<close>; the values the middleware
  chain puts into the context are fields of the request.
\<close>

section \<open>Requests\<close>

datatype body_end = BodyEOF | BodyFails go_error

record request_body =
  bodyBytes :: string
  bodyEnd :: body_end

datatype log_level = LevelDebug | LevelInfo | LevelWarn | LevelError

fun level_rank :: "log_level \<Rightarrow> int" where
  "level_rank LevelDebug = - 4"
| "level_rank LevelInfo = 0"
| "level_rank LevelWarn = 4"
| "level_rank LevelError = 8"

datatype attr = StrAttr string | IntAttr int | FloatAttr float64 | BoolAttr bool

type_synonym attrs = "(string \<times> attr) list"

record logger =
  loggerLevel :: log_level
  loggerAttrs :: attrs

datatype log_entry = LogEntry log_level string attrs

record Request =
  Method :: string
  Path :: string
  reqHeader :: headers
  reqBody :: "request_body option"
  ctxKeyInfo :: "KeyInfo option"
  ctxLogger :: "logger option"
  ctxReqID :: string

section \<open>The exchange\<close>

record RequestInfo =
  riOrgID :: string
  riKeyID :: string
  riModel :: string
  riProvider :: string
  riStrategy :: string
  riGroup :: string
  riPromptTokens :: int
  riCompletionTokens :: int
  riRateLimited :: bool

definition emptyRequestInfo :: RequestInfo where
  "emptyRequestInfo = \<lparr>riOrgID = [], riKeyID = [], riModel = [], riProvider = [], riStrategy = [], riGroup = [], riPromptTokens = 0,
     riCompletionTokens = 0, riRateLimited = False\<rparr>"

record 'w exchange =
  info :: "RequestInfo option"
  emitted :: "metric_call list"
  logged :: "log_entry list"
  world :: 'w

type_synonym 'w handler = "Request \<Rightarrow> 'w exchange \<Rightarrow> writer_op list \<times> 'w exchange"

definition emit :: "metric_call list \<Rightarrow> 'w exchange \<Rightarrow> 'w exchange" where
  "emit ms x = x\<lparr>emitted := emitted x @ ms\<rparr>"

text \<open>The process's default logger, set up by \<^verbatim>\<open>setupLogger\<close>, is passed as \<open>dflt\<close>.\<close>

definition LoggerFromContext :: "logger \<Rightarrow> Request \<Rightarrow> logger" where
  "LoggerFromContext dflt r = (case ctxLogger r of Some l \<Rightarrow> l | None \<Rightarrow> dflt)"

definition logger_Enabled :: "logger \<Rightarrow> log_level \<Rightarrow> bool" where
  "logger_Enabled l lv \<longleftrightarrow> level_rank (loggerLevel l) \<le> level_rank lv"

definition log_to :: "logger \<Rightarrow> log_level \<Rightarrow> string \<Rightarrow> attrs \<Rightarrow> 'w exchange \<Rightarrow> 'w exchange" where
  "log_to l lv msg as x = (if logger_Enabled l lv then x\<lparr>logged := logged x @ [LogEntry lv msg (loggerAttrs l @ as)]\<rparr> else x)"

definition on_info :: "(RequestInfo \<Rightarrow> RequestInfo) \<Rightarrow> 'w exchange \<Rightarrow> 'w exchange" where
  "on_info f x = x\<lparr>info := map_option f (info x)\<rparr>"

definition SetOrgKey :: "string \<Rightarrow> string \<Rightarrow> 'w exchange \<Rightarrow> 'w exchange" where
  "SetOrgKey org key = on_info (\<lambda>ri. ri\<lparr>riOrgID := org, riKeyID := key\<rparr>)"

definition SetModel :: "string \<Rightarrow> 'w exchange \<Rightarrow> 'w exchange" where
  "SetModel m = on_info (\<lambda>ri. ri\<lparr>riModel := m\<rparr>)"

definition SetProvider :: "string \<Rightarrow> 'w exchange \<Rightarrow> 'w exchange" where
  "SetProvider p = on_info (\<lambda>ri. ri\<lparr>riProvider := p\<rparr>)"

definition SetTokens :: "int \<Rightarrow> int \<Rightarrow> 'w exchange \<Rightarrow> 'w exchange" where
  "SetTokens prompt completion = on_info (\<lambda>ri. ri\<lparr>riPromptTokens := prompt, riCompletionTokens := completion\<rparr>)"

definition SetStrategy :: "string \<Rightarrow> 'w exchange \<Rightarrow> 'w exchange" where
  "SetStrategy s = on_info (\<lambda>ri. ri\<lparr>riStrategy := s\<rparr>)"

definition SetGroup :: "string \<Rightarrow> 'w exchange \<Rightarrow> 'w exchange" where
  "SetGroup g = on_info (\<lambda>ri. ri\<lparr>riGroup := g\<rparr>)"

definition MarkRateLimited :: "'w exchange \<Rightarrow> 'w exchange" where
  "MarkRateLimited = on_info (\<lambda>ri. ri\<lparr>riRateLimited := True\<rparr>)"

section \<open>Lemmas\<close>

lemma exchange_frame [simp]:
  "world (emit ms x) = world x" "world (log_to l lv msg as x) = world x" "world (on_info f x) = world x"
  "info (emit ms x) = info x" "info (log_to l lv msg as x) = info x" "emitted (log_to l lv msg as x) = emitted x"
  "emitted (on_info f x) = emitted x" "logged (emit ms x) = logged x" "logged (on_info f x) = logged x"
  by (simp_all add: emit_def log_to_def on_info_def)

lemma setters_frame [simp]:
  "world (SetOrgKey a b x) = world x" "world (SetModel a x) = world x" "world (SetProvider a x) = world x" "world (SetTokens m n x) = world x"
  "world (SetStrategy a x) = world x" "world (SetGroup a x) = world x" "world (MarkRateLimited x) = world x"
  "emitted (SetOrgKey a b x) = emitted x" "emitted (SetModel a x) = emitted x" "emitted (SetProvider a x) = emitted x"
  "emitted (SetTokens m n x) = emitted x" "emitted (SetStrategy a x) = emitted x" "emitted (SetGroup a x) = emitted x"
  "emitted (MarkRateLimited x) = emitted x"
  by (simp_all add: SetOrgKey_def SetModel_def SetProvider_def SetTokens_def SetStrategy_def SetGroup_def MarkRateLimited_def)

lemma emitted_emit [simp]: "emitted (emit ms x) = emitted x @ ms"
  by (simp add: emit_def)

end
