(* ===== verification/Auth_Middleware.thy ===== *)
theory Auth_Middleware
  imports Request_Context
begin

text \<open>
  \<^verbatim>\<open>internal/middleware/auth.go\<close>: the two gates in front of the API and admin routes. The authenticator is an argument over the world, instantiated with the
  cached authenticator of \<^verbatim>\<open>internal/auth\<close> where a property needs it.
\<close>

definition bearerToken :: "string \<Rightarrow> string option" where
  "bearerToken header =
     (let header = TrimSpace header in
      if length header \<le> length ''bearer '' \<or> map ascii_lower (take (length ''bearer '') header) \<noteq> ''bearer '' then None
      else let token = TrimSpace (drop (length ''bearer '') header) in
        if token = [] then None else Some token)"

definition writeAuthError :: "string \<Rightarrow> writer_op list" where
  "writeAuthError msg = apierr_Write 401 ''authentication_error'' ''invalid_api_key'' msg"

definition RequireAPIKey ::
  "logger \<Rightarrow> (string \<Rightarrow> 'w \<Rightarrow> (go_error + KeyInfo) \<times> 'w) \<Rightarrow> 'w handler \<Rightarrow> 'w handler"
where
  "RequireAPIKey dflt a next r x =
     (let header = Header_Get ''Authorization'' (reqHeader r) in
      if TrimSpace header = [] then
        (writeAuthError ''Missing or malformed Authorization header.'', emit (RecordAuthFailure ''missing'') x)
      else
        (case bearerToken header of
           None \<Rightarrow> (writeAuthError ''Missing or malformed Authorization header.'', emit (RecordAuthFailure ''malformed'') x)
         | Some token \<Rightarrow>
             (let (res, w') = a token (world x); x = x\<lparr>world := w'\<rparr> in
              case res of
                Inl err \<Rightarrow>
                  if errors_Is err ErrInvalidKey then (writeAuthError ''Invalid API key.'', emit (RecordAuthFailure ''unknown'') x)
                  else (apierr_Write 503 ''internal_error'' ''internal_error'' ''authentication backend unavailable'',
                        log_to (LoggerFromContext dflt r) LevelError ''auth lookup failed'' [(''err'', StrAttr (err_Error err))] x)
              | Inr ki \<Rightarrow> next (r\<lparr>ctxKeyInfo := Some ki\<rparr>) (SetOrgKey (kiOrgID ki) (kiKeyID ki) x))))"

definition RequireAdminToken :: "string \<Rightarrow> 'w handler \<Rightarrow> 'w handler" where
  "RequireAdminToken expected next r x =
     (let header = Header_Get ''Authorization'' (reqHeader r) in
      if TrimSpace header = [] then (writeAuthError ''Invalid admin token.'', emit (RecordAuthFailure ''missing'') x)
      else
        (case bearerToken header of
           None \<Rightarrow> (writeAuthError ''Invalid admin token.'', emit (RecordAuthFailure ''malformed'') x)
         | Some token \<Rightarrow>
             if expected = [] \<or> token \<noteq> expected then (writeAuthError ''Invalid admin token.'', emit (RecordAuthFailure ''unknown'') x)
             else next r x))"

section \<open>Trimming\<close>

lemma trim_left_Nil [simp]: "trim_left f [] = []"
  by (subst trim_left.simps) (simp split: option.splits)

lemma trim_left_no_space: "trim_left f s = [] \<or> find_space f (trim_left f s) = None"
proof (induction f s rule: trim_left.induct)
  case (1 f s)
  then show ?case by (cases "find_space f s"; cases "s = []") (simp_all add: trim_left.simps [of f s])
qed

lemma trim_left_suffix: "\<exists>p. s = p @ trim_left f s"
proof (induction f s rule: trim_left.induct)
  case (1 f s)
  show ?case
  proof (cases "find_space f s = None \<or> s = []")
    case False
    then obtain w where w: "find_space f s = Some w" "s \<noteq> []" by auto
    then obtain p where "drop (length w) s = p @ trim_left f (drop (length w) s)" using 1 by blast
    then have "s = (take (length w) s @ p) @ trim_left f (drop (length w) s)" by (metis append.assoc append_take_drop_id)
    then have "\<exists>q. s = q @ trim_left f (drop (length w) s)" by blast
    then show ?thesis using w by (simp add: trim_left.simps [of f s])
  qed (auto simp: trim_left.simps [of f s] split: option.splits)
qed

lemma find_space_prefix:
  assumes "find_space id (a @ b) = None"
  shows "find_space id a = None"
proof -
  have "\<not> HasPrefix (a @ b) w" if "w \<in> set space_seqs" for w using assms that by (simp add: find_space_def find_None_iff)
  then have "\<not> HasPrefix a w" if "w \<in> set space_seqs" for w using that by (fastforce simp: HasPrefix_iff)
  then show ?thesis by (simp add: find_space_def find_None_iff)
qed

lemma TrimSpace_idem: "TrimSpace (TrimSpace s) = TrimSpace s"
proof -
  define a where "a = trim_left id s"
  define t where "t = TrimSpace s"
  have t: "rev t = trim_left rev (rev a)" by (simp add: t_def TrimSpace_def a_def)
  obtain p where "rev a = p @ rev t" using trim_left_suffix [of "rev a" rev] t by auto
  then have a: "a = t @ rev p" by (metis rev_append rev_rev_ident)
  have "trim_left id t = t"
  proof (cases "t = []")
    case False
    then have "find_space id a = None" using trim_left_no_space [of id s] a by (auto simp: a_def [symmetric])
    then have "find_space id t = None" unfolding a by (rule find_space_prefix)
    then show ?thesis using trim_left.simps [of id t] by simp
  qed simp
  moreover have "trim_left rev (rev t) = rev t"
    using trim_left_no_space [of rev "rev a"] trim_left.simps [of rev "rev t"] unfolding t [symmetric] by auto
  ultimately have "TrimSpace t = t" by (simp add: TrimSpace_def)
  then show ?thesis by (simp only: t_def)
qed

lemma bearerToken_trimmed: "bearerToken h = Some t \<Longrightarrow> TrimSpace t = t \<and> t \<noteq> []"
  by (auto simp: bearerToken_def Let_def TrimSpace_idem split: if_splits)

lemma bearerToken_nonempty: "bearerToken h = Some t \<Longrightarrow> TrimSpace h \<noteq> []"
  by (auto simp: bearerToken_def Let_def)

section \<open>Responses\<close>

lemma apierr_status: "final_code st \<Longrightarrow> \<exists>h. sent (run_ops (apierr_Write st ty cd msg) new_response) = Some (st, h)"
proof -
  assume "final_code st"
  moreover have "\<not> panicked new_response" "sent new_response = None" by (simp_all add: new_response_def)
  ultimately obtain h where "run_ops (apierr_Write st ty cd msg) new_response = new_response\<lparr>hdr := h, sent := Some (st, h),
      body := body new_response @ error_text \<lparr>errMessage = msg, errType = ty, errCode = cd\<rparr>\<rparr>" using apierr_Write_fresh by blast
  then show ?thesis by simp
qed

lemma auth_error_status: "\<exists>h. sent (run_ops (writeAuthError msg) new_response) = Some (401, h)"
  unfolding writeAuthError_def by (rule apierr_status) (simp add: final_code_def)

section \<open>Properties\<close>

text \<open>
  Nothing behind the API gate runs without an authenticated key. Either the request carries a bearer token that the authenticator accepts, and then the inner
  handler is called exactly once, with that key's info in its context and the lookup as the only change of the shared state; or the handler is not involved at
  all and the client gets a 401, counted as an authentication failure, or, when the lookup itself failed, a 503 that is not counted as one.
\<close>

theorem RequireAPIKey_gate:
  "(\<exists>token ki w'. bearerToken (Header_Get ''Authorization'' (reqHeader r)) = Some token \<and> a token (world x) = (Inr ki, w') \<and>
      RequireAPIKey dflt a next r x = next (r\<lparr>ctxKeyInfo := Some ki\<rparr>) (SetOrgKey (kiOrgID ki) (kiKeyID ki) (x\<lparr>world := w'\<rparr>))) \<or>
   (\<exists>ops x' status h. (\<forall>handler. RequireAPIKey dflt a handler r x = (ops, x')) \<and> sent (run_ops ops new_response) = Some (status, h) \<and>
      (status = 401 \<and> (\<exists>reason. emitted x' = emitted x @ RecordAuthFailure reason) \<and>
         (world x' = world x \<or> (\<exists>token err. a token (world x) = (Inl err, world x') \<and> errors_Is err ErrInvalidKey)) \<or>
       status = 503 \<and> emitted x' = emitted x \<and> (\<exists>token err. a token (world x) = (Inl err, world x') \<and> \<not> errors_Is err ErrInvalidKey)))"
proof -
  let ?h = "Header_Get ''Authorization'' (reqHeader r)"
  obtain h1 where 1: "sent (run_ops (writeAuthError ''Missing or malformed Authorization header.'') new_response) = Some (401, h1)"
    using auth_error_status by blast
  obtain h2 where 2: "sent (run_ops (writeAuthError ''Invalid API key.'') new_response) = Some (401, h2)" using auth_error_status by blast
  obtain h3 where 3: "sent (run_ops (apierr_Write 503 ''internal_error'' ''internal_error'' ''authentication backend unavailable'') new_response) = Some (503, h3)"
    using apierr_status [of 503, unfolded final_code_def] by (simp, blast)
  show ?thesis
  proof (cases "TrimSpace ?h = [] \<or> bearerToken ?h = None")
    case True
    then have "\<exists>reason. \<forall>handler. RequireAPIKey dflt a handler r x =
        (writeAuthError ''Missing or malformed Authorization header.'', emit (RecordAuthFailure reason) x)"
      by (cases "TrimSpace ?h = []") (auto simp: RequireAPIKey_def Let_def)
    then show ?thesis using 1 by (intro disjI2) fastforce
  next
    case False
    then obtain token where token: "bearerToken ?h = Some token" "TrimSpace ?h \<noteq> []" by auto
    obtain res w' where a: "a token (world x) = (res, w')" by fastforce
    show ?thesis
    proof (cases res)
      case (Inr ki)
      then show ?thesis using token a by (intro disjI1) (auto simp: RequireAPIKey_def Let_def)
    next
      case (Inl err)
      show ?thesis
      proof (cases "errors_Is err ErrInvalidKey")
        case True
        then have "\<forall>handler. RequireAPIKey dflt a handler r x = (writeAuthError ''Invalid API key.'', emit (RecordAuthFailure ''unknown'') (x\<lparr>world := w'\<rparr>))"
          using token a Inl by (simp add: RequireAPIKey_def Let_def)
        then show ?thesis using 2 True a Inl by (intro disjI2) fastforce
      next
        case False
        then have "\<forall>handler. RequireAPIKey dflt a handler r x =
            (apierr_Write 503 ''internal_error'' ''internal_error'' ''authentication backend unavailable'',
             log_to (LoggerFromContext dflt r) LevelError ''auth lookup failed'' [(''err'', StrAttr (err_Error err))] (x\<lparr>world := w'\<rparr>))"
          using token a Inl by (simp add: RequireAPIKey_def Let_def)
        then show ?thesis using 3 False a Inl by (intro disjI2) fastforce
      qed
    qed
  qed
qed

text \<open>
  The admin gate is fail-closed: the admin handler is called only for a bearer token equal to a non-empty configured token, and every other request gets a 401
  without reaching it. Because tokens are trimmed before the comparison, a configured token with surrounding space locks everybody out.
\<close>

theorem RequireAdminToken_gate:
  "if expected \<noteq> [] \<and> TrimSpace expected = expected \<and> bearerToken (Header_Get ''Authorization'' (reqHeader r)) = Some expected
   then RequireAdminToken expected next r x = next r x
   else (\<exists>ops reason h. (\<forall>handler. RequireAdminToken expected handler r x = (ops, emit (RecordAuthFailure reason) x)) \<and>
      sent (run_ops ops new_response) = Some (401, h))"
proof -
  let ?h = "Header_Get ''Authorization'' (reqHeader r)"
  obtain h where h: "sent (run_ops (writeAuthError ''Invalid admin token.'') new_response) = Some (401, h)" using auth_error_status by blast
  consider (blank) "TrimSpace ?h = []" | (malformed) "TrimSpace ?h \<noteq> []" "bearerToken ?h = None"
    | (token) t where "TrimSpace ?h \<noteq> []" "bearerToken ?h = Some t" "TrimSpace t = t"
    using bearerToken_trimmed by (cases "bearerToken ?h") auto
  then show ?thesis
  proof cases
    case blank
    then have "bearerToken ?h = None" using bearerToken_nonempty by (cases "bearerToken ?h") auto
    then show ?thesis using blank h by (auto simp: RequireAdminToken_def Let_def)
  next
    case malformed
    then show ?thesis using h by (auto simp: RequireAdminToken_def Let_def)
  next
    case token
    then show ?thesis using h by (auto simp: RequireAdminToken_def Let_def)
  qed
qed

end
