(* ===== verification/Rate_Limit_Middleware.thy ===== *)
theory Rate_Limit_Middleware
  imports Auth_Middleware Rate_Limiter
begin

text \<open>
  \<^verbatim>\<open>internal/middleware/ratelimit.go\<close>: the rate-limit middleware and the response writer it puts around the handler's to read the token usage of a JSON
  response. The wrapper is a machine that turns the handler's calls into calls on the writer below; \<open>cwType\<close> is the \<^verbatim>\<open>Content-Type\<close> in the shared header
  map, which nothing outside the handler sets.
\<close>

section \<open>The capturing writer\<close>

definition captureBodyLimit :: nat where
  "captureBodyLimit = 1048576"

datatype captureMode = modeUndecided | modeBuffer | modeStream | modePassthrough

record usageCaptureWriter =
  cwType :: string
  cwStatus :: int
  wroteHeader :: bool
  cwMode :: captureMode
  cwBuf :: string
  exceededLimit :: bool

definition newCapture :: usageCaptureWriter where
  "newCapture = \<lparr>cwType = [], cwStatus = 0, wroteHeader = False, cwMode = modeUndecided, cwBuf = [], exceededLimit = False\<rparr>"

definition decideMode :: "usageCaptureWriter \<Rightarrow> usageCaptureWriter" where
  "decideMode cw = cw\<lparr>cwMode :=
     (if HasPrefix (cwType cw) ''text/event-stream'' then modeStream
      else if HasPrefix (cwType cw) ''application/json'' then modeBuffer
      else modePassthrough)\<rparr>"

definition cw_WriteHeader :: "int \<Rightarrow> usageCaptureWriter \<Rightarrow> usageCaptureWriter \<times> writer_op list" where
  "cw_WriteHeader status cw =
     (if wroteHeader cw then (cw, [])
      else let cw = decideMode (cw\<lparr>cwStatus := status, wroteHeader := True\<rparr>)
           in (cw, if cwMode cw \<in> {modeStream, modePassthrough} then [SendHeader status] else []))"

definition cw_Write :: "string \<Rightarrow> usageCaptureWriter \<Rightarrow> usageCaptureWriter \<times> writer_op list" where
  "cw_Write b cw =
     (let (cw, pre) = (if wroteHeader cw then (cw, []) else cw_WriteHeader 200 cw) in
      if cwMode cw = modeBuffer then
        (if exceededLimit cw then (cw, pre @ [SendBytes b])
         else if length (cwBuf cw) + length b > captureBodyLimit then
           (cw\<lparr>exceededLimit := True, cwBuf := []\<rparr>,
            pre @ [SendHeader (cwStatus cw)] @ (if cwBuf cw \<noteq> [] then [SendBytes (cwBuf cw)] else []) @ [SendBytes b])
         else (cw\<lparr>cwBuf := cwBuf cw @ b\<rparr>, pre))
      else (cw, pre @ [SendBytes b]))"

definition cw_Flush :: "usageCaptureWriter \<Rightarrow> usageCaptureWriter \<times> writer_op list" where
  "cw_Flush cw = (cw, if cwMode cw = modeBuffer then [] else [FlushNow])"

definition cw_Set :: "string \<Rightarrow> string \<Rightarrow> usageCaptureWriter \<Rightarrow> usageCaptureWriter \<times> writer_op list" where
  "cw_Set k v cw = (if CanonicalMIMEHeaderKey k = ''Content-Type'' then cw\<lparr>cwType := v\<rparr> else cw, [SetHeader k v])"

fun capture_op :: "writer_op \<Rightarrow> usageCaptureWriter \<Rightarrow> usageCaptureWriter \<times> writer_op list" where
  "capture_op (SetHeader k v) cw = cw_Set k v cw"
| "capture_op (SendHeader status) cw = cw_WriteHeader status cw"
| "capture_op (SendBytes b) cw = cw_Write b cw"
| "capture_op FlushNow cw = cw_Flush cw"
| "capture_op Panic cw = (cw, [Panic])"
| "capture_op Block cw = (cw, [Block])"

fun capture :: "writer_op list \<Rightarrow> usageCaptureWriter \<Rightarrow> usageCaptureWriter \<times> writer_op list" where
  "capture [] cw = (cw, [])"
| "capture (op # ops) cw = (let (cw, a) = capture_op op cw; (cw, b) = capture ops cw in (cw, a @ b))"

text \<open>The usage a captured body reports: \<^verbatim>\<open>finish\<close> decodes only the \<^verbatim>\<open>usage\<close> field.\<close>

definition parsed_usage :: "string \<Rightarrow> Usage option" where
  "parsed_usage b = unmarshal (dec_struct (\<lambda>k v u. if k = ''USAGE'' then dec_Usage v u else Some u)) zeroUsage b"

definition finish_tokens :: "usageCaptureWriter \<Rightarrow> int option" where
  "finish_tokens cw =
     (if wroteHeader cw \<and> cwMode cw = modeBuffer \<and> 200 \<le> cwStatus cw \<and> cwStatus cw < 300 \<and> \<not> exceededLimit cw \<and> cwBuf cw \<noteq> [] then
        (case parsed_usage (cwBuf cw) of
           Some u \<Rightarrow> if TotalTokens u > 0 then Some (TotalTokens u) else None
         | None \<Rightarrow> None)
      else None)"

definition finish_ops :: "usageCaptureWriter \<Rightarrow> writer_op list" where
  "finish_ops cw =
     (if wroteHeader cw \<and> cwMode cw = modeBuffer \<and> \<not> exceededLimit cw
      then SendHeader (cwStatus cw) # (if cwBuf cw \<noteq> [] then [SendBytes (cwBuf cw)] else [])
      else [])"

section \<open>The middleware\<close>

definition failOpenWarnInterval :: duration where
  "failOpenWarnInterval = 5 * nanosPerSecond"

text \<open>A \<^verbatim>\<open>ratelimit.Reserver\<close> over the world, with the clock and the middleware's own last-warning time.\<close>

record 'w reserver =
  rs_Reserve :: "KeyInfo \<Rightarrow> 'w \<Rightarrow> (go_error + Reservation) \<times> 'w"
  rs_RecordTokens :: "KeyInfo \<Rightarrow> int \<Rightarrow> 'w \<Rightarrow> go_error option \<times> 'w"
  rs_now :: "'w \<Rightarrow> instant"
  rs_lastWarn :: "'w \<Rightarrow> int"
  rs_setLastWarn :: "int \<Rightarrow> 'w \<Rightarrow> 'w"

definition warnFailOpen :: "logger \<Rightarrow> 'w reserver \<Rightarrow> Request \<Rightarrow> go_error \<Rightarrow> 'w exchange \<Rightarrow> 'w exchange" where
  "warnFailOpen dflt s r err x =
     (let now = rs_now s (world x); prev = rs_lastWarn s (world x) in
      if prev \<noteq> 0 \<and> wrap64 (now - prev) < failOpenWarnInterval then x
      else log_to (LoggerFromContext dflt r) LevelWarn ''rate limiter fail-open: redis error'' [(''err'', StrAttr (err_Error err))]
             (x\<lparr>world := rs_setLastWarn s now (world x)\<rparr>))"

definition clampNonNegative :: "int \<Rightarrow> int" where
  "clampNonNegative n = (if n < 0 then 0 else n)"

definition roundDurationToSecond :: "duration \<Rightarrow> duration" where
  "roundDurationToSecond d =
     (if d \<le> 0 then 0
      else let secs = d sdiv nanosPerSecond; secs = (if d smod nanosPerSecond \<noteq> 0 then secs + 1 else secs)
           in wrap64 (secs * nanosPerSecond))"

text \<open>\<^verbatim>\<open>Duration.String\<close> on a non-negative whole number of seconds.\<close>

definition seconds_String :: "duration \<Rightarrow> string" where
  "seconds_String d =
     (let s = d sdiv nanosPerSecond in
      if s < 60 then Itoa s @ ''s''
      else if s < 3600 then Itoa (s div 60) @ ''m'' @ Itoa (s mod 60) @ ''s''
      else Itoa (s div 3600) @ ''h'' @ Itoa (s div 60 mod 60) @ ''m'' @ Itoa (s mod 60) @ ''s'')"

definition setRateLimitHeaders :: "Reservation \<Rightarrow> writer_op list" where
  "setRateLimitHeaders res =
     (if Limit res > 0 then
        [SetHeader ''X-RateLimit-Limit-Requests'' (Itoa (Limit res)),
         SetHeader ''X-RateLimit-Remaining-Requests'' (Itoa (clampNonNegative (Remaining res))),
         SetHeader ''X-RateLimit-Reset-Requests'' (seconds_String (roundDurationToSecond (Reset res)))]
      else []) @
     (if TpmLimit res > 0 then
        [SetHeader ''X-RateLimit-Limit-Tokens'' (Itoa (TpmLimit res)),
         SetHeader ''X-RateLimit-Remaining-Tokens'' (Itoa (clampNonNegative (TpmRemaining res))),
         SetHeader ''X-RateLimit-Reset-Tokens'' (seconds_String (roundDurationToSecond (TpmReset res)))]
      else [])"

definition finish ::
  "logger \<Rightarrow> 'w reserver \<Rightarrow> Request \<Rightarrow> KeyInfo \<Rightarrow> usageCaptureWriter \<Rightarrow> 'w exchange \<Rightarrow> writer_op list \<times> 'w exchange"
where
  "finish dflt s r key cw x =
     (finish_ops cw,
      case finish_tokens cw of
        None \<Rightarrow> x
      | Some n \<Rightarrow>
          (let (rerr, w') = rs_RecordTokens s key n (world x); x = x\<lparr>world := w'\<rparr> in
           case rerr of
             None \<Rightarrow> x
           | Some e \<Rightarrow> log_to (LoggerFromContext dflt r) LevelDebug ''rate limiter: failed to record tokens'' [(''err'', StrAttr (err_Error e))] x))"

text \<open>\<^verbatim>\<open>serve\<close>. A handler that panics unwinds past \<^verbatim>\<open>finish\<close>.\<close>

definition serve :: "(float64 \<Rightarrow> int) \<Rightarrow> logger \<Rightarrow> 'w reserver \<Rightarrow> 'w handler \<Rightarrow> 'w handler" where
  "serve conv dflt s next r x =
     (case ctxKeyInfo r of
        None \<Rightarrow> next r x
      | Some key \<Rightarrow>
          (let (reply, w') = rs_Reserve s key (world x); x = x\<lparr>world := w'\<rparr> in
           case reply of
             Inl err \<Rightarrow> next r (warnFailOpen dflt s r err (emit (RecordRateLimit ''failopen'') x))
           | Inr res \<Rightarrow>
               if \<not> Allowed res then
                 (setRateLimitHeaders res @ WriteRateLimit conv (resRetryAfter res) [],
                  MarkRateLimited (emit (RecordRateLimit ''throttled'') x))
               else
                 (let (ops, x) = next r (emit (RecordRateLimit ''allowed'') x);
                      (cw, sent_ops) = capture ops newCapture in
                  if \<not> returns ops then (setRateLimitHeaders res @ sent_ops, x)
                  else let (rest, x) = finish dflt s r key cw x
                       in (setRateLimitHeaders res @ sent_ops @ rest, x))))"

definition RateLimit :: "(float64 \<Rightarrow> int) \<Rightarrow> logger \<Rightarrow> 'w reserver option \<Rightarrow> 'w handler \<Rightarrow> 'w handler" where
  "RateLimit conv dflt rsv next = (case rsv of None \<Rightarrow> next | Some s \<Rightarrow> serve conv dflt s next)"

section \<open>Specification vocabulary\<close>

text \<open>A handler that sets its headers before it sends anything, with status codes that end a response, and does not panic.\<close>

fun headers_first :: "bool \<Rightarrow> writer_op list \<Rightarrow> bool" where
  "headers_first started [] = True"
| "headers_first started (SetHeader k v # ops) = (\<not> started \<and> headers_first started ops)"
| "headers_first started (SendHeader c # ops) = (final_code c \<and> headers_first True ops)"
| "headers_first started (SendBytes b # ops) = headers_first True ops"
| "headers_first started (FlushNow # ops) = headers_first True ops"
| "headers_first started (Panic # ops) = False"
| "headers_first started (Block # ops) = False"

text \<open>How the plain writer \<open>p\<close> and the writer \<open>w\<close> below the capturing one correspond while the handler runs.\<close>

definition mirrors :: "bool \<Rightarrow> usageCaptureWriter \<Rightarrow> ResponseWriter \<Rightarrow> ResponseWriter \<Rightarrow> bool" where
  "mirrors started cw p w \<longleftrightarrow>
     hdr w = hdr p \<and> \<not> panicked p \<and> \<not> panicked w \<and> (\<not> started \<longrightarrow> \<not> wroteHeader cw \<and> sent p = None) \<and>
     (if \<not> wroteHeader cw then cwMode cw = modeUndecided \<and> sent w = sent p \<and> body w = body p \<and> cwBuf cw = [] \<and> \<not> exceededLimit cw
      else if cwMode cw = modeBuffer \<and> \<not> exceededLimit cw then
        final_code (cwStatus cw) \<and> body p = body w @ cwBuf cw \<and>
        sent p = (case sent w of None \<Rightarrow> Some (cwStatus cw, hdr w) | Some z \<Rightarrow> Some z)
      else sent w = sent p \<and> sent p \<noteq> None \<and> body w = body p)"

section \<open>The capturing writer is transparent\<close>

lemma Write_bytes_sent: "\<not> panicked w \<Longrightarrow> sent w \<noteq> None \<Longrightarrow> Write_bytes b w = w\<lparr>body := body w @ b\<rparr>"
  by (auto simp: Write_bytes_def Let_def)

lemma Write_bytes_fresh: "\<not> panicked w \<Longrightarrow> sent w = None \<Longrightarrow> Write_bytes b w = w\<lparr>sent := Some (200, hdr w), body := body w @ b\<rparr>"
  by (simp add: Write_bytes_def Let_def WriteHeader_final final_code_def)

lemma Write_bytes_cases:
  "\<not> panicked w \<Longrightarrow> Write_bytes b w = w\<lparr>sent := (case sent w of None \<Rightarrow> Some (200, hdr w) | Some z \<Rightarrow> Some z), body := body w @ b\<rparr>"
  by (cases "sent w") (simp_all add: Write_bytes_sent Write_bytes_fresh)

lemma WriteHeader_cases:
  "\<not> panicked w \<Longrightarrow> final_code c \<Longrightarrow> WriteHeader c w = w\<lparr>sent := (case sent w of None \<Rightarrow> Some (c, hdr w) | Some z \<Rightarrow> Some z)\<rparr>"
  by (cases "sent w") (simp_all add: WriteHeader_once WriteHeader_final)

lemma Flush_cases:
  "\<not> panicked w \<Longrightarrow> Flush w = w\<lparr>sent := (case sent w of None \<Rightarrow> Some (200, hdr w) | Some z \<Rightarrow> Some z), flushes := Suc (flushes w)\<rparr>"
  by (cases "sent w") (simp_all add: Flush_def Let_def WriteHeader_final final_code_def)

lemma decideMode_decided: "cwMode (decideMode cw) \<noteq> modeUndecided"
  by (simp add: decideMode_def)

lemma final_200 [simp]: "final_code 200"
  by (simp add: final_code_def)

lemma mirrors_Set:
  assumes "mirrors False cw p w"
  shows "mirrors False (fst (cw_Set k v cw)) (apply_op (SetHeader k v) p) (run_ops (snd (cw_Set k v cw)) w)"
  using assms by (simp add: mirrors_def cw_Set_def run_ops_Cons Header_Set_def)

lemma mirrors_WriteHeader:
  assumes "mirrors started cw p w" "final_code c"
  shows "mirrors True (fst (cw_WriteHeader c cw)) (WriteHeader c p) (run_ops (snd (cw_WriteHeader c cw)) w)"
proof (cases "wroteHeader cw")
  case True
  then show ?thesis using assms
    by (auto simp: mirrors_def cw_WriteHeader_def WriteHeader_cases split: if_splits option.splits)
next
  case False
  let ?cw = "decideMode (cw\<lparr>cwStatus := c, wroteHeader := True\<rparr>)"
  have "cwMode ?cw \<noteq> modeUndecided" by (rule decideMode_decided)
  then have "cwMode ?cw = modeBuffer \<or> cwMode ?cw = modeStream \<or> cwMode ?cw = modePassthrough" by (cases "cwMode ?cw") auto
  then show ?thesis using assms False
    by (auto simp: mirrors_def cw_WriteHeader_def Let_def run_ops_Cons WriteHeader_cases decideMode_def split: option.splits if_splits)
qed

lemma mirrors_Write_started:
  assumes "mirrors True cw p w" "wroteHeader cw"
  shows "mirrors True (fst (cw_Write b cw)) (Write_bytes b p) (run_ops (snd (cw_Write b cw)) w)"
proof (cases "cwMode cw = modeBuffer \<and> \<not> exceededLimit cw")
  case False
  then have c: "cw_Write b cw = (cw, [SendBytes b])" using assms(2) by (auto simp: cw_Write_def)
  have m: "hdr w = hdr p" "\<not> panicked p" "\<not> panicked w" "sent w = sent p" "sent p \<noteq> None" "body w = body p"
    using assms False by (auto simp: mirrors_def)
  then have "Write_bytes b p = p\<lparr>body := body p @ b\<rparr>" "Write_bytes b w = w\<lparr>body := body w @ b\<rparr>" by (simp_all add: Write_bytes_sent)
  then show ?thesis unfolding c using m False assms(2) by (auto simp: mirrors_def run_ops_Cons)
next
  case True
  have m: "hdr w = hdr p" "\<not> panicked p" "\<not> panicked w" "final_code (cwStatus cw)" "body p = body w @ cwBuf cw"
    "sent p = (case sent w of None \<Rightarrow> Some (cwStatus cw, hdr w) | Some z \<Rightarrow> Some z)"
    using assms True by (auto simp: mirrors_def)
  then have "sent p \<noteq> None" by (cases "sent w") simp_all
  then have P: "Write_bytes b p = p\<lparr>body := body p @ b\<rparr>" using m by (simp add: Write_bytes_sent)
  show ?thesis
  proof (cases "length (cwBuf cw) + length b > captureBodyLimit")
    case False
    then have "cw_Write b cw = (cw\<lparr>cwBuf := cwBuf cw @ b\<rparr>, [])" using assms(2) True by (simp add: cw_Write_def)
    then show ?thesis using P m True assms(2) by (cases "sent w") (simp_all add: mirrors_def)
  next
    case exc: True
    let ?a = "[SendHeader (cwStatus cw)] @ (if cwBuf cw \<noteq> [] then [SendBytes (cwBuf cw)] else []) @ [SendBytes b]"
    have c: "cw_Write b cw = (cw\<lparr>exceededLimit := True, cwBuf := []\<rparr>, ?a)" using assms(2) True exc by (simp add: cw_Write_def)
    let ?w = "w\<lparr>sent := sent p\<rparr>"
    have "WriteHeader (cwStatus cw) w = ?w" using m by (simp add: WriteHeader_cases)
    moreover have "\<not> panicked ?w" "sent ?w \<noteq> None" using m(3) \<open>sent p \<noteq> None\<close> by simp_all
    ultimately have "run_ops ?a w = ?w\<lparr>body := body w @ cwBuf cw @ b\<rparr>"
      by (auto simp: run_ops_Cons Write_bytes_sent)
    then show ?thesis unfolding c using P m assms(2) \<open>sent p \<noteq> None\<close> by (simp add: mirrors_def)
  qed
qed

lemma cw_Write_first:
  assumes "\<not> wroteHeader cw"
  shows "cw_Write b cw = (fst (cw_Write b (fst (cw_WriteHeader 200 cw))), snd (cw_WriteHeader 200 cw) @ snd (cw_Write b (fst (cw_WriteHeader 200 cw))))"
proof -
  have "wroteHeader (fst (cw_WriteHeader 200 cw))" using assms by (simp add: cw_WriteHeader_def Let_def decideMode_def)
  then show ?thesis using assms by (cases "cw_WriteHeader 200 cw") (simp add: cw_Write_def Let_def)
qed

lemma mirrors_Write:
  assumes "mirrors started cw p w"
  shows "mirrors True (fst (cw_Write b cw)) (Write_bytes b p) (run_ops (snd (cw_Write b cw)) w)"
proof (cases "wroteHeader cw")
  case True
  then have "mirrors True cw p w" using assms by (auto simp: mirrors_def)
  then show ?thesis using True by (rule mirrors_Write_started)
next
  case False
  let ?cw = "fst (cw_WriteHeader 200 cw)" and ?w = "run_ops (snd (cw_WriteHeader 200 cw)) w"
  have m: "mirrors True ?cw (WriteHeader 200 p) ?w" by (rule mirrors_WriteHeader [OF assms final_200])
  moreover have "wroteHeader ?cw" using False by (simp add: cw_WriteHeader_def Let_def decideMode_def)
  ultimately have "mirrors True (fst (cw_Write b ?cw)) (Write_bytes b (WriteHeader 200 p)) (run_ops (snd (cw_Write b ?cw)) ?w)"
    by (rule mirrors_Write_started)
  moreover have "Write_bytes b (WriteHeader 200 p) = Write_bytes b p"
    using assms by (simp add: mirrors_def WriteHeader_cases Write_bytes_cases split: option.splits)
  ultimately show ?thesis using cw_Write_first [OF False] by simp
qed

lemma mirrors_Flush:
  assumes "mirrors started cw p w"
  shows "mirrors True (fst (cw_Flush cw)) (Flush p) (run_ops (snd (cw_Flush cw)) w)"
  using assms by (auto simp: mirrors_def cw_Flush_def run_ops_Cons Flush_cases split: option.splits if_splits)

lemma mirrors_capture:
  assumes "mirrors started cw p w" "headers_first started ops"
  shows "\<exists>st. mirrors st (fst (capture ops cw)) (run_ops ops p) (run_ops (snd (capture ops cw)) w)"
  using assms
proof (induction ops arbitrary: started cw p w)
  case (Cons op ops)
  obtain st where "mirrors st (fst (capture_op op cw)) (apply_op op p) (run_ops (snd (capture_op op cw)) w)" "headers_first st ops"
    using Cons.prems mirrors_Set mirrors_WriteHeader mirrors_Write mirrors_Flush by (cases op) fastforce+
  from Cons.IH [OF this] show ?case
    by (simp add: run_ops_Cons case_prod_unfold Let_def)
qed auto

lemma mirrors_finish:
  assumes "mirrors st cw p w"
  shows "sent (run_ops (finish_ops cw) w) = sent p \<and> body (run_ops (finish_ops cw) w) = body p \<and> \<not> panicked (run_ops (finish_ops cw) w)"
  using assms by (auto simp: mirrors_def finish_ops_def run_ops_Cons WriteHeader_cases Write_bytes_cases split: option.splits if_splits)

section \<open>Properties\<close>

text \<open>
  C33. The capturing writer does not change what the client receives. For every handler that sets its headers before it sends, uses final status codes and does not
  panic, the status, the headers and the body that reach the client through the capturing writer and \<^verbatim>\<open>finish\<close> are those the handler would have sent
  directly: whether the body is buffered, streamed, or overflows the capture limit halfway, in whatever pieces it is written.
\<close>

theorem capture_transparent:
  assumes "headers_first False ops" "\<not> panicked w" "sent w = None"
  shows "let (cw, below) = capture ops newCapture; through = run_ops (below @ finish_ops cw) w; direct = run_ops ops w
         in sent through = sent direct \<and> body through = body direct \<and> \<not> panicked through"
proof -
  have "mirrors False newCapture w w" using assms(2,3) by (simp add: mirrors_def newCapture_def)
  from mirrors_capture [OF this assms(1)] obtain st where
    "mirrors st (fst (capture ops newCapture)) (run_ops ops w) (run_ops (snd (capture ops newCapture)) w)" by blast
  from mirrors_finish [OF this] show ?thesis by (simp add: case_prod_unfold Let_def)
qed

theorem capture_transparent_witness:
  "let ops = [SetHeader ''Content-Type'' ''application/json'', SendBytes ''ab'', FlushNow, SendBytes ''c'']; (cw, below) = capture ops newCapture
   in below = [SetHeader ''Content-Type'' ''application/json''] \<and> body (run_ops (below @ finish_ops cw) new_response) = ''abc''"
proof -
  let ?ops = "[SetHeader ''Content-Type'' ''application/json'', SendBytes ''ab'', FlushNow, SendBytes ''c'']"
  have "headers_first False ?ops" "\<not> panicked new_response" "sent new_response = None" by (simp_all add: new_response_def)
  note t = capture_transparent [OF this]
  have b: "body (run_ops ?ops new_response) = ''abc''" by code_simp
  have "CanonicalMIMEHeaderKey ''Content-Type'' = ''Content-Type''" "\<not> HasPrefix ''application/json'' ''text/event-stream''"
    "HasPrefix ''application/json'' ''application/json''" by code_simp+
  then have "snd (capture ?ops newCapture) = [SetHeader ''Content-Type'' ''application/json'']"
    by (simp add: newCapture_def cw_Set_def cw_Write_def cw_WriteHeader_def cw_Flush_def decideMode_def captureBodyLimit_def)
  then show ?thesis using t unfolding Let_def case_prod_unfold b by simp
qed



end
