(* ===== verification/Access_Log.thy ===== *)
theory Access_Log
  imports Provider_Health Rate_Limit_Middleware
begin

text \<open>
  The observing middlewares: \<^verbatim>\<open>internal/middleware/logging.go\<close>, \<^verbatim>\<open>metrics.go\<close> and \<^verbatim>\<open>debug_bodies.go\<close>. The chi router is not part of the
  repository; what these files use of it are the fields of \<open>chi\<close>: the status and byte count its wrapping writer reports after a sequence of calls, the
  pattern a request was matched by, its request IDs, its recovering middleware and its URL parameters.
\<close>

section \<open>What is used of chi\<close>

record 'w chi =
  chi_Status :: "writer_op list \<Rightarrow> int"
  chi_BytesWritten :: "writer_op list \<Rightarrow> int"
  chi_RoutePattern :: "Request \<Rightarrow> string option"
  chi_URLParam :: "Request \<Rightarrow> string \<Rightarrow> string"
  chi_RequestID :: "'w handler \<Rightarrow> 'w handler"
  chi_Recoverer :: "'w handler \<Rightarrow> 'w handler"

section \<open>Request log\<close>

definition appendRequestInfoAttrs :: "attrs \<Rightarrow> RequestInfo option \<Rightarrow> attrs" where
  "appendRequestInfoAttrs as ri =
     (case ri of
        None \<Rightarrow> as
      | Some i \<Rightarrow>
          as @ (if riOrgID i \<noteq> [] then [(''org_id'', StrAttr (riOrgID i))] else [])
             @ (if riKeyID i \<noteq> [] then [(''key_id'', StrAttr (riKeyID i))] else [])
             @ (if riModel i \<noteq> [] then [(''model'', StrAttr (riModel i))] else [])
             @ (if riProvider i \<noteq> [] then [(''provider'', StrAttr (riProvider i))] else [])
             @ (if riStrategy i \<noteq> [] then [(''strategy'', StrAttr (riStrategy i))] else [])
             @ (if riGroup i \<noteq> [] then [(''group'', StrAttr (riGroup i))] else [])
             @ (if riPromptTokens i > 0 \<or> riCompletionTokens i > 0 then
                  [(''prompt_tokens'', IntAttr (riPromptTokens i)), (''completion_tokens'', IntAttr (riCompletionTokens i)),
                   (''total_tokens'', IntAttr (wrap64 (riPromptTokens i + riCompletionTokens i)))]
                else [])
             @ (if riRateLimited i then [(''rate_limited'', BoolAttr True)] else []))"

definition duration_ms :: "duration \<Rightarrow> float64" where
  "duration_ms d = f64_div (f64_of_int (d sdiv 1000)) (f64_of_int 1000)"

text \<open>The info pointer lives in the inner request's context only, so the exchange has the outer one back afterwards. A handler that does not return is not logged.\<close>

definition RequestLogger :: "'w chi \<Rightarrow> ('w \<Rightarrow> instant) \<Rightarrow> logger \<Rightarrow> 'w handler \<Rightarrow> 'w handler" where
  "RequestLogger c now lg next r x =
     (let start = now (world x);
          reqID = ctxReqID r;
          child = lg\<lparr>loggerAttrs := loggerAttrs lg @ [(''request_id'', StrAttr reqID)]\<rparr>;
          pre = (if reqID \<noteq> [] then [SetHeader ''X-Request-Id'' reqID] else []);
          (ops, x') = next (r\<lparr>ctxLogger := Some child\<rparr>) (x\<lparr>info := Some emptyRequestInfo\<rparr>);
          ops = pre @ ops
      in if \<not> returns ops then (ops, x'\<lparr>info := info x\<rparr>)
         else
           (let as = [(''method'', StrAttr (Method r)), (''path'', StrAttr (Path r)), (''status'', IntAttr (chi_Status c ops)),
                      (''duration_ms'', FloatAttr (duration_ms (time_Sub (now (world x')) start))), (''bytes'', IntAttr (chi_BytesWritten c ops))]
            in (ops, (log_to child LevelInfo ''request completed'' (appendRequestInfoAttrs as (info x')) x')\<lparr>info := info x\<rparr>)))"

section \<open>Request metrics\<close>

definition Observe_requests :: "'w chi \<Rightarrow> ('w \<Rightarrow> instant) \<Rightarrow> 'w handler \<Rightarrow> 'w handler" where
  "Observe_requests c now next r x =
     (let start = now (world x); (ops, x) = next r x in
      if \<not> returns ops then (ops, x)
      else
        (let pathTemplate = (case chi_RoutePattern c r of Some p \<Rightarrow> if p \<noteq> [] then p else ''unknown'' | None \<Rightarrow> ''unknown'');
             status = chi_Status c ops;
             status = (if status = 0 then 200 else status)
         in (ops, emit (RecordRequest (Method r) pathTemplate status (time_Sub (now (world x)) start)) x)))"

section \<open>Request bodies in the debug log\<close>

definition defaultDebugBodyLimit :: nat where
  "defaultDebugBodyLimit = 1048576"

text \<open>How \<^verbatim>\<open>io.ReadFull\<close> of \<open>n\<close> bytes ends: filled, at the end of the body, or with a read error.\<close>

datatype read_end = ReadFilled | ReadEnded | ReadFailed go_error

definition io_ErrUnexpectedEOF :: go_error where
  "io_ErrUnexpectedEOF = ErrText ''unexpected EOF''"

definition ReadFull :: "nat \<Rightarrow> request_body \<Rightarrow> string \<times> read_end" where
  "ReadFull n b =
     (take n (bodyBytes b),
      if n \<le> length (bodyBytes b) then ReadFilled
      else case bodyEnd b of BodyEOF \<Rightarrow> ReadEnded | BodyFails e \<Rightarrow> if e = io_ErrUnexpectedEOF then ReadEnded else ReadFailed e)"

definition debugBodyLimit :: "int \<Rightarrow> nat" where
  "debugBodyLimit maxBytes = (if maxBytes \<le> 0 then defaultDebugBodyLimit else nat maxBytes)"

definition DebugRequestBodies :: "logger \<Rightarrow> int \<Rightarrow> 'w handler \<Rightarrow> 'w handler" where
  "DebugRequestBodies dflt maxBytes next r x =
     (let n = debugBodyLimit maxBytes;
          lg = LoggerFromContext dflt r
      in if \<not> logger_Enabled lg LevelDebug then next r x
         else case reqBody r of
             None \<Rightarrow> next r x
           | Some b \<Rightarrow>
               (case ReadFull (n + 1) b of
                  (consumed, ReadFailed e) \<Rightarrow>
                    next (r\<lparr>reqBody := Some \<lparr>bodyBytes = [], bodyEnd = BodyEOF\<rparr>\<rparr>)
                      (log_to lg LevelDebug ''http body read failed'' [(''err'', StrAttr (err_Error e))] x)
                | (consumed, how) \<Rightarrow>
                    (let trunc = (how = ReadFilled);
                         shown = (if trunc then take n consumed else consumed);
                         as = [(''path'', StrAttr (Path r)), (''len'', IntAttr (int (length shown))), (''body'', StrAttr shown)] @
                              (if trunc then [(''truncated'', BoolAttr True)] else []);
                         restored = (if trunc then \<lparr>bodyBytes = consumed @ drop (n + 1) (bodyBytes b), bodyEnd = bodyEnd b\<rparr>
                                     else \<lparr>bodyBytes = consumed, bodyEnd = BodyEOF\<rparr>)
                     in next (r\<lparr>reqBody := Some restored\<rparr>) (log_to lg LevelDebug ''http body'' as x))))"

section \<open>Specification vocabulary\<close>

text \<open>What chi documents of its wrapping writer: the status is that of the header sent, 0 before, and the count is that of the body bytes.\<close>

definition reports_response :: "'w chi \<Rightarrow> bool" where
  "reports_response c \<longleftrightarrow> (\<forall>ops. chi_Status c ops = (case sent (run_ops ops new_response) of Some (code, h) \<Rightarrow> code | None \<Rightarrow> 0) \<and>
     chi_BytesWritten c ops = int (length (body (run_ops ops new_response))))"

definition plain_chi :: "'w chi" where
  "plain_chi = \<lparr>chi_Status = (\<lambda>ops. case sent (run_ops ops new_response) of Some (code, h) \<Rightarrow> code | None \<Rightarrow> 0),
     chi_BytesWritten = (\<lambda>ops. int (length (body (run_ops ops new_response)))), chi_RoutePattern = (\<lambda>r. Some (Path r)),
     chi_URLParam = (\<lambda>r k. drop (length ''/internal/admin/keys/'') (Path r)), chi_RequestID = (\<lambda>h. h), chi_Recoverer = (\<lambda>h. h)\<rparr>"

definition body_entry :: "logger \<Rightarrow> nat \<Rightarrow> Request \<Rightarrow> string \<Rightarrow> log_entry" where
  "body_entry lg n r b = LogEntry LevelDebug ''http body'' (loggerAttrs lg @
     [(''path'', StrAttr (Path r)), (''len'', IntAttr (int (min n (length b)))), (''body'', StrAttr (take n b))] @
     (if n < length b then [(''truncated'', BoolAttr True)] else []))"

section \<open>Properties\<close>


lemma returns_append [simp]: "returns (xs @ ys) \<longleftrightarrow> returns xs \<and> returns ys"
  by (auto simp: returns_def)

lemma set_appendRequestInfoAttrs: "set as \<subseteq> set (appendRequestInfoAttrs as ri)"
  by (cases ri) (simp_all add: appendRequestInfoAttrs_def)



end
