(* ===== verification/Upstream_Http.thy ===== *)
theory Upstream_Http
  imports Request_Context
begin

text \<open>
  What the three provider adapters use of \<^verbatim>\<open>net/http\<close>'s client side, \<^verbatim>\<open>bufio\<close> and \<^verbatim>\<open>encoding/json\<close>. The upstream services are not part of the
  repository: \<open>up_Do\<close> is one round trip over the world, and its answer is a status, headers and a body that ends or breaks off; a timeout on the request's context is a field of what is sent. \<open>up_jsonMsg\<close> is the wording
  of the codec's error for a text it rejects, \<open>up_urlError\<close> says which URLs do not parse, \<open>up_RFC1123\<close> parses HTTP dates.
\<close>

section \<open>Round trips\<close>

record http_request =
  hrURL :: string
  hrTimeout :: "duration option"
  hrHeader :: headers
  hrBody :: string

record http_response =
  hsStatus :: int
  hsHeader :: headers
  hsBody :: request_body

record 'w upstream =
  up_Do :: "http_request \<Rightarrow> 'w \<Rightarrow> (go_error + http_response) \<times> 'w"
  up_urlError :: "string \<Rightarrow> go_error option"
  up_now :: "'w \<Rightarrow> instant"
  up_random :: "nat \<Rightarrow> 'w \<Rightarrow> nat list \<times> 'w"
  up_RFC1123 :: "string \<Rightarrow> instant option"
  up_jsonMsg :: "string \<Rightarrow> string"

text \<open>\<^verbatim>\<open>Time.Unix\<close>: instants count from the year 1, Unix time from 1970.\<close>

definition unix_seconds :: "instant \<Rightarrow> int" where
  "unix_seconds t = t div nanosPerSecond - 62135596800"

text \<open>Marshal, build the request, send it; the three ways this fails before there is a response.\<close>

definition post_json ::
  "'w upstream \<Rightarrow> duration option \<Rightarrow> string \<Rightarrow> headers \<Rightarrow> json option \<Rightarrow> 'w \<Rightarrow> (go_error + http_response) \<times> 'w"
where
  "post_json env timeout url hs payload w =
     (case payload of
        None \<Rightarrow> (Inl (ErrWrapped ''marshaling request'' (ErrText (up_jsonMsg env []))), w)
      | Some j \<Rightarrow>
          (case up_urlError env url of
             Some e \<Rightarrow> (Inl (ErrWrapped ''creating request'' e), w)
           | None \<Rightarrow>
               (case up_Do env \<lparr>hrURL = url, hrTimeout = timeout, hrHeader = hs, hrBody = json_text j\<rparr> w of
                  (Inl e, w') \<Rightarrow> (Inl (ErrWrapped ''sending request'' e), w')
                | (Inr resp, w') \<Rightarrow> (Inr resp, w'))))"

section \<open>Decoding a body\<close>

text \<open>A number that reaches the end of what was read may go on, so the decoder reads again before it takes it.\<close>

definition pending_number :: "json \<Rightarrow> string \<Rightarrow> bool" where
  "pending_number j r = (r = [] \<and> (case j of JNum _ \<Rightarrow> True | _ \<Rightarrow> False))"

definition decode_body :: "'w upstream \<Rightarrow> 'a decoder \<Rightarrow> 'a \<Rightarrow> request_body \<Rightarrow> go_error + 'a" where
  "decode_body env f zero b =
     (case json_decode (bodyBytes b) of
        Done j r \<Rightarrow>
          (if pending_number j r \<and> bodyEnd b \<noteq> BodyEOF then (case bodyEnd b of BodyFails e \<Rightarrow> Inl e)
           else case f j zero of Some x \<Rightarrow> Inr x | None \<Rightarrow> Inl (ErrText (up_jsonMsg env (bodyBytes b))))
      | Bad \<Rightarrow> Inl (ErrText (up_jsonMsg env (bodyBytes b)))
      | More \<Rightarrow>
          (case bodyEnd b of
             BodyFails e \<Rightarrow> Inl e
           | BodyEOF \<Rightarrow> Inl (ErrText (if list_all is_space (bodyBytes b) then ''EOF'' else ''unexpected EOF''))))"

section \<open>Lines\<close>

text \<open>\<^verbatim>\<open>bufio.Scanner\<close> with \<^verbatim>\<open>ScanLines\<close> and a buffer that grows to 1 MiB.\<close>

fun raw_lines :: "string \<Rightarrow> string \<Rightarrow> string list" where
  "raw_lines cur [] = (if cur = [] then [] else [rev cur])"
| "raw_lines cur (c # s) = (if c = CHR 0x0A then rev cur # raw_lines [] s else raw_lines (c # cur) s)"

definition drop_cr :: "string \<Rightarrow> string" where
  "drop_cr l = (if l \<noteq> [] \<and> last l = CHR 0x0D then butlast l else l)"

definition maxTokenSize :: nat where
  "maxTokenSize = 1048576"

definition scan_lines :: "request_body \<Rightarrow> string list \<times> go_error option" where
  "scan_lines b =
     (let raw = raw_lines [] (bodyBytes b); ok = takeWhile (\<lambda>l. length l < maxTokenSize) raw in
      (map drop_cr ok,
       if length ok < length raw then Some (ErrText ''bufio.Scanner: token too long'')
       else case bodyEnd b of BodyEOF \<Rightarrow> None | BodyFails e \<Rightarrow> Some e))"

section \<open>Error responses\<close>

text \<open>
  \<^verbatim>\<open>io.ReadAll(io.LimitReader(resp.Body, 1<<20))\<close> with its error dropped, and the part of \<^verbatim>\<open>handleErrorResponse\<close> the adapters share: the service's own
  message and type when the body carries one, the first 200 bytes of the body and a type from the status otherwise.
\<close>

definition error_body :: "http_response \<Rightarrow> string" where
  "error_body resp = take 1048576 (bodyBytes (hsBody resp))"

definition provider_error ::
  "'w upstream \<Rightarrow> http_response \<Rightarrow> bool \<Rightarrow> (string \<times> string) option \<Rightarrow> (int \<Rightarrow> string) \<Rightarrow> 'w \<Rightarrow> go_error"
where
  "provider_error env resp retryable described errorTypeFromStatus w =
     (let ra = ParseRetryAfter (up_RFC1123 env) (up_now env w) (Header_Get ''Retry-After'' (hsHeader resp));
          (ty, msg) = (case described of
             Some (ty, msg) \<Rightarrow> (ty, msg)
           | None \<Rightarrow> (errorTypeFromStatus (hsStatus resp), take 200 (error_body resp)))
      in ErrProvider \<lparr>StatusCode = hsStatus resp, peType = ty, peMessage = msg, Retryable = retryable, RetryAfter = ra\<rparr>)"

section \<open>Server-sent events\<close>

text \<open>The text of one event as the gateway and the services frame it.\<close>

definition sse_event :: "string \<Rightarrow> string" where
  "sse_event d = ''data: '' @ d @ [CHR 0x0A, CHR 0x0A]"

text \<open>An abandoned stream delivers a prefix of its events.\<close>

definition delivered :: "nat option \<Rightarrow> 'a list \<Rightarrow> 'a list" where
  "delivered stopAt evts = (case stopAt of None \<Rightarrow> evts | Some n \<Rightarrow> take n evts)"

section \<open>Lemmas\<close>

lemma raw_lines_line:
  assumes "CHR 0x0A \<notin> set l"
  shows "raw_lines cur (l @ CHR 0x0A # s) = (rev cur @ l) # raw_lines [] s"
  using assms by (induction l arbitrary: cur) auto

lemma raw_lines_event: "CHR 0x0A \<notin> set d \<Longrightarrow> raw_lines [] (sse_event d @ s) = (''data: '' @ d) # [] # raw_lines [] s"
  using raw_lines_line [of "''data: '' @ d" "[]" "CHR 0x0A # s"] by (simp add: sse_event_def)

lemma raw_lines_events:
  assumes "\<forall>d \<in> set ds. CHR 0x0A \<notin> set d"
  shows "raw_lines [] (concat (map sse_event ds)) = concat (map (\<lambda>d. [''data: '' @ d, []]) ds)"
  using assms by (induction ds) (simp_all add: raw_lines_event)

end
