(* ===== verification/OpenAI_Adapter.thy ===== *)
theory OpenAI_Adapter
  imports Upstream_Http
begin

text \<open>
  \<^verbatim>\<open>internal/provider/openai\<close>. The adapter passes requests on with the \<^verbatim>\<open>stream\<close> field overridden and reads responses and chunks in the gateway's own
  format. The goroutine of \<^verbatim>\<open>ChatCompletionStream\<close> is the function from the scanned lines to the events it puts on the channel; a cancelled context
  cuts them off.
\<close>

record adapter_config =
  acAPIKey :: string
  acBaseURL :: string
  acTimeout :: duration
  acModels :: "string list"

record adapter =
  adName :: string
  adAPIKey :: string
  adBaseURL :: string
  adTimeout :: duration
  adModels :: "string list"

definition openai_New :: "adapter_config \<Rightarrow> adapter" where
  "openai_New cfg = \<lparr>adName = ''openai'', adAPIKey = acAPIKey cfg,
     adBaseURL = (if acBaseURL cfg = [] then ''https://api.openai.com/v1'' else acBaseURL cfg),
     adTimeout = (if acTimeout cfg = 0 then 30 * nanosPerSecond else acTimeout cfg), adModels = acModels cfg\<rparr>"

text \<open>An optional number of the request: left out when absent, and a failure of the whole encoding when it has no JSON text.\<close>

definition enc_f64_field :: "string \<Rightarrow> float64 option \<Rightarrow> (string \<times> json) list option" where
  "enc_f64_field k x = (case x of None \<Rightarrow> Some [] | Some f \<Rightarrow> map_option (\<lambda>j. [(k, j)]) (enc_f64 f))"

definition enc_int_field :: "string \<Rightarrow> int option \<Rightarrow> (string \<times> json) list" where
  "enc_int_field k x = (case x of None \<Rightarrow> [] | Some n \<Rightarrow> [(k, enc_int n)])"

definition enc_strings_field :: "string \<Rightarrow> string list \<Rightarrow> (string \<times> json) list" where
  "enc_strings_field k xs = omitempty (xs = []) k (JArr (map JStr xs))"

definition enc_openaiRequest :: "ChatCompletionRequest \<Rightarrow> bool \<Rightarrow> json option" where
  "enc_openaiRequest req strm =
     (case (enc_f64_field ''temperature'' (Temperature req), enc_f64_field ''top_p'' (TopP req),
            enc_f64_field ''presence_penalty'' (PresencePenalty req), enc_f64_field ''frequency_penalty'' (FrequencyPenalty req)) of
        (Some t, Some p, Some pp, Some fp) \<Rightarrow> Some (JObj
          ([(''model'', JStr (reqModel req)), (''messages'', JArr (map enc_Message (Messages req)))] @ t @ p @ enc_int_field ''n'' (reqN req) @
           enc_strings_field ''stop'' (Stop req) @ enc_int_field ''max_tokens'' (MaxTokens req) @ pp @ fp @
           enc_string_field ''user'' (reqUser req) @ [(''stream'', JBool strm)]))
      | _ \<Rightarrow> None)"

record openaiErrorResponse =
  oeMessage :: string
  oeType :: string
  oeCode :: string

definition zeroOpenaiError :: openaiErrorResponse where
  "zeroOpenaiError = \<lparr>oeMessage = [], oeType = [], oeCode = []\<rparr>"

definition dec_openaiErrorResponse :: "openaiErrorResponse decoder" where
  "dec_openaiErrorResponse = dec_struct (\<lambda>k v e.
     if k = ''ERROR'' then dec_struct (\<lambda>k v e.
       if k = ''MESSAGE'' then map_option (\<lambda>x. e\<lparr>oeMessage := x\<rparr>) (dec_string v (oeMessage e))
       else if k = ''TYPE'' then map_option (\<lambda>x. e\<lparr>oeType := x\<rparr>) (dec_string v (oeType e))
       else if k = ''CODE'' then map_option (\<lambda>x. e\<lparr>oeCode := x\<rparr>) (dec_string v (oeCode e))
       else Some e) v e
     else Some e)"

definition openai_errorTypeFromStatus :: "int \<Rightarrow> string" where
  "openai_errorTypeFromStatus status =
     (if status = 401 then ''authentication_error''
      else if status = 429 then ''rate_limit_error''
      else if status = 400 then ''invalid_request_error''
      else ''upstream_error'')"

definition openai_handleErrorResponse :: "'w upstream \<Rightarrow> http_response \<Rightarrow> 'w \<Rightarrow> go_error" where
  "openai_handleErrorResponse env resp w =
     provider_error env resp (hsStatus resp = 429 \<or> hsStatus resp \<ge> 500)
       (case unmarshal dec_openaiErrorResponse zeroOpenaiError (error_body resp) of
          Some e \<Rightarrow> if oeMessage e \<noteq> [] then Some (oeType e, oeMessage e) else None
        | None \<Rightarrow> None)
       openai_errorTypeFromStatus w"

definition openai_headers :: "adapter \<Rightarrow> headers" where
  "openai_headers p = [(''Content-Type'', ''application/json''), (''Authorization'', ''Bearer '' @ adAPIKey p)]"

definition openai_ChatCompletion ::
  "'w upstream \<Rightarrow> adapter \<Rightarrow> ChatCompletionRequest \<Rightarrow> 'w \<Rightarrow> (go_error + ChatCompletionResponse) \<times> 'w"
where
  "openai_ChatCompletion env p req w =
     (case post_json env (Some (adTimeout p)) (adBaseURL p @ ''/chat/completions'') (openai_headers p) (enc_openaiRequest req False) w of
        (Inl e, w) \<Rightarrow> (Inl e, w)
      | (Inr resp, w) \<Rightarrow>
          if hsStatus resp \<noteq> 200 then (Inl (openai_handleErrorResponse env resp w), w)
          else (case decode_body env dec_ChatCompletionResponse zeroResponse (hsBody resp) of
             Inl e \<Rightarrow> (Inl (ErrWrapped ''decoding response'' e), w)
           | Inr result \<Rightarrow> (Inr result, w)))"

fun openai_events :: "'w upstream \<Rightarrow> string list \<Rightarrow> go_error option \<Rightarrow> StreamEvent list" where
  "openai_events env [] scanErr =
     [ErrEvent (case scanErr of
        Some e \<Rightarrow> ErrWrapped ''reading stream'' e
      | None \<Rightarrow> ErrText ''reading stream: unexpected EOF without [DONE]'')]"
| "openai_events env (line # ls) scanErr =
     (if \<not> HasPrefix line ''data: '' then openai_events env ls scanErr
      else let d = TrimPrefix line ''data: '' in
        if d = ''[DONE]'' then []
        else case unmarshal dec_ChatCompletionChunk zeroChunk d of
            None \<Rightarrow> [ErrEvent (ErrWrapped ''decoding chunk'' (ErrText (up_jsonMsg env d)))]
          | Some c \<Rightarrow> ChunkEvent c # openai_events env ls scanErr)"

definition openai_ChatCompletionStream ::
  "'w upstream \<Rightarrow> adapter \<Rightarrow> nat option \<Rightarrow> ChatCompletionRequest \<Rightarrow> 'w \<Rightarrow> (go_error + StreamEvent list) \<times> 'w"
where
  "openai_ChatCompletionStream env p stopAt req w =
     (case post_json env None (adBaseURL p @ ''/chat/completions'') (openai_headers p @ [(''Accept'', ''text/event-stream'')]) (enc_openaiRequest req True) w of
        (Inl e, w) \<Rightarrow> (Inl e, w)
      | (Inr resp, w) \<Rightarrow>
          if hsStatus resp \<noteq> 200 then (Inl (openai_handleErrorResponse env resp w), w)
          else let (ls, scanErr) = scan_lines (hsBody resp) in (Inr (delivered stopAt (openai_events env ls scanErr)), w))"

end
