(* ===== verification/Anthropic_Adapter.thy ===== *)
theory Anthropic_Adapter
  imports OpenAI_Adapter
begin

text \<open>
  \<^verbatim>\<open>internal/provider/anthropic\<close>: the translation of requests and responses between the gateway's format and the Messages API, and the reader of its
  event stream. The reader is a machine over the scanned lines whose state is the four variables of the goroutine; \<open>clk i\<close> is the clock when line \<open>i\<close> is
  processed.
\<close>

section \<open>API types\<close>

record anthropicMessage =
  amRole :: string
  amContent :: string

record anthropicRequest =
  arModel :: string
  arMessages :: "anthropicMessage list option"
  arSystem :: string
  arMaxTokens :: int
  arTemperature :: "float64 option"
  arTopP :: "float64 option"
  arStopSequences :: "string list"
  arStream :: bool

record anthropicContent =
  acType :: string
  acText :: string

record anthropicUsage =
  InputTokens :: int
  OutputTokens :: int

record anthropicResponse =
  apID :: string
  apType :: string
  apRole :: string
  apContent :: "anthropicContent list"
  apModel :: string
  apStopReason :: string
  apStopSequence :: "string option"
  apUsage :: anthropicUsage

definition zeroAnthropicContent :: anthropicContent where
  "zeroAnthropicContent = \<lparr>acType = [], acText = []\<rparr>"

definition zeroAnthropicResponse :: anthropicResponse where
  "zeroAnthropicResponse = \<lparr>apID = [], apType = [], apRole = [], apContent = [], apModel = [], apStopReason = [], apStopSequence = None,
     apUsage = \<lparr>InputTokens = 0, OutputTokens = 0\<rparr>\<rparr>"

definition enc_anthropicRequest :: "anthropicRequest \<Rightarrow> json option" where
  "enc_anthropicRequest r =
     (case (enc_f64_field ''temperature'' (arTemperature r), enc_f64_field ''top_p'' (arTopP r)) of
        (Some t, Some p) \<Rightarrow> Some (JObj
          ([(''model'', JStr (arModel r)),
            (''messages'', enc_slice (\<lambda>m. JObj [(''role'', JStr (amRole m)), (''content'', JStr (amContent m))]) (arMessages r))] @
           enc_string_field ''system'' (arSystem r) @ [(''max_tokens'', enc_int (arMaxTokens r))] @ t @ p @
           enc_strings_field ''stop_sequences'' (arStopSequences r) @ [(''stream'', JBool (arStream r))]))
      | _ \<Rightarrow> None)"

definition dec_anthropicContent :: "anthropicContent decoder" where
  "dec_anthropicContent = dec_struct (\<lambda>k v c.
     if k = ''TYPE'' then map_option (\<lambda>x. c\<lparr>acType := x\<rparr>) (dec_string v (acType c))
     else if k = ''TEXT'' then map_option (\<lambda>x. c\<lparr>acText := x\<rparr>) (dec_string v (acText c))
     else Some c)"

definition dec_anthropicUsage :: "anthropicUsage decoder" where
  "dec_anthropicUsage = dec_struct (\<lambda>k v u.
     if k = ''INPUT_TOKENS'' then map_option (\<lambda>x. u\<lparr>InputTokens := x\<rparr>) (dec_int v (InputTokens u))
     else if k = ''OUTPUT_TOKENS'' then map_option (\<lambda>x. u\<lparr>OutputTokens := x\<rparr>) (dec_int v (OutputTokens u))
     else Some u)"

definition dec_anthropicResponse :: "anthropicResponse decoder" where
  "dec_anthropicResponse = dec_struct (\<lambda>k v r.
     if k = ''ID'' then map_option (\<lambda>x. r\<lparr>apID := x\<rparr>) (dec_string v (apID r))
     else if k = ''TYPE'' then map_option (\<lambda>x. r\<lparr>apType := x\<rparr>) (dec_string v (apType r))
     else if k = ''ROLE'' then map_option (\<lambda>x. r\<lparr>apRole := x\<rparr>) (dec_string v (apRole r))
     else if k = ''CONTENT'' then map_option (\<lambda>x. r\<lparr>apContent := x\<rparr>) (dec_list zeroAnthropicContent dec_anthropicContent v (apContent r))
     else if k = ''MODEL'' then map_option (\<lambda>x. r\<lparr>apModel := x\<rparr>) (dec_string v (apModel r))
     else if k = ''STOP_REASON'' then map_option (\<lambda>x. r\<lparr>apStopReason := x\<rparr>) (dec_string v (apStopReason r))
     else if k = ''STOP_SEQUENCE'' then map_option (\<lambda>x. r\<lparr>apStopSequence := x\<rparr>) (dec_ptr [] dec_string v (apStopSequence r))
     else if k = ''USAGE'' then map_option (\<lambda>x. r\<lparr>apUsage := x\<rparr>) (dec_anthropicUsage v (apUsage r))
     else Some r)"

record anthropicErrorResponse =
  aeType :: string
  aeErrType :: string
  aeErrMessage :: string

definition dec_anthropicErrorResponse :: "anthropicErrorResponse decoder" where
  "dec_anthropicErrorResponse = dec_struct (\<lambda>k v e.
     if k = ''TYPE'' then map_option (\<lambda>x. e\<lparr>aeType := x\<rparr>) (dec_string v (aeType e))
     else if k = ''ERROR'' then dec_struct (\<lambda>k v e.
       if k = ''TYPE'' then map_option (\<lambda>x. e\<lparr>aeErrType := x\<rparr>) (dec_string v (aeErrType e))
       else if k = ''MESSAGE'' then map_option (\<lambda>x. e\<lparr>aeErrMessage := x\<rparr>) (dec_string v (aeErrMessage e))
       else Some e) v e
     else Some e)"

record messageStartEvent =
  msType :: string
  msMessage :: anthropicResponse

definition dec_messageStartEvent :: "messageStartEvent decoder" where
  "dec_messageStartEvent = dec_struct (\<lambda>k v e.
     if k = ''TYPE'' then map_option (\<lambda>x. e\<lparr>msType := x\<rparr>) (dec_string v (msType e))
     else if k = ''MESSAGE'' then map_option (\<lambda>x. e\<lparr>msMessage := x\<rparr>) (dec_anthropicResponse v (msMessage e))
     else Some e)"

record contentBlockDeltaEvent =
  cdType :: string
  cdIndex :: int
  cdDeltaType :: string
  cdDeltaText :: string

definition dec_contentBlockDeltaEvent :: "contentBlockDeltaEvent decoder" where
  "dec_contentBlockDeltaEvent = dec_struct (\<lambda>k v e.
     if k = ''TYPE'' then map_option (\<lambda>x. e\<lparr>cdType := x\<rparr>) (dec_string v (cdType e))
     else if k = ''INDEX'' then map_option (\<lambda>x. e\<lparr>cdIndex := x\<rparr>) (dec_int v (cdIndex e))
     else if k = ''DELTA'' then dec_struct (\<lambda>k v e.
       if k = ''TYPE'' then map_option (\<lambda>x. e\<lparr>cdDeltaType := x\<rparr>) (dec_string v (cdDeltaType e))
       else if k = ''TEXT'' then map_option (\<lambda>x. e\<lparr>cdDeltaText := x\<rparr>) (dec_string v (cdDeltaText e))
       else Some e) v e
     else Some e)"

record messageDeltaEvent =
  mdType :: string
  mdStopReason :: string
  mdStopSequence :: "string option"
  mdOutputTokens :: int

definition dec_messageDeltaEvent :: "messageDeltaEvent decoder" where
  "dec_messageDeltaEvent = dec_struct (\<lambda>k v e.
     if k = ''TYPE'' then map_option (\<lambda>x. e\<lparr>mdType := x\<rparr>) (dec_string v (mdType e))
     else if k = ''DELTA'' then dec_struct (\<lambda>k v e.
       if k = ''STOP_REASON'' then map_option (\<lambda>x. e\<lparr>mdStopReason := x\<rparr>) (dec_string v (mdStopReason e))
       else if k = ''STOP_SEQUENCE'' then map_option (\<lambda>x. e\<lparr>mdStopSequence := x\<rparr>) (dec_ptr [] dec_string v (mdStopSequence e))
       else Some e) v e
     else if k = ''USAGE'' then dec_struct (\<lambda>k v e.
       if k = ''OUTPUT_TOKENS'' then map_option (\<lambda>x. e\<lparr>mdOutputTokens := x\<rparr>) (dec_int v (mdOutputTokens e))
       else Some e) v e
     else Some e)"

section \<open>Translation\<close>

definition anthropic_New :: "adapter_config \<Rightarrow> adapter" where
  "anthropic_New cfg = \<lparr>adName = ''anthropic'', adAPIKey = acAPIKey cfg,
     adBaseURL = (if acBaseURL cfg = [] then ''https://api.anthropic.com'' else acBaseURL cfg),
     adTimeout = (if acTimeout cfg = 0 then 30 * nanosPerSecond else acTimeout cfg), adModels = acModels cfg\<rparr>"

definition anthropicDefaultMaxTokens :: int where
  "anthropicDefaultMaxTokens = 4096"

text \<open>The loop over the messages: system contents on one side, the others in order on the other.\<close>

fun split_system :: "Message list \<Rightarrow> string list \<times> anthropicMessage list" where
  "split_system [] = ([], [])"
| "split_system (m # ms) =
     (let (sys, rest) = split_system ms in
      if Role m = ''system'' then (Content m # sys, rest)
      else (sys, \<lparr>amRole = Role m, amContent = Content m\<rparr> # rest))"

definition anthropic_translateRequest :: "ChatCompletionRequest \<Rightarrow> anthropicRequest" where
  "anthropic_translateRequest req =
     (let (sys, rest) = split_system (Messages req) in
      \<lparr>arModel = reqModel req, arMessages = (if rest = [] then None else Some rest),
       arSystem = (if sys \<noteq> [] then strings_Join sys [CHR 0x0A, CHR 0x0A] else []),
       arMaxTokens = (case MaxTokens req of Some n \<Rightarrow> n | None \<Rightarrow> anthropicDefaultMaxTokens),
       arTemperature = Temperature req, arTopP = TopP req, arStopSequences = Stop req, arStream = False\<rparr>)"

definition mapStopReason :: "string \<Rightarrow> string" where
  "mapStopReason reason =
     (if reason = ''end_turn'' then ''stop''
      else if reason = ''max_tokens'' then ''length''
      else if reason = ''stop_sequence'' then ''stop''
      else reason)"

definition anthropic_translateResponse :: "instant \<Rightarrow> anthropicResponse \<Rightarrow> ChatCompletionResponse" where
  "anthropic_translateResponse now resp =
     \<lparr>ID = apID resp, Object = ''chat.completion'', Created = unix_seconds now, respModel = apModel resp,
      Choices = Some [\<lparr>Index = 0,
        choiceMessage = \<lparr>Role = ''assistant'', Content = strings_Join (map acText (filter (\<lambda>c. acType c = ''text'') (apContent resp))) [], Name = []\<rparr>,
        FinishReason = mapStopReason (apStopReason resp)\<rparr>],
      respUsage = \<lparr>PromptTokens = InputTokens (apUsage resp), CompletionTokens = OutputTokens (apUsage resp),
        TotalTokens = wrap64 (InputTokens (apUsage resp) + OutputTokens (apUsage resp))\<rparr>,
      SystemFingerprint = []\<rparr>"

section \<open>Calls\<close>

definition anthropic_headers :: "adapter \<Rightarrow> headers" where
  "anthropic_headers p = [(''Content-Type'', ''application/json''), (''X-Api-Key'', adAPIKey p), (''Anthropic-Version'', ''2023-06-01'')]"

definition anthropic_errorTypeFromStatus :: "int \<Rightarrow> string" where
  "anthropic_errorTypeFromStatus status =
     (if status = 401 then ''authentication_error''
      else if status = 429 then ''rate_limit_error''
      else if status = 400 then ''invalid_request_error''
      else ''upstream_error'')"

definition anthropic_handleErrorResponse :: "'w upstream \<Rightarrow> http_response \<Rightarrow> 'w \<Rightarrow> go_error" where
  "anthropic_handleErrorResponse env resp w =
     provider_error env resp (hsStatus resp = 429 \<or> hsStatus resp \<ge> 500 \<or> hsStatus resp = 529)
       (case unmarshal dec_anthropicErrorResponse \<lparr>aeType = [], aeErrType = [], aeErrMessage = []\<rparr> (error_body resp) of
          Some e \<Rightarrow> if aeErrMessage e \<noteq> [] then Some (aeErrType e, aeErrMessage e) else None
        | None \<Rightarrow> None)
       anthropic_errorTypeFromStatus w"

definition anthropic_ChatCompletion ::
  "'w upstream \<Rightarrow> adapter \<Rightarrow> ChatCompletionRequest \<Rightarrow> 'w \<Rightarrow> (go_error + ChatCompletionResponse) \<times> 'w"
where
  "anthropic_ChatCompletion env p req w =
     (case post_json env (Some (adTimeout p)) (adBaseURL p @ ''/v1/messages'') (anthropic_headers p)
             (enc_anthropicRequest ((anthropic_translateRequest req)\<lparr>arStream := False\<rparr>)) w of
        (Inl e, w) \<Rightarrow> (Inl e, w)
      | (Inr resp, w) \<Rightarrow>
          if hsStatus resp \<noteq> 200 then (Inl (anthropic_handleErrorResponse env resp w), w)
          else (case decode_body env dec_anthropicResponse zeroAnthropicResponse (hsBody resp) of
             Inl e \<Rightarrow> (Inl (ErrWrapped ''decoding response'' e), w)
           | Inr ar \<Rightarrow> (Inr (anthropic_translateResponse (up_now env w) ar), w)))"

section \<open>The event stream\<close>

record anthropic_stream =
  msgID :: string
  msgModel :: string
  inputTokens :: int
  eventType :: string

definition text_chunk :: "instant \<Rightarrow> anthropic_stream \<Rightarrow> string \<Rightarrow> ChatCompletionChunk" where
  "text_chunk now st txt =
     \<lparr>chunkID = msgID st, chunkObject = ''chat.completion.chunk'', chunkCreated = unix_seconds now, chunkModel = msgModel st,
      chunkChoices = Some [\<lparr>chunkIndex = 0, Delta = \<lparr>deltaRole = [], deltaContent = txt\<rparr>, chunkFinishReason = None\<rparr>], chunkUsage = None\<rparr>"

definition final_chunk :: "instant \<Rightarrow> anthropic_stream \<Rightarrow> messageDeltaEvent \<Rightarrow> ChatCompletionChunk" where
  "final_chunk now st ev =
     \<lparr>chunkID = msgID st, chunkObject = ''chat.completion.chunk'', chunkCreated = unix_seconds now, chunkModel = msgModel st,
      chunkChoices = Some [\<lparr>chunkIndex = 0, Delta = zeroDelta, chunkFinishReason = Some (mapStopReason (mdStopReason ev))\<rparr>],
      chunkUsage = Some \<lparr>PromptTokens = inputTokens st, CompletionTokens = mdOutputTokens ev,
        TotalTokens = wrap64 (inputTokens st + mdOutputTokens ev)\<rparr>\<rparr>"

datatype line_result = Continue anthropic_stream "StreamEvent list" | Return "StreamEvent list"

definition decode_failed :: "'w upstream \<Rightarrow> string \<Rightarrow> string \<Rightarrow> line_result" where
  "decode_failed env what d = Return [ErrEvent (ErrWrapped (''decoding '' @ what) (ErrText (up_jsonMsg env d)))]"

definition anthropic_data :: "'w upstream \<Rightarrow> instant \<Rightarrow> anthropic_stream \<Rightarrow> string \<Rightarrow> line_result" where
  "anthropic_data env now st d =
     (if eventType st = ''message_start'' then
        (case unmarshal dec_messageStartEvent \<lparr>msType = [], msMessage = zeroAnthropicResponse\<rparr> d of
           None \<Rightarrow> decode_failed env ''message_start'' d
         | Some ev \<Rightarrow> Continue (st\<lparr>msgID := apID (msMessage ev), msgModel := apModel (msMessage ev),
             inputTokens := InputTokens (apUsage (msMessage ev))\<rparr>) [])
      else if eventType st = ''content_block_delta'' then
        (case unmarshal dec_contentBlockDeltaEvent \<lparr>cdType = [], cdIndex = 0, cdDeltaType = [], cdDeltaText = []\<rparr> d of
           None \<Rightarrow> decode_failed env ''content_block_delta'' d
         | Some ev \<Rightarrow> if cdDeltaType ev \<noteq> ''text_delta'' then Continue st [] else Continue st [ChunkEvent (text_chunk now st (cdDeltaText ev))])
      else if eventType st = ''message_delta'' then
        (case unmarshal dec_messageDeltaEvent \<lparr>mdType = [], mdStopReason = [], mdStopSequence = None, mdOutputTokens = 0\<rparr> d of
           None \<Rightarrow> decode_failed env ''message_delta'' d
         | Some ev \<Rightarrow> Continue st [ChunkEvent (final_chunk now st ev)])
      else if eventType st = ''message_stop'' then Return []
      else Continue st [])"

definition anthropic_line :: "'w upstream \<Rightarrow> instant \<Rightarrow> anthropic_stream \<Rightarrow> string \<Rightarrow> line_result" where
  "anthropic_line env now st line =
     (case CutPrefix line ''event: '' of
        (val, True) \<Rightarrow> Continue (st\<lparr>eventType := val\<rparr>) []
      | (_, False) \<Rightarrow>
          (case CutPrefix line ''data: '' of
             (_, False) \<Rightarrow> Continue st []
           | (d, True) \<Rightarrow> anthropic_data env now st d))"

fun anthropic_events ::
  "'w upstream \<Rightarrow> (nat \<Rightarrow> instant) \<Rightarrow> anthropic_stream \<Rightarrow> string list \<Rightarrow> go_error option \<Rightarrow> StreamEvent list"
where
  "anthropic_events env clk st [] scanErr =
     [ErrEvent (case scanErr of
        Some e \<Rightarrow> ErrWrapped ''reading stream'' e
      | None \<Rightarrow> ErrText ''reading stream: unexpected EOF without message_stop'')]"
| "anthropic_events env clk st (line # ls) scanErr =
     (case anthropic_line env (clk 0) st line of
        Return evts \<Rightarrow> evts
      | Continue st' evts \<Rightarrow> evts @ anthropic_events env (\<lambda>i. clk (Suc i)) st' ls scanErr)"

definition zeroAnthropicStream :: anthropic_stream where
  "zeroAnthropicStream = \<lparr>msgID = [], msgModel = [], inputTokens = 0, eventType = []\<rparr>"

definition anthropic_ChatCompletionStream ::
  "'w upstream \<Rightarrow> adapter \<Rightarrow> (nat \<Rightarrow> instant) \<Rightarrow> nat option \<Rightarrow> ChatCompletionRequest \<Rightarrow> 'w \<Rightarrow> (go_error + StreamEvent list) \<times> 'w"
where
  "anthropic_ChatCompletionStream env p clk stopAt req w =
     (case post_json env None (adBaseURL p @ ''/v1/messages'') (anthropic_headers p @ [(''Accept'', ''text/event-stream'')])
             (enc_anthropicRequest ((anthropic_translateRequest req)\<lparr>arStream := True\<rparr>)) w of
        (Inl e, w) \<Rightarrow> (Inl e, w)
      | (Inr resp, w) \<Rightarrow>
          if hsStatus resp \<noteq> 200 then (Inl (anthropic_handleErrorResponse env resp w), w)
          else let (ls, scanErr) = scan_lines (hsBody resp)
               in (Inr (delivered stopAt (anthropic_events env clk zeroAnthropicStream ls scanErr)), w))"

end
