(* ===== verification/Google_Adapter.thy ===== *)
theory Google_Adapter
  imports OpenAI_Adapter
begin

text \<open>
  \<^verbatim>\<open>internal/provider/google\<close>: the translation of requests and responses between the gateway's format and the Gemini API. A Gemini stream ends at the end of
  its body, with no closing event.
\<close>

section \<open>API types\<close>

record geminiPart =
  gpText :: string

record geminiContent =
  gcRole :: string
  gcParts :: "geminiPart list"

record geminiGenerationConfig =
  ggTemperature :: "float64 option"
  ggTopP :: "float64 option"
  ggMaxOutputTokens :: "int option"
  ggStopSequences :: "string list"
  ggCandidateCount :: "int option"

record geminiRequest =
  grContents :: "geminiContent list option"
  grSystemInstruction :: "geminiPart list option"
  grGenerationConfig :: "geminiGenerationConfig option"

record geminiCandidate =
  gcContent :: geminiContent
  gcFinishReason :: string

record geminiUsageMetadata =
  PromptTokenCount :: int
  CandidatesTokenCount :: int
  TotalTokenCount :: int

record geminiResponse =
  gsCandidates :: "geminiCandidate list"
  gsUsageMetadata :: "geminiUsageMetadata option"

record geminiErrorResponse =
  geCode :: int
  geMessage :: string
  geStatus :: string

definition zeroGeminiContent :: geminiContent where
  "zeroGeminiContent = \<lparr>gcRole = [], gcParts = []\<rparr>"

definition zeroGeminiResponse :: geminiResponse where
  "zeroGeminiResponse = \<lparr>gsCandidates = [], gsUsageMetadata = None\<rparr>"

definition enc_geminiPart :: "geminiPart \<Rightarrow> json" where
  "enc_geminiPart p = JObj [(''text'', JStr (gpText p))]"

definition enc_geminiContent :: "geminiContent \<Rightarrow> json" where
  "enc_geminiContent c = JObj [(''role'', JStr (gcRole c)), (''parts'', JArr (map enc_geminiPart (gcParts c)))]"

definition enc_geminiGenerationConfig :: "geminiGenerationConfig \<Rightarrow> json option" where
  "enc_geminiGenerationConfig g =
     (case (enc_f64_field ''temperature'' (ggTemperature g), enc_f64_field ''topP'' (ggTopP g)) of
        (Some t, Some p) \<Rightarrow> Some (JObj (t @ p @ enc_int_field ''maxOutputTokens'' (ggMaxOutputTokens g) @
          enc_strings_field ''stopSequences'' (ggStopSequences g) @ enc_int_field ''candidateCount'' (ggCandidateCount g)))
      | _ \<Rightarrow> None)"

definition enc_geminiRequest :: "geminiRequest \<Rightarrow> json option" where
  "enc_geminiRequest r =
     (let start = [(''contents'', enc_slice enc_geminiContent (grContents r))] @
            (case grSystemInstruction r of
               None \<Rightarrow> []
             | Some ps \<Rightarrow> [(''systemInstruction'', JObj [(''parts'', JArr (map enc_geminiPart ps))])])
      in case grGenerationConfig r of
           None \<Rightarrow> Some (JObj start)
         | Some g \<Rightarrow> map_option (\<lambda>j. JObj (start @ [(''generationConfig'', j)])) (enc_geminiGenerationConfig g))"

definition dec_geminiPart :: "geminiPart decoder" where
  "dec_geminiPart = dec_struct (\<lambda>k v p. if k = ''TEXT'' then map_option (\<lambda>x. p\<lparr>gpText := x\<rparr>) (dec_string v (gpText p)) else Some p)"

definition dec_geminiContent :: "geminiContent decoder" where
  "dec_geminiContent = dec_struct (\<lambda>k v c.
     if k = ''ROLE'' then map_option (\<lambda>x. c\<lparr>gcRole := x\<rparr>) (dec_string v (gcRole c))
     else if k = ''PARTS'' then map_option (\<lambda>x. c\<lparr>gcParts := x\<rparr>) (dec_list \<lparr>gpText = []\<rparr> dec_geminiPart v (gcParts c))
     else Some c)"

definition dec_geminiCandidate :: "geminiCandidate decoder" where
  "dec_geminiCandidate = dec_struct (\<lambda>k v c.
     if k = ''CONTENT'' then map_option (\<lambda>x. c\<lparr>gcContent := x\<rparr>) (dec_geminiContent v (gcContent c))
     else if k = ''FINISHREASON'' then map_option (\<lambda>x. c\<lparr>gcFinishReason := x\<rparr>) (dec_string v (gcFinishReason c))
     else Some c)"

definition dec_geminiUsageMetadata :: "geminiUsageMetadata decoder" where
  "dec_geminiUsageMetadata = dec_struct (\<lambda>k v u.
     if k = ''PROMPTTOKENCOUNT'' then map_option (\<lambda>x. u\<lparr>PromptTokenCount := x\<rparr>) (dec_int v (PromptTokenCount u))
     else if k = ''CANDIDATESTOKENCOUNT'' then map_option (\<lambda>x. u\<lparr>CandidatesTokenCount := x\<rparr>) (dec_int v (CandidatesTokenCount u))
     else if k = ''TOTALTOKENCOUNT'' then map_option (\<lambda>x. u\<lparr>TotalTokenCount := x\<rparr>) (dec_int v (TotalTokenCount u))
     else Some u)"

definition dec_geminiResponse :: "geminiResponse decoder" where
  "dec_geminiResponse = dec_struct (\<lambda>k v r.
     if k = ''CANDIDATES'' then map_option (\<lambda>x. r\<lparr>gsCandidates := x\<rparr>)
       (dec_list \<lparr>gcContent = zeroGeminiContent, gcFinishReason = []\<rparr> dec_geminiCandidate v (gsCandidates r))
     else if k = ''USAGEMETADATA'' then map_option (\<lambda>x. r\<lparr>gsUsageMetadata := x\<rparr>)
       (dec_ptr \<lparr>PromptTokenCount = 0, CandidatesTokenCount = 0, TotalTokenCount = 0\<rparr> dec_geminiUsageMetadata v (gsUsageMetadata r))
     else Some r)"

definition dec_geminiErrorResponse :: "geminiErrorResponse decoder" where
  "dec_geminiErrorResponse = dec_struct (\<lambda>k v e.
     if k = ''ERROR'' then dec_struct (\<lambda>k v e.
       if k = ''CODE'' then map_option (\<lambda>x. e\<lparr>geCode := x\<rparr>) (dec_int v (geCode e))
       else if k = ''MESSAGE'' then map_option (\<lambda>x. e\<lparr>geMessage := x\<rparr>) (dec_string v (geMessage e))
       else if k = ''STATUS'' then map_option (\<lambda>x. e\<lparr>geStatus := x\<rparr>) (dec_string v (geStatus e))
       else Some e) v e
     else Some e)"

section \<open>Translation\<close>

definition google_New :: "adapter_config \<Rightarrow> adapter" where
  "google_New cfg = \<lparr>adName = ''google'', adAPIKey = acAPIKey cfg,
     adBaseURL = (if acBaseURL cfg = [] then ''https://generativelanguage.googleapis.com/v1beta'' else acBaseURL cfg),
     adTimeout = (if acTimeout cfg = 0 then 30 * nanosPerSecond else acTimeout cfg), adModels = acModels cfg\<rparr>"

fun split_contents :: "Message list \<Rightarrow> geminiPart list \<times> geminiContent list" where
  "split_contents [] = ([], [])"
| "split_contents (m # ms) =
     (let (sys, rest) = split_contents ms in
      if Role m = ''system'' then (\<lparr>gpText = Content m\<rparr> # sys, rest)
      else (sys, \<lparr>gcRole = (if Role m = ''assistant'' then ''model'' else Role m), gcParts = [\<lparr>gpText = Content m\<rparr>]\<rparr> # rest))"

definition google_translateRequest :: "ChatCompletionRequest \<Rightarrow> geminiRequest" where
  "google_translateRequest req =
     (let (sys, rest) = split_contents (Messages req) in
      \<lparr>grContents = (if rest = [] then None else Some rest),
       grSystemInstruction = (if sys \<noteq> [] then Some sys else None),
       grGenerationConfig =
         (if Temperature req \<noteq> None \<or> TopP req \<noteq> None \<or> MaxTokens req \<noteq> None \<or> Stop req \<noteq> [] \<or> reqN req \<noteq> None
          then Some \<lparr>ggTemperature = Temperature req, ggTopP = TopP req, ggMaxOutputTokens = MaxTokens req,
            ggStopSequences = Stop req, ggCandidateCount = reqN req\<rparr>
          else None)\<rparr>)"

definition mapFinishReason :: "string \<Rightarrow> string" where
  "mapFinishReason reason =
     (if reason = ''STOP'' then ''stop''
      else if reason = ''MAX_TOKENS'' then ''length''
      else if reason = ''SAFETY'' then ''content_filter''
      else if reason = ''RECITATION'' then ''content_filter''
      else ''stop'')"

definition hex_bytes :: "nat list \<Rightarrow> string" where
  "hex_bytes bs = concat (map (\<lambda>b. [hex_digit (b div 16 mod 16), hex_digit (b mod 16)]) bs)"

definition generateID :: "'w upstream \<Rightarrow> 'w \<Rightarrow> string \<times> 'w" where
  "generateID env w =
     (let (b, w) = up_random env 16 w in
      (''chatcmpl-'' @ hex_bytes (take 4 b) @ ''-'' @ hex_bytes (take 2 (drop 4 b)) @ ''-'' @ hex_bytes (take 2 (drop 6 b)) @ ''-'' @
         hex_bytes (take 2 (drop 8 b)) @ ''-'' @ hex_bytes (take 6 (drop 10 b)), w))"

definition candidate_text :: "geminiCandidate \<Rightarrow> string" where
  "candidate_text c = concat (map gpText (gcParts (gcContent c)))"

definition usage_of :: "geminiUsageMetadata \<Rightarrow> Usage" where
  "usage_of u = \<lparr>PromptTokens = PromptTokenCount u, CompletionTokens = CandidatesTokenCount u, TotalTokens = TotalTokenCount u\<rparr>"

definition google_choice :: "int \<times> geminiCandidate \<Rightarrow> Choice" where
  "google_choice = (\<lambda>(i, c). \<lparr>Index = i, choiceMessage = \<lparr>Role = ''assistant'', Content = candidate_text c, Name = []\<rparr>,
     FinishReason = mapFinishReason (gcFinishReason c)\<rparr>)"

definition google_translateResponse ::
  "'w upstream \<Rightarrow> geminiResponse \<Rightarrow> string \<Rightarrow> 'w \<Rightarrow> ChatCompletionResponse \<times> 'w"
where
  "google_translateResponse env resp rqModel w =
     (let (i, w) = generateID env w in
      (\<lparr>ID = i, Object = ''chat.completion'', Created = unix_seconds (up_now env w), respModel = rqModel,
        Choices = (if gsCandidates resp = [] then None
                   else Some (map google_choice (zip (map int [0..<length (gsCandidates resp)]) (gsCandidates resp)))),
        respUsage = (case gsUsageMetadata resp of Some u \<Rightarrow> usage_of u | None \<Rightarrow> zeroUsage), SystemFingerprint = []\<rparr>, w))"

definition google_chunk_choice :: "int \<times> geminiCandidate \<Rightarrow> ChunkChoice" where
  "google_chunk_choice = (\<lambda>(i, c). \<lparr>chunkIndex = i, Delta = \<lparr>deltaRole = [], deltaContent = candidate_text c\<rparr>,
     chunkFinishReason = (if gcFinishReason c \<noteq> [] then Some (mapFinishReason (gcFinishReason c)) else None)\<rparr>)"

definition translateChunk :: "instant \<Rightarrow> geminiResponse \<Rightarrow> string \<Rightarrow> string \<Rightarrow> ChatCompletionChunk" where
  "translateChunk now resp streamID rqModel =
     \<lparr>chunkID = streamID, chunkObject = ''chat.completion.chunk'', chunkCreated = unix_seconds now, chunkModel = rqModel,
      chunkChoices = (if gsCandidates resp = [] then None
        else Some (map google_chunk_choice (zip (map int [0..<length (gsCandidates resp)]) (gsCandidates resp)))),
      chunkUsage = map_option usage_of (gsUsageMetadata resp)\<rparr>"

section \<open>Calls\<close>

definition generateContentURL :: "adapter \<Rightarrow> string \<Rightarrow> string" where
  "generateContentURL p modelName = adBaseURL p @ ''/models/'' @ modelName @ '':generateContent?key='' @ adAPIKey p"

definition streamGenerateContentURL :: "adapter \<Rightarrow> string \<Rightarrow> string" where
  "streamGenerateContentURL p modelName = adBaseURL p @ ''/models/'' @ modelName @ '':streamGenerateContent?alt=sse&key='' @ adAPIKey p"

definition google_errorTypeFromStatus :: "int \<Rightarrow> string" where
  "google_errorTypeFromStatus status =
     (if status = 401 then ''authentication_error''
      else if status = 403 then ''authentication_error''
      else if status = 429 then ''rate_limit_error''
      else if status = 400 then ''invalid_request_error''
      else ''upstream_error'')"

definition google_handleErrorResponse :: "'w upstream \<Rightarrow> http_response \<Rightarrow> 'w \<Rightarrow> go_error" where
  "google_handleErrorResponse env resp w =
     provider_error env resp (hsStatus resp = 429 \<or> hsStatus resp \<ge> 500)
       (case unmarshal dec_geminiErrorResponse \<lparr>geCode = 0, geMessage = [], geStatus = []\<rparr> (error_body resp) of
          Some e \<Rightarrow> if geMessage e \<noteq> [] then Some (geStatus e, geMessage e) else None
        | None \<Rightarrow> None)
       google_errorTypeFromStatus w"

definition google_ChatCompletion ::
  "'w upstream \<Rightarrow> adapter \<Rightarrow> ChatCompletionRequest \<Rightarrow> 'w \<Rightarrow> (go_error + ChatCompletionResponse) \<times> 'w"
where
  "google_ChatCompletion env p req w =
     (case post_json env (Some (adTimeout p)) (generateContentURL p (reqModel req)) [(''Content-Type'', ''application/json'')]
             (enc_geminiRequest (google_translateRequest req)) w of
        (Inl e, w) \<Rightarrow> (Inl e, w)
      | (Inr resp, w) \<Rightarrow>
          if hsStatus resp \<noteq> 200 then (Inl (google_handleErrorResponse env resp w), w)
          else (case decode_body env dec_geminiResponse zeroGeminiResponse (hsBody resp) of
             Inl e \<Rightarrow> (Inl (ErrWrapped ''decoding response'' e), w)
           | Inr gemResp \<Rightarrow> let (r, w) = google_translateResponse env gemResp (reqModel req) w in (Inr r, w)))"

fun google_events ::
  "'w upstream \<Rightarrow> (nat \<Rightarrow> instant) \<Rightarrow> string \<Rightarrow> string \<Rightarrow> string list \<Rightarrow> go_error option \<Rightarrow> StreamEvent list"
where
  "google_events env clk streamID rqModel [] scanErr =
     (case scanErr of Some e \<Rightarrow> [ErrEvent (ErrWrapped ''reading stream'' e)] | None \<Rightarrow> [])"
| "google_events env clk streamID rqModel (line # ls) scanErr =
     (if \<not> HasPrefix line ''data: '' then google_events env (\<lambda>i. clk (Suc i)) streamID rqModel ls scanErr
      else let d = TrimPrefix line ''data: '' in
        case unmarshal dec_geminiResponse zeroGeminiResponse d of
          None \<Rightarrow> [ErrEvent (ErrWrapped ''decoding chunk'' (ErrText (up_jsonMsg env d)))]
        | Some c \<Rightarrow> ChunkEvent (translateChunk (clk 0) c streamID rqModel) # google_events env (\<lambda>i. clk (Suc i)) streamID rqModel ls scanErr)"

definition google_ChatCompletionStream ::
  "'w upstream \<Rightarrow> adapter \<Rightarrow> (nat \<Rightarrow> instant) \<Rightarrow> nat option \<Rightarrow> ChatCompletionRequest \<Rightarrow> 'w \<Rightarrow> (go_error + StreamEvent list) \<times> 'w"
where
  "google_ChatCompletionStream env p clk stopAt req w =
     (case post_json env None (streamGenerateContentURL p (reqModel req))
             [(''Content-Type'', ''application/json''), (''Accept'', ''text/event-stream'')]
             (enc_geminiRequest (google_translateRequest req)) w of
        (Inl e, w) \<Rightarrow> (Inl e, w)
      | (Inr resp, w) \<Rightarrow>
          if hsStatus resp \<noteq> 200 then (Inl (google_handleErrorResponse env resp w), w)
          else let (streamID, w) = generateID env w; (ls, scanErr) = scan_lines (hsBody resp)
               in (Inr (delivered stopAt (google_events env clk streamID (reqModel req) ls scanErr)), w))"

end
