(* ===== verification/Provider_Adapters.thy ===== *)
theory Provider_Adapters
  imports Provider_Retry Anthropic_Adapter Google_Adapter
begin

text \<open>
  The provider interface of \<^verbatim>\<open>internal/provider/provider.go\<close> and its three implementations. What the retrying decorator relies on is a locale: a call
  sends one request, an answer other than 200 becomes a \<^verbatim>\<open>ProviderError\<close> with that status which is retryable for 429 and 5xx, and nothing else is
  retryable. The adapters are its instances, and the decorator's behaviour over real HTTP answers is proved once.
\<close>

section \<open>The implementations\<close>

datatype provider_impl = OpenAI adapter | Anthropic adapter | Google adapter

fun impl_ChatCompletion ::
  "'w upstream \<Rightarrow> provider_impl \<Rightarrow> ChatCompletionRequest \<Rightarrow> 'w \<Rightarrow> (go_error + ChatCompletionResponse) \<times> 'w"
where
  "impl_ChatCompletion env (OpenAI p) req w = openai_ChatCompletion env p req w"
| "impl_ChatCompletion env (Anthropic p) req w = anthropic_ChatCompletion env p req w"
| "impl_ChatCompletion env (Google p) req w = google_ChatCompletion env p req w"

fun impl_ChatCompletionStream ::
  "'w upstream \<Rightarrow> provider_impl \<Rightarrow> (nat \<Rightarrow> instant) \<Rightarrow> nat option \<Rightarrow> ChatCompletionRequest \<Rightarrow> 'w \<Rightarrow> (go_error + StreamEvent list) \<times> 'w"
where
  "impl_ChatCompletionStream env (OpenAI p) clk stopAt req w = openai_ChatCompletionStream env p stopAt req w"
| "impl_ChatCompletionStream env (Anthropic p) clk stopAt req w = anthropic_ChatCompletionStream env p clk stopAt req w"
| "impl_ChatCompletionStream env (Google p) clk stopAt req w = google_ChatCompletionStream env p clk stopAt req w"

section \<open>Specification vocabulary\<close>

definition retry_status :: "int \<Rightarrow> bool" where
  "retry_status s \<longleftrightarrow> s = 429 \<or> 500 \<le> s"

definition is_upstream_error :: "int \<Rightarrow> go_error \<Rightarrow> bool" where
  "is_upstream_error s e = (case e of ErrProvider pe \<Rightarrow> StatusCode pe = s \<and> Retryable pe = retry_status s | _ \<Rightarrow> False)"

text \<open>The answer that settles a request: the first one whose status is not retried, or the last one allowed.\<close>

definition settling :: "nat \<Rightarrow> http_response list \<Rightarrow> nat" where
  "settling maxRetries rs = min maxRetries (length (takeWhile (\<lambda>r. retry_status (hsStatus r)) rs))"

definition settled_by :: "http_response \<Rightarrow> 'r loop_exit \<Rightarrow> bool" where
  "settled_by r x = (case x of
       CallSucceeded _ \<Rightarrow> hsStatus r = 200
     | NotRetryable e \<Rightarrow> \<not> retry_status (hsStatus r) \<and> (hsStatus r \<noteq> 200 \<longrightarrow> is_upstream_error (hsStatus r) e)
     | AttemptsExhausted (Some e) \<Rightarrow> retry_status (hsStatus r) \<and> is_upstream_error (hsStatus r) e
     | _ \<Rightarrow> False)"

definition finite_params :: "ChatCompletionRequest \<Rightarrow> bool" where
  "finite_params req = list_all (\<lambda>x. case x of None \<Rightarrow> True | Some (Fin _) \<Rightarrow> True | _ \<Rightarrow> False)
     [Temperature req, TopP req, PresencePenalty req, FrequencyPenalty req]"

definition ends_in_error :: "StreamEvent list \<Rightarrow> bool" where
  "ends_in_error evts = (evts \<noteq> [] \<and> evt_Err (last evts) \<noteq> None)"

definition errors_only_last :: "StreamEvent list \<Rightarrow> bool" where
  "errors_only_last evts = list_all (\<lambda>e. evt_Err e = None) (butlast evts)"

text \<open>A body that stopped before its provider said it was done.\<close>

fun truncated :: "provider_impl \<Rightarrow> request_body \<Rightarrow> bool" where
  "truncated (OpenAI p) b = (''data: [DONE]'' \<notin> set (fst (scan_lines b)))"
| "truncated (Anthropic p) b = (''event: message_stop'' \<notin> set (fst (scan_lines b)))"
| "truncated (Google p) b = (snd (scan_lines b) \<noteq> None)"

text \<open>A service that answers with the given responses one after the other, and the decorator's environment around a call to it.\<close>

definition answering :: "nat list \<Rightarrow> instant \<Rightarrow> http_response list upstream" where
  "answering bytes now =
     \<lparr>up_Do = (\<lambda>rq w. case w of [] \<Rightarrow> (Inl (ErrText ''connection refused''), []) | r # rs \<Rightarrow> (Inr r, rs)),
      up_urlError = (\<lambda>u. None), up_now = (\<lambda>w. now), up_random = (\<lambda>n w. (take n bytes, w)), up_RFC1123 = (\<lambda>s. None),
      up_jsonMsg = (\<lambda>s. ''invalid JSON'')\<rparr>"

definition patient ::
  "(ChatCompletionRequest \<Rightarrow> 'w \<Rightarrow> (go_error + 'r) \<times> 'w) \<Rightarrow> float64 \<Rightarrow> (float64 \<Rightarrow> int) \<Rightarrow> instant \<Rightarrow> ('w, 'r) provider_env"
where
  "patient call r conv now =
     \<lparr>env_call = call, env_wait = (\<lambda>d w. (None, w)), env_now = (\<lambda>w. now), env_rand = (\<lambda>w. (r, w)), env_conv = conv\<rparr>"

section \<open>The contract\<close>

locale provider_adapter =
  fixes call :: "'w upstream \<Rightarrow> adapter \<Rightarrow> ChatCompletionRequest \<Rightarrow> 'w \<Rightarrow> (go_error + 'r) \<times> 'w"
    and send :: "'w upstream \<Rightarrow> adapter \<Rightarrow> ChatCompletionRequest \<Rightarrow> 'w \<Rightarrow> (go_error + http_response) \<times> 'w"
    and accept :: "'w upstream \<Rightarrow> ChatCompletionRequest \<Rightarrow> http_response \<Rightarrow> 'w \<Rightarrow> (go_error + 'r) \<times> 'w"
    and errorOf :: "'w upstream \<Rightarrow> http_response \<Rightarrow> 'w \<Rightarrow> go_error"
  assumes call_law: "call env p req w =
      (case send env p req w of
         (Inl e, w) \<Rightarrow> (Inl e, w)
       | (Inr resp, w) \<Rightarrow> if hsStatus resp \<noteq> 200 then (Inl (errorOf env resp w), w) else accept env req resp w)"
    and error_law: "is_upstream_error (hsStatus resp) (errorOf env resp w)"
    and accept_law: "bodyEnd (hsBody resp) = BodyEOF \<Longrightarrow> fst (accept env req resp w) = Inl e \<Longrightarrow> \<not> isRetryable e"
begin

lemma call_answered:
  assumes "send env p req w = (Inr resp, w1)" "bodyEnd (hsBody resp) = BodyEOF"
  shows "retryable_outcome (fst (call env p req w)) = retry_status (hsStatus resp) \<and> settled_by resp (exit_of (fst (call env p req w)))"
proof (cases "hsStatus resp = 200")
  case True
  with assms(1) have c: "call env p req w = accept env req resp w1" by (simp add: call_law)
  have "\<not> retry_status (hsStatus resp)" using True by (simp add: retry_status_def)
  with accept_law [OF assms(2), of env req w1] True show ?thesis
    by (cases "fst (accept env req resp w1)") (auto simp: c retryable_outcome_def exit_of_def settled_by_def)
next
  case False
  with assms(1) have c: "call env p req w = (Inl (errorOf env resp w1), w1)" by (simp add: call_law)
  show ?thesis
    using error_law [of resp env w1] False
    by (auto simp: c retryable_outcome_def exit_of_def settled_by_def is_upstream_error_def isRetryable_def split: go_error.splits)
qed

text \<open>\<open>left w\<close> is what the service still has to answer in the world \<open>w\<close>.\<close>

lemma retried_until_settled:
  fixes left :: "'w \<Rightarrow> http_response list"
  assumes "\<And>w. left w \<noteq> [] \<Longrightarrow> \<exists>w'. send env p req w = (Inr (hd (left w)), w') \<and> left w' = tl (left w)"
    and "\<And>resp w. left (snd (accept env req resp w)) = left w"
    and "\<forall>resp \<in> set (left w). bodyEnd (hsBody resp) = BodyEOF"
    and "attempt \<le> MaxRetries cfg" "nat (MaxRetries cfg - attempt) < length (left w)"
  shows "let k = settling (nat (MaxRetries cfg - attempt)) (left w); (x, w') = retry_loop (patient (call env p) r conv now) cfg req attempt lastErr w
    in settled_by (left w ! k) x \<and> left w' = drop (Suc k) (left w)"
  using assms(3-)
proof (induction "left w" arbitrary: w attempt lastErr)
  case Nil
  then show ?case by simp
next
  case (Cons resp rs)
  obtain w1 where s: "send env p req w = (Inr resp, w1)" "left w1 = rs"
    using assms(1) [of w] by (metis Cons.hyps(2) list.sel(1,3) neq_Nil_conv)
  obtain o2 w2 where c: "call env p req w = (o2, w2)" by fastforce
  have l2: "left w2 = rs" using s c assms(2) [of resp w1] by (auto simp: call_law split: if_splits)
  have out: "retryable_outcome o2 = retry_status (hsStatus resp)" "settled_by resp (exit_of o2)"
    using call_answered [OF s(1)] c Cons.prems(1) Cons.hyps(2) by (metis fst_conv list.set_intros(1))+
  have wt: "backoff_wait (patient (call env p) r conv now) cfg attempt lastErr w = (None, w)"
    by (auto simp: backoff_wait_def backoffDuration_def computed_backoff_def patient_def Let_def split: option.splits)
  have ec: "env_call (patient (call env p) r conv now) req w = (o2, w2)" by (simp add: patient_def c)
  show ?case
  proof (cases "retry_status (hsStatus resp) \<and> attempt < MaxRetries cfg")
    case True
    then have n: "nat (MaxRetries cfg - attempt) = Suc (nat (MaxRetries cfg - (attempt + 1)))" by linarith
    from True out(1) obtain e where e: "o2 = Inl e" "isRetryable e" by (auto simp: retryable_outcome_def split: sum.splits)
    have "retry_loop (patient (call env p) r conv now) cfg req attempt lastErr w =
      retry_loop (patient (call env p) r conv now) cfg req (attempt + 1) (Some e) w2"
      using True e by (subst retry_loop.simps) (simp add: wt ec)
    moreover have "let k = settling (nat (MaxRetries cfg - (attempt + 1))) (left w2);
        (x, w') = retry_loop (patient (call env p) r conv now) cfg req (attempt + 1) (Some e) w2
      in settled_by (left w2 ! k) x \<and> left w' = drop (Suc k) (left w2)"
      using Cons.prems True n l2 by (intro Cons.hyps(1)) (simp_all add: Cons.hyps(2) [symmetric])
    moreover have "settling (nat (MaxRetries cfg - attempt)) (left w) = Suc (settling (nat (MaxRetries cfg - (attempt + 1))) rs)"
      using True n by (simp add: settling_def Cons.hyps(2) [symmetric])
    ultimately show ?thesis by (simp add: Let_def l2 Cons.hyps(2) [symmetric])
  next
    case False
    then have "settling (nat (MaxRetries cfg - attempt)) (left w) = 0"
      using Cons.prems(2) by (auto simp: settling_def Cons.hyps(2) [symmetric])
    moreover have "retry_loop (patient (call env p) r conv now) cfg req attempt lastErr w = (exit_of o2, w2)"
      using False Cons.prems(2) out(1)
      by (subst retry_loop.simps) (auto simp: wt ec exit_of_def retryable_outcome_def split: sum.splits)
    ultimately show ?thesis using out(2) l2 by (simp add: Cons.hyps(2) [symmetric])
  qed
qed

end

section \<open>The adapters fulfil it\<close>

lemma provider_error_upstream:
  assumes "retryable = retry_status (hsStatus resp)"
  shows "is_upstream_error (hsStatus resp) (provider_error env resp retryable described f w)"
  using assms by (simp add: provider_error_def is_upstream_error_def Let_def split: option.splits prod.splits)

lemma decode_body_final: "bodyEnd b = BodyEOF \<Longrightarrow> decode_body env f z b = Inl e \<Longrightarrow> errors_As_ProviderError e = None"
  by (auto simp: decode_body_def split: parsed.splits option.splits if_splits)

interpretation openai_chat: provider_adapter openai_ChatCompletion
  "\<lambda>env p req. post_json env (Some (adTimeout p)) (adBaseURL p @ ''/chat/completions'') (openai_headers p) (enc_openaiRequest req False)"
  "\<lambda>env req resp w. case decode_body env dec_ChatCompletionResponse zeroResponse (hsBody resp) of
     Inl e \<Rightarrow> (Inl (ErrWrapped ''decoding response'' e), w) | Inr result \<Rightarrow> (Inr result, w)"
  openai_handleErrorResponse
  by unfold_locales
    (auto simp: openai_ChatCompletion_def openai_handleErrorResponse_def isRetryable_def decode_body_final retry_status_def
      intro!: provider_error_upstream split: sum.splits prod.splits)

interpretation anthropic_chat: provider_adapter anthropic_ChatCompletion
  "\<lambda>env p req. post_json env (Some (adTimeout p)) (adBaseURL p @ ''/v1/messages'') (anthropic_headers p)
     (enc_anthropicRequest ((anthropic_translateRequest req)\<lparr>arStream := False\<rparr>))"
  "\<lambda>env req resp w. case decode_body env dec_anthropicResponse zeroAnthropicResponse (hsBody resp) of
     Inl e \<Rightarrow> (Inl (ErrWrapped ''decoding response'' e), w) | Inr ar \<Rightarrow> (Inr (anthropic_translateResponse (up_now env w) ar), w)"
  anthropic_handleErrorResponse
  by unfold_locales
    (auto simp: anthropic_ChatCompletion_def anthropic_handleErrorResponse_def isRetryable_def decode_body_final retry_status_def
      intro!: provider_error_upstream split: sum.splits prod.splits)

interpretation google_chat: provider_adapter google_ChatCompletion
  "\<lambda>env p req. post_json env (Some (adTimeout p)) (generateContentURL p (reqModel req)) [(''Content-Type'', ''application/json'')]
     (enc_geminiRequest (google_translateRequest req))"
  "\<lambda>env req resp w. case decode_body env dec_geminiResponse zeroGeminiResponse (hsBody resp) of
     Inl e \<Rightarrow> (Inl (ErrWrapped ''decoding response'' e), w)
   | Inr g \<Rightarrow> (case google_translateResponse env g (reqModel req) w of (r, w) \<Rightarrow> (Inr r, w))"
  google_handleErrorResponse
  by unfold_locales
    (auto simp: google_ChatCompletion_def google_handleErrorResponse_def isRetryable_def decode_body_final retry_status_def Let_def
      intro!: provider_error_upstream split: sum.splits prod.splits)

interpretation openai_stream: provider_adapter "\<lambda>env p. openai_ChatCompletionStream env p stopAt"
  "\<lambda>env p req. post_json env None (adBaseURL p @ ''/chat/completions'') (openai_headers p @ [(''Accept'', ''text/event-stream'')])
     (enc_openaiRequest req True)"
  "\<lambda>env req resp w. case scan_lines (hsBody resp) of (ls, scanErr) \<Rightarrow> (Inr (delivered stopAt (openai_events env ls scanErr)), w)"
  openai_handleErrorResponse for stopAt
  by unfold_locales
    (auto simp: openai_ChatCompletionStream_def openai_handleErrorResponse_def retry_status_def Let_def
      intro!: provider_error_upstream split: sum.splits prod.splits)

interpretation anthropic_strm: provider_adapter "\<lambda>env p. anthropic_ChatCompletionStream env p clk stopAt"
  "\<lambda>env p req. post_json env None (adBaseURL p @ ''/v1/messages'') (anthropic_headers p @ [(''Accept'', ''text/event-stream'')])
     (enc_anthropicRequest ((anthropic_translateRequest req)\<lparr>arStream := True\<rparr>))"
  "\<lambda>env req resp w. case scan_lines (hsBody resp) of
     (ls, scanErr) \<Rightarrow> (Inr (delivered stopAt (anthropic_events env clk zeroAnthropicStream ls scanErr)), w)"
  anthropic_handleErrorResponse for clk stopAt
  by unfold_locales
    (auto simp: anthropic_ChatCompletionStream_def anthropic_handleErrorResponse_def retry_status_def Let_def
      intro!: provider_error_upstream split: sum.splits prod.splits)

interpretation google_stream: provider_adapter "\<lambda>env p. google_ChatCompletionStream env p clk stopAt"
  "\<lambda>env p req. post_json env None (streamGenerateContentURL p (reqModel req))
     [(''Content-Type'', ''application/json''), (''Accept'', ''text/event-stream'')] (enc_geminiRequest (google_translateRequest req))"
  "\<lambda>env req resp w. case generateID env w of (i, w) \<Rightarrow> case scan_lines (hsBody resp) of
     (ls, scanErr) \<Rightarrow> (Inr (delivered stopAt (google_events env clk i (reqModel req) ls scanErr)), w)"
  google_handleErrorResponse for clk stopAt
  by unfold_locales
    (auto simp: google_ChatCompletionStream_def google_handleErrorResponse_def retry_status_def Let_def
      intro!: provider_error_upstream split: sum.splits prod.splits)

section \<open>Requests that can be sent\<close>

lemma enc_f64_field_total: "x = None \<or> (\<exists>q. x = Some (Fin q)) \<Longrightarrow> \<exists>kvs. enc_f64_field k x = Some kvs"
  by (auto simp: enc_f64_field_def)

lemma finite_paramsD:
  assumes "finite_params req" "x \<in> {Temperature req, TopP req, PresencePenalty req, FrequencyPenalty req}"
  shows "\<exists>kvs. enc_f64_field k x = Some kvs"
  using assms by (intro enc_f64_field_total) (auto simp: finite_params_def split: option.splits float64.splits)

lemma payloads_total:
  assumes "finite_params req"
  shows "enc_openaiRequest req strm \<noteq> None"
    and "enc_anthropicRequest ((anthropic_translateRequest req)\<lparr>arStream := strm\<rparr>) \<noteq> None"
    and "enc_geminiRequest (google_translateRequest req) \<noteq> None"
proof -
  note f = finite_paramsD [OF assms]
  show "enc_openaiRequest req strm \<noteq> None"
    using f [of "Temperature req" "''temperature''"] f [of "TopP req" "''top_p''"] f [of "PresencePenalty req" "''presence_penalty''"]
      f [of "FrequencyPenalty req" "''frequency_penalty''"] by (auto simp: enc_openaiRequest_def)
  show "enc_anthropicRequest ((anthropic_translateRequest req)\<lparr>arStream := strm\<rparr>) \<noteq> None"
    using f [of "Temperature req" "''temperature''"] f [of "TopP req" "''top_p''"]
    by (auto simp: enc_anthropicRequest_def anthropic_translateRequest_def split: prod.splits)
  show "enc_geminiRequest (google_translateRequest req) \<noteq> None"
    using f [of "Temperature req" "''temperature''"] f [of "TopP req" "''topP''"]
    by (auto simp: enc_geminiRequest_def enc_geminiGenerationConfig_def google_translateRequest_def split: prod.splits)
qed

lemma post_json_answering:
  assumes "payload \<noteq> None" "w \<noteq> []"
  shows "\<exists>w'. post_json (answering bytes now) t url hs payload w = (Inr (hd w), w') \<and> w' = tl w"
  using assms by (auto simp: post_json_def answering_def split: list.splits)

lemma generateID_answering: "snd (generateID (answering bytes now) w) = w"
  by (simp add: generateID_def answering_def Let_def)

lemma google_translateResponse_answering: "snd (google_translateResponse (answering bytes now) g m w) = w"
  using generateID_answering [of bytes now w] by (cases "generateID (answering bytes now) w") (simp add: google_translateResponse_def)

lemma google_accept_answering:
  "snd (case decode_body (answering bytes t) dec_geminiResponse zeroGeminiResponse b of
     Inl e \<Rightarrow> (Inl (ErrWrapped s e), w) | Inr g \<Rightarrow> (case google_translateResponse (answering bytes t) g m w of (r, w) \<Rightarrow> (Inr r, w))) = w"
  using google_translateResponse_answering [of bytes t _ m w]
  by (simp split: sum.split) (metis case_prod_conv prod.collapse snd_conv)

lemma impl_retried:
  assumes "finite_params req" "0 \<le> MaxRetries cfg" "nat (MaxRetries cfg) < length rs" "\<forall>r \<in> set rs. bodyEnd (hsBody r) = BodyEOF"
  shows "let k = settling (nat (MaxRetries cfg)) rs;
        (x, w') = retry_loop (patient (impl_ChatCompletion (answering bytes t) impl) r conv now) cfg req 0 None rs
      in settled_by (rs ! k) x \<and> w' = drop (Suc k) rs"
proof -
  note p = payloads_total [OF assms(1)]
  have e: "impl_ChatCompletion env (OpenAI p) = openai_ChatCompletion env p"
    "impl_ChatCompletion env (Anthropic p) = anthropic_ChatCompletion env p"
    "impl_ChatCompletion env (Google p) = google_ChatCompletion env p" for env :: "'w upstream" and p
    by (rule ext, rule ext, simp)+
  show ?thesis
  proof (cases impl)
    case (OpenAI a)
    show ?thesis unfolding OpenAI e
      using openai_chat.retried_until_settled [of "\<lambda>w. w" "answering bytes t" a req rs 0 cfg r conv now None] assms(2-)
        post_json_answering [OF p(1)] by (simp split: sum.splits)
  next
    case (Anthropic a)
    show ?thesis unfolding Anthropic e
      using anthropic_chat.retried_until_settled [of "\<lambda>w. w" "answering bytes t" a req rs 0 cfg r conv now None] assms(2-)
        post_json_answering [OF p(2)] by (simp split: sum.splits)
  next
    case (Google a)
    show ?thesis unfolding Google e
      using google_chat.retried_until_settled [of "\<lambda>w. w" "answering bytes t" a req rs 0 cfg r conv now None] assms(2-)
        post_json_answering [OF p(3)] google_accept_answering [where bytes = bytes and t = t] by simp
  qed
qed

text \<open>
  C31. Retrying over real answers: whichever adapter is behind it, the decorator sends one request per attempt, tries again exactly when the service answered
  429 or 5xx, and stops at the first other answer or at attempt \<open>MaxRetries\<close>; what it returns is settled by that answer, a success only for 200 and
  otherwise a provider error carrying the upstream's status, and no later answer is consumed.
\<close>

theorem adapters_retry_until_settled:
  assumes "finite_params req" and "0 \<le> MaxRetries cfg" and "nat (MaxRetries cfg) < length rs"
    and "\<forall>r \<in> set rs. bodyEnd (hsBody r) = BodyEOF"
  shows "let k = settling (nat (MaxRetries cfg)) rs;
        (x, w') = retry_loop (patient (impl_ChatCompletion (answering bytes t) impl) r conv now) cfg req 0 None rs
      in settled_by (rs ! k) x \<and> w' = drop (Suc k) rs"
  using assms by (rule impl_retried)

theorem adapters_retry_until_settled_witness:
  "let rs = map (\<lambda>s. \<lparr>hsStatus = s, hsHeader = [], hsBody = \<lparr>bodyBytes = ''no'', bodyEnd = BodyEOF\<rparr>\<rparr>) [503, 429, 400, 200];
       k = settling (nat (MaxRetries \<lparr>MaxRetries = 3, RetryBackoff = 0\<rparr>)) rs;
       (x, w') = retry_loop (patient (impl_ChatCompletion (answering [] 0)
           (Google (google_New \<lparr>acAPIKey = ''k'', acBaseURL = [], acTimeout = 0, acModels = [''gemini'']\<rparr>))) (Fin 0) (\<lambda>_. 0) 0)
         \<lparr>MaxRetries = 3, RetryBackoff = 0\<rparr> zeroRequest 0 None rs
     in k = 2 \<and> settled_by (rs ! k) x \<and> w' = drop 3 rs"
proof -
  let ?rs = "map (\<lambda>s. \<lparr>hsStatus = s, hsHeader = [], hsBody = \<lparr>bodyBytes = ''no'', bodyEnd = BodyEOF\<rparr>\<rparr>) [503, 429, 400, 200]"
  let ?cfg = "\<lparr>MaxRetries = 3, RetryBackoff = 0\<rparr>"
  have k: "settling (nat (MaxRetries ?cfg)) ?rs = 2" by (simp add: settling_def retry_status_def)
  have "finite_params zeroRequest" by (simp add: finite_params_def zeroRequest_def)
  from adapters_retry_until_settled [OF this, of ?cfg ?rs "[]" 0
      "Google (google_New \<lparr>acAPIKey = ''k'', acBaseURL = [], acTimeout = 0, acModels = [''gemini'']\<rparr>)" "Fin 0" "\<lambda>_. 0" 0]
  show ?thesis using k by (simp add: Let_def split: prod.splits)
qed

section \<open>Streams\<close>

lemma errors_only_last_simps [simp]:
  "errors_only_last []"
  "errors_only_last [e]"
  "errors_only_last (ChunkEvent c # evts) = errors_only_last evts"
  by (auto simp: errors_only_last_def)

lemma ends_in_error_simps [simp]:
  "\<not> ends_in_error []"
  "ends_in_error [ErrEvent e]"
  "\<not> ends_in_error [ChunkEvent c]"
  "ends_in_error (ChunkEvent c # evts) = ends_in_error evts"
  by (auto simp: ends_in_error_def)

lemma errors_only_last_split:
  assumes "errors_only_last evts" "ends_in_error evts"
  shows "\<exists>cs e. evts = map ChunkEvent cs @ [ErrEvent e]"
proof -
  have ok: "list_all (\<lambda>e. evt_Err e = None) es \<Longrightarrow> \<exists>cs. es = map ChunkEvent cs" for es
  proof (induction es)
    case (Cons a es)
    then obtain c cs where "a = ChunkEvent c" "es = map ChunkEvent cs" by (cases a) auto
    then show ?case by (metis list.simps(9))
  qed simp
  from assms obtain cs where "butlast evts = map ChunkEvent cs" using ok by (auto simp: errors_only_last_def)
  moreover from assms obtain e where "last evts = ErrEvent e" by (cases "last evts") (auto simp: ends_in_error_def)
  ultimately show ?thesis using assms(2) by (metis append_butlast_last_id ends_in_error_def)
qed

lemma openai_events_shape:
  "errors_only_last (openai_events env ls scanErr) \<and>
   (''data: [DONE]'' \<notin> set ls \<longrightarrow> ends_in_error (openai_events env ls scanErr))"
  by (induction ls) (auto simp: Let_def HasPrefix_iff TrimPrefix_def HasPrefix_def split: option.splits)

lemma anthropic_line_quiet:
  assumes "anthropic_line env now st line = Continue st' evts"
  shows "(evts = [] \<or> (\<exists>c. evts = [ChunkEvent c])) \<and> (eventType st' = eventType st \<or> line = ''event: '' @ eventType st')"
  using assms
  by (auto simp: anthropic_line_def anthropic_data_def decode_failed_def CutPrefix_True
      split: if_splits option.splits prod.splits bool.splits)

lemma anthropic_line_stops:
  assumes "anthropic_line env now st line = Return evts"
  shows "(\<exists>e. evts = [ErrEvent e]) \<or> evts = [] \<and> eventType st = ''message_stop''"
  using assms
  by (auto simp: anthropic_line_def anthropic_data_def decode_failed_def split: if_splits option.splits prod.splits bool.splits)

lemma anthropic_events_shape:
  "errors_only_last (anthropic_events env clk st ls scanErr) \<and>
   (eventType st \<noteq> ''message_stop'' \<and> ''event: message_stop'' \<notin> set ls \<longrightarrow> ends_in_error (anthropic_events env clk st ls scanErr))"
proof (induction ls arbitrary: clk st)
  case Nil
  then show ?case by simp
next
  case (Cons line ls)
  show ?case
  proof (cases "anthropic_line env (clk 0) st line")
    case (Continue st' evts)
    from anthropic_line_quiet [OF this] Cons [of "\<lambda>i. clk (Suc i)" st'] show ?thesis by (auto simp: Continue)
  next
    case (Return evts)
    from anthropic_line_stops [OF this] show ?thesis by (auto simp: Return)
  qed
qed

lemma google_events_shape:
  "errors_only_last (google_events env clk i m ls scanErr) \<and>
   (scanErr \<noteq> None \<longrightarrow> ends_in_error (google_events env clk i m ls scanErr))"
  by (induction ls arbitrary: clk) (auto simp: Let_def split: option.splits)

lemma truncated_stream_events:
  assumes "finite_params req" "hsStatus resp = 200" "truncated impl (hsBody resp)"
  shows "\<exists>evts. impl_ChatCompletionStream (answering bytes t) impl clk None req (resp # rs) = (Inr evts, rs) \<and>
    errors_only_last evts \<and> ends_in_error evts"
proof -
  obtain ls scanErr where sl: "scan_lines (hsBody resp) = (ls, scanErr)" by fastforce
  have pj: "post_json (answering bytes t) d url hs payload (resp # rs) = (Inr resp, rs)" if "payload \<noteq> None" for d url hs payload
    using post_json_answering [OF that, of "resp # rs"] by simp
  note p = payloads_total [OF assms(1)]
  show ?thesis
  proof (cases impl)
    case (OpenAI a)
    then show ?thesis using assms(2-) sl pj [OF p(1)] openai_events_shape [of "answering bytes t" ls scanErr]
      by (simp add: openai_ChatCompletionStream_def delivered_def)
  next
    case (Anthropic a)
    then show ?thesis using assms(2-) sl pj [OF p(2)] anthropic_events_shape [of "answering bytes t" clk zeroAnthropicStream ls scanErr]
      by (simp add: anthropic_ChatCompletionStream_def delivered_def zeroAnthropicStream_def)
  next
    case (Google a)
    obtain i where i: "generateID (answering bytes t) rs = (i, rs)" using generateID_answering [of bytes t rs] by (metis prod.collapse)
    from Google show ?thesis using assms(2-) sl pj [OF p(3)] google_events_shape [of "answering bytes t" clk i "reqModel req" ls scanErr]
      by (simp add: google_ChatCompletionStream_def delivered_def i)
  qed
qed

lemma last_stream_error_last:
  assumes "ends_in_error evts"
  shows "last_stream_error evts = evt_Err (last evts)"
proof -
  from assms obtain es e where "evts = es @ [e]" "evt_Err e \<noteq> None" by (metis append_butlast_last_id ends_in_error_def)
  then show ?thesis by (auto simp: last_stream_error_def List.map_filter_def)
qed

text \<open>
  C32. No adapter takes a stream that broke off for a finished one: when the body of an OpenAI or Anthropic stream lacks its closing event, or a Gemini body
  ends with a read error, the events handed on are chunks followed by one error, and the provider's health records that error as one failure.
\<close>

theorem truncated_stream_is_failure:
  assumes "finite_params req" and "hsStatus resp = 200" and "truncated impl (hsBody resp)"
  shows "\<exists>cs e. impl_ChatCompletionStream (answering bytes t) impl clk None req (resp # rs) = (Inr (map ChunkEvent cs @ [ErrEvent e]), rs) \<and>
    trackStreamHealth None start now (map ChunkEvent cs @ [ErrEvent e]) p =
      (map ChunkEvent cs @ [ErrEvent e], recordHealthFailure (Some e) start now p)"
proof -
  obtain evts where ev: "impl_ChatCompletionStream (answering bytes t) impl clk None req (resp # rs) = (Inr evts, rs)"
    "errors_only_last evts" "ends_in_error evts"
    using truncated_stream_events [OF assms] by blast
  obtain cs e where s: "evts = map ChunkEvent cs @ [ErrEvent e]"
    using errors_only_last_split [OF ev(2,3)] by blast
  have "trackStream None None evts = (evts, Some (Some e))"
    using trackStream_drained [of None evts None] last_stream_error_last [OF ev(3)] by (simp add: s)
  then show ?thesis using ev(1) unfolding s by (auto simp: trackStreamHealth_def split: prod.splits)
qed

theorem truncated_stream_is_failure_witness:
  "\<exists>cs e. impl_ChatCompletionStream (answering [] 0) (OpenAI (openai_New \<lparr>acAPIKey = ''k'', acBaseURL = [], acTimeout = 0, acModels = []\<rparr>))
      (\<lambda>_. 0) None zeroRequest [\<lparr>hsStatus = 200, hsHeader = [], hsBody = \<lparr>bodyBytes = ''data: {}'', bodyEnd = BodyEOF\<rparr>\<rparr>] =
      (Inr (map ChunkEvent cs @ [ErrEvent e]), [])"
proof -
  let ?b = "\<lparr>bodyBytes = ''data: {}'', bodyEnd = BodyEOF\<rparr>"
  let ?i = "OpenAI (openai_New \<lparr>acAPIKey = ''k'', acBaseURL = [], acTimeout = 0, acModels = []\<rparr>)"
  have "finite_params zeroRequest" by (simp add: finite_params_def zeroRequest_def)
  moreover have "truncated ?i ?b" by (simp add: scan_lines_def maxTokenSize_def drop_cr_def)
  ultimately show ?thesis
    using truncated_stream_is_failure [of zeroRequest "\<lparr>hsStatus = 200, hsHeader = [], hsBody = ?b\<rparr>" ?i "[]" 0 "\<lambda>_. 0" "[]" 0 0
        "NewHealthTrackingProvider ''openai'' [] \<lparr>FailureThreshold = 3, CooldownPeriod = 5\<rparr> \<lparr>MaxRetries = 1, RetryBackoff = 0\<rparr>"]
    by auto
qed

section \<open>Conversations\<close>

text \<open>
  Neither translation loses or reorders the conversation: the messages sent to either service are the request's messages other than system ones, in
  order and with their texts, with Gemini's name for the assistant, and the system texts travel in order in the field the service has for them; an absent
  token limit becomes 4096 for Anthropic, which requires one.
\<close>

theorem translateRequest_conversation:
  "let chat = filter (\<lambda>m. Role m \<noteq> ''system'') (Messages req); sys = map Content (filter (\<lambda>m. Role m = ''system'') (Messages req));
       ar = anthropic_translateRequest req; gr = google_translateRequest req
   in (case arMessages ar of None \<Rightarrow> [] | Some ms \<Rightarrow> map (\<lambda>m. (amRole m, amContent m)) ms) = map (\<lambda>m. (Role m, Content m)) chat \<and>
      arSystem ar = strings_Join sys [CHR 0x0A, CHR 0x0A] \<and>
      arMaxTokens ar = (case MaxTokens req of Some n \<Rightarrow> n | None \<Rightarrow> 4096) \<and>
      (case grContents gr of None \<Rightarrow> [] | Some cs \<Rightarrow> map (\<lambda>c. (gcRole c, map gpText (gcParts c))) cs) =
        map (\<lambda>m. (if Role m = ''assistant'' then ''model'' else Role m, [Content m])) chat \<and>
      (case grSystemInstruction gr of None \<Rightarrow> [] | Some ps \<Rightarrow> map gpText ps) = sys"
proof -
  have a: "split_system ms = (map Content (filter (\<lambda>m. Role m = ''system'') ms),
      map (\<lambda>m. \<lparr>amRole = Role m, amContent = Content m\<rparr>) (filter (\<lambda>m. Role m \<noteq> ''system'') ms))" for ms
    by (induction ms) simp_all
  have g: "split_contents ms = (map (\<lambda>m. \<lparr>gpText = Content m\<rparr>) (filter (\<lambda>m. Role m = ''system'') ms),
      map (\<lambda>m. \<lparr>gcRole = (if Role m = ''assistant'' then ''model'' else Role m), gcParts = [\<lparr>gpText = Content m\<rparr>]\<rparr>)
        (filter (\<lambda>m. Role m \<noteq> ''system'') ms))" for ms
    by (induction ms) simp_all
  show ?thesis
    by (simp add: Let_def anthropic_translateRequest_def google_translateRequest_def a g anthropicDefaultMaxTokens_def comp_def
      split: option.split)
qed

end
