(* ===== verification/Json_Text.thy ===== *)
theory Json_Text
  imports Json_Codec
begin

text \<open>
  Two facts about \<^verbatim>\<open>encoding/json\<close> that framing relies on: the text it writes holds no control character, so a value fits on one line, and the strings it reads
  are UTF-8 whatever bytes were sent, so what was read can be written again.
\<close>

section \<open>Specification vocabulary\<close>

definition no_control :: "string \<Rightarrow> bool" where
  "no_control s = list_all (\<lambda>c. 32 \<le> byte c) s"

text \<open>The values the reader produces: every string in them is UTF-8.\<close>

fun utf8_json :: "json \<Rightarrow> bool" where
  "utf8_json (JStr s) = valid_utf8 s"
| "utf8_json (JArr vs) = list_all utf8_json vs"
| "utf8_json (JObj kvs) = list_all (\<lambda>(k, v). utf8_json v) kvs"
| "utf8_json _ = True"

fun utf8_frame :: "frame \<Rightarrow> bool" where
  "utf8_frame (FArr vs) = list_all utf8_json vs"
| "utf8_frame (FObj kvs k) = list_all (\<lambda>(k, v). utf8_json v) kvs"

fun utf8_expect :: "expect \<Rightarrow> bool" where
  "utf8_expect (EKeyOrClose kvs) = list_all (\<lambda>(k, v). utf8_json v) kvs"
| "utf8_expect (EKey kvs) = list_all (\<lambda>(k, v). utf8_json v) kvs"
| "utf8_expect (EColon kvs k) = list_all (\<lambda>(k, v). utf8_json v) kvs"
| "utf8_expect _ = True"

fun utf8_move :: "move \<Rightarrow> bool" where
  "utf8_move (Go ex stk) = (utf8_expect ex \<and> list_all utf8_frame stk)"
| "utf8_move (Finish v) = utf8_json v"
| "utf8_move Reject = True"

fun utf8_token :: "token \<Rightarrow> bool" where
  "utf8_token (TVal v) = utf8_json v"
| "utf8_token _ = True"

text \<open>The string literals the scanner lets through: every backslash starts a complete escape.\<close>

function esc_ok :: "string \<Rightarrow> bool" where
  "esc_ok s =
     (case s of
        [] \<Rightarrow> True
      | c # cs \<Rightarrow>
          if c = CHR 0x5C then
            (case cs of
               [] \<Rightarrow> False
             | e # s1 \<Rightarrow>
                 if e = CHR ''u'' then list_all (\<lambda>h. hex_value h \<noteq> None) (take 4 s1) \<and> 4 \<le> length s1 \<and> esc_ok (drop 4 s1)
                 else byte (unescape e) < 128 \<and> esc_ok s1)
          else esc_ok cs)"
  by pat_completeness auto
termination
  by (relation "measure length") auto

declare esc_ok.simps [simp del]

text \<open>A decoder is typed by a predicate when decoding UTF-8 values into a value that satisfies it keeps it.\<close>

definition typed :: "('a \<Rightarrow> bool) \<Rightarrow> 'a decoder \<Rightarrow> bool" where
  "typed P f \<longleftrightarrow> (\<forall>j x y. utf8_json j \<longrightarrow> P x \<longrightarrow> f j x = Some y \<longrightarrow> P y)"

fun finite_f64 :: "float64 \<Rightarrow> bool" where
  "finite_f64 (Fin x) = True"
| "finite_f64 _ = False"

definition request_ok :: "ChatCompletionRequest \<Rightarrow> bool" where
  "request_ok r \<longleftrightarrow> valid_utf8 (reqModel r) \<and> list_all message_ok (Messages r) \<and> pred_option finite_f64 (Temperature r) \<and>
     pred_option finite_f64 (TopP r) \<and> pred_option in_int64 (reqN r) \<and> list_all valid_utf8 (Stop r) \<and> pred_option in_int64 (MaxTokens r) \<and>
     pred_option finite_f64 (PresencePenalty r) \<and> pred_option finite_f64 (FrequencyPenalty r) \<and> valid_utf8 (reqUser r)"

section \<open>Written text has no control characters\<close>

lemma no_control_simps [simp]:
  "no_control []"
  "no_control (c # s) \<longleftrightarrow> 32 \<le> byte c \<and> no_control s"
  "no_control (s @ t) \<longleftrightarrow> no_control s \<and> no_control t"
  by (simp_all add: no_control_def)

lemma no_control_newline: "no_control s \<Longrightarrow> CHR 0x0A \<notin> set s \<and> CHR 0x0D \<notin> set s"
  by (auto simp: no_control_def list_all_iff)

lemma byte_hex_char: "32 \<le> byte (hex_char (n mod 16))"
proof -
  have "\<forall>c \<in> set ''0123456789abcdef''. 32 \<le> byte c" by simp
  moreover have "hex_char (n mod 16) \<in> set ''0123456789abcdef''" unfolding hex_char_def by (intro nth_mem) simp
  ultimately show ?thesis by blast
qed

lemma no_control_u_escape [simp]: "no_control (u_escape r)"
  by (simp add: u_escape_def byte_hex_char)

lemma no_control_quote_ascii: "no_control (quote_ascii c)"
proof (cases c rule: quote_ascii_cases)
  case (esc e)
  then show ?thesis by (auto simp: escapes_def)
qed simp_all

lemma no_control_quote_step: "s \<noteq> [] \<Longrightarrow> no_control (snd (quote_step s))"
proof (cases "\<not> byte (hd s) < 128 \<and> utf8_width s \<noteq> 0")
  case True
  then obtain p t where "s = p @ t" "utf8_width s = length p" "\<forall>c \<in> set p. 128 \<le> byte c" by (meson utf8_multi)
  then have "no_control (take (utf8_width s) s)" by (auto simp: no_control_def list_all_iff)
  with True show ?thesis by (simp add: quote_step_def Let_def)
qed (auto simp: quote_step_def Let_def no_control_quote_ascii)

lemma no_control_quote_chars: "no_control (quote_chars s)"
proof (induction "length s" arbitrary: s rule: less_induct)
  case less
  show ?case
  proof (cases "s = []")
    case True
    then show ?thesis by (simp add: quote_chars.simps)
  next
    case False
    then have "length (drop (fst (quote_step s)) s) < length s" using quote_step_pos [of s] by simp
    then show ?thesis
      unfolding quote_chars_step [OF False] using less.hyps no_control_quote_step [OF False] by simp
  qed
qed

lemma num_next_printable: "num_next st c = Some st' \<Longrightarrow> 32 \<le> byte c"
  by (cases st) (auto simp: is_digit_def split: if_splits)

lemma no_control_scan_num: "scan_num st s = Done a r \<Longrightarrow> no_control a"
proof (induction st s arbitrary: a rule: scan_num.induct)
  case (1 st)
  then show ?case by (simp split: if_splits)
next
  case (2 st c s)
  show ?case
  proof (cases "num_next st c")
    case None
    then show ?thesis using "2.prems" by (simp split: if_splits)
  next
    case (Some st')
    then obtain b where "scan_num st' s = Done b r" "a = c # b" using "2.prems" by (cases "scan_num st' s") auto
    then show ?thesis using "2.IH" [OF Some] num_next_printable [OF Some] by simp
  qed
qed

lemma no_control_number: "is_number n \<Longrightarrow> no_control n"
proof -
  assume n: "is_number n"
  then obtain c s where cs: "n = c # s" "token_at c s = Done (TVal (JNum (c # s))) []" by (cases n) (auto simp: is_number_def)
  note c = number_head [OF cs(2)]
  have "scan_num (num_start c) s = Done s []" using cs(2) as_token_value unfolding token_at_number(2) [OF c] by fastforce
  moreover have "32 \<le> byte c" using c by (auto simp: is_digit_def)
  ultimately show ?thesis using no_control_scan_num cs(1) by simp
qed

lemma no_control_Join: "list_all no_control xs \<Longrightarrow> no_control sep \<Longrightarrow> no_control (strings_Join xs sep)"
  by (induction xs sep rule: strings_Join.induct) simp_all

theorem no_control_json_text: "json_wf j \<Longrightarrow> no_control (json_text j)"
proof (induction j)
  case (JNum n)
  then show ?case by (simp add: no_control_number)
next
  case (JStr s)
  then show ?case by (simp add: json_quote_def no_control_quote_chars)
next
  case (JArr vs)
  then have "list_all no_control (map json_text vs)" by (simp add: list_all_iff)
  then show ?case by (simp add: no_control_Join)
next
  case (JObj kvs)
  then have "list_all no_control (map (\<lambda>(k, v). json_quote k @ '':'' @ json_text v) kvs)"
    by (fastforce simp: list_all_iff json_quote_def no_control_quote_chars)
  then show ?case by (simp add: no_control_Join)
qed simp_all

section \<open>Strings that were read are UTF-8\<close>

lemma valid_utf8_piece: "utf8_width (p @ t) = length p \<Longrightarrow> valid_utf8 (p @ t) = valid_utf8 t"
  by (cases "p = []") (simp_all add: valid_utf8.simps [of "p @ t"])

lemma byte_char_of: "n < 256 \<Longrightarrow> byte (char_of n) = n"
  by (simp add: of_char_of)

lemma utf8_width_encode:
  assumes "r < 0x110000" "\<not> is_surrogate r"
  shows "utf8_width (utf8_encode r @ t) = length (utf8_encode r)"
proof -
  consider "r < 128" | "128 \<le> r" "r < 2048" | "2048 \<le> r" "r < 65536" | "65536 \<le> r" by linarith
  then show ?thesis
  proof cases
    case 1
    then show ?thesis by (simp add: utf8_encode_def byte_char_of Let_def)
  next
    case 2
    define a b where "a = r div 64" and "b = r mod 64"
    have "a * 64 + b = r" "b < 64" by (simp_all add: a_def b_def)
    with 2 have "2 \<le> a" "a < 32" by linarith+
    with 2 \<open>b < 64\<close> show ?thesis
      by (simp add: utf8_encode_def byte_char_of Let_def cont_byte_def a_def [symmetric] b_def [symmetric])
  next
    case 3
    define a b c where "a = r div 4096" and "b = r div 64 mod 64" and "c = r mod 64"
    have "r div 64 div 64 = a" by (simp add: a_def div_mult2_eq [symmetric])
    then have "r div 64 = a * 64 + b" "r = r div 64 * 64 + c" "b < 64" "c < 64" by (simp_all add: b_def c_def flip: \<open>r div 64 div 64 = a\<close>)
    note r = this
    have "a < 16" using 3 r by linarith
    moreover have "a = 0 \<longrightarrow> 32 \<le> b" using 3 r by auto
    moreover have "b < 32" if "a = 13" using assms(2) r that unfolding is_surrogate_def by auto
    ultimately have "a < 16" "a = 0 \<longrightarrow> 32 \<le> b" "a = 13 \<longrightarrow> b < 32" by auto
    with 3 \<open>b < 64\<close> \<open>c < 64\<close> show ?thesis
      by (auto simp: utf8_encode_def byte_char_of Let_def cont_byte_def a_def [symmetric] b_def [symmetric] c_def [symmetric])
  next
    case 4
    define a b c d where "a = r div 262144" and "b = r div 4096 mod 64" and "c = r div 64 mod 64" and "d = r mod 64"
    have "r div 64 div 64 = r div 4096" "r div 4096 div 64 = a" by (simp_all add: a_def div_mult2_eq [symmetric])
    then have "r div 4096 = a * 64 + b" "r div 64 = r div 4096 * 64 + c" "r = r div 64 * 64 + d" "b < 64" "c < 64" "d < 64"
      by (simp_all add: b_def c_def d_def flip: \<open>r div 64 div 64 = r div 4096\<close> \<open>r div 4096 div 64 = a\<close>)
    note r = this
    have "a < 5" using assms(1) r by linarith
    moreover have "a = 0 \<longrightarrow> 16 \<le> b" "a = 4 \<longrightarrow> b < 16" using 4 assms(1) r by auto
    ultimately have "a < 5" "a = 0 \<longrightarrow> 16 \<le> b" "a = 4 \<longrightarrow> b < 16" by auto
    with 4 \<open>b < 64\<close> \<open>c < 64\<close> \<open>d < 64\<close> show ?thesis
      by (auto simp: utf8_encode_def byte_char_of Let_def cont_byte_def a_def [symmetric] b_def [symmetric] c_def [symmetric] d_def [symmetric])
  qed
qed

lemma valid_utf8_encode: "r < 0x110000 \<Longrightarrow> \<not> is_surrogate r \<Longrightarrow> valid_utf8 (utf8_encode r @ t) = valid_utf8 t"
  by (rule valid_utf8_piece) (rule utf8_width_encode)

lemma valid_utf8_RuneError: "valid_utf8 (RuneError @ t) = valid_utf8 t"
  unfolding RuneError_def by (rule valid_utf8_encode) (simp_all add: is_surrogate_def)

lemma valid_utf8_ascii_Cons: "byte c < 128 \<Longrightarrow> valid_utf8 (c # t) = valid_utf8 t"
  using valid_utf8_piece [of "[c]" t] by (simp add: Let_def)

lemma hex_value_bound: "hex_value c = Some n \<Longrightarrow> n < 16"
  by (auto simp: hex_value_def Let_def split: if_splits)

lemma hex4_bound: "hex4 a b c d < 65536"
proof -
  have v: "(case hex_value x of Some n \<Rightarrow> n | None \<Rightarrow> 0) \<le> 15" for x using hex_value_bound by (fastforce split: option.split)
  show ?thesis using v [of a] v [of b] v [of c] v [of d] by (simp add: hex4_def Let_def)
qed

lemma decode_pair_bound: "decode_pair r s = Some p \<Longrightarrow> p < 0x110000 \<and> \<not> is_surrogate p"
  by (auto simp: decode_pair_def is_surrogate_def Let_def split: list.splits if_splits)

lemma hex_no_backslash: "hex_value h \<noteq> None \<Longrightarrow> h \<noteq> CHR 0x5C"
  by (auto simp: hex_value_def)

lemma esc_ok_simps [simp]:
  "esc_ok []"
  "\<not> esc_ok [CHR 0x5C]"
  "esc_ok (CHR 0x5C # e # s) \<longleftrightarrow>
     (if e = CHR ''u'' then list_all (\<lambda>h. hex_value h \<noteq> None) (take 4 s) \<and> 4 \<le> length s \<and> esc_ok (drop 4 s)
      else byte (unescape e) < 128 \<and> esc_ok s)"
  "c \<noteq> CHR 0x5C \<Longrightarrow> esc_ok (c # s) = esc_ok s"
  by (subst esc_ok.simps, simp)+

lemma esc_ok_plain: "CHR 0x5C \<notin> set p \<Longrightarrow> esc_ok (p @ s) = esc_ok s"
  by (induction p) auto

lemma esc_ok_pair: "esc_ok s \<Longrightarrow> decode_pair r s = Some p \<Longrightarrow> esc_ok (drop 6 s)"
  by (auto simp: decode_pair_def Let_def split: list.splits if_splits)

lemma valid_utf8_unquote: "esc_ok s \<Longrightarrow> valid_utf8 (unquote s)"
proof (induction "length s" arbitrary: s rule: less_induct)
  case less
  have IH: "valid_utf8 (unquote t)" if "esc_ok t" "length t < length s" for t using less.hyps that by blast
  show ?case
  proof (cases s)
    case Nil
    then show ?thesis by (simp add: unquote.simps valid_utf8.simps)
  next
    case (Cons c cs)
    consider (escape) "c = CHR 0x5C" | (ascii) "c \<noteq> CHR 0x5C" "byte c < 128" | (high) "c \<noteq> CHR 0x5C" "\<not> byte c < 128" by blast
    then show ?thesis
    proof cases
      case escape
      then obtain e s1 where cs: "cs = e # s1" using less.prems Cons by (cases cs) auto
      show ?thesis
      proof (cases "e = CHR ''u''")
        case True
        then have ok: "esc_ok (drop 4 s1)" "4 \<le> length s1" using less.prems Cons escape cs by simp_all
        then obtain a b d f t where s1: "s1 = a # b # d # f # t"
          by (cases s1; cases "tl s1"; cases "tl (tl s1)"; cases "tl (tl (tl s1))") auto
        let ?r = "hex4 a b d f"
        have v: "valid_utf8 (unquote t)" using ok s1 Cons cs by (intro IH) simp_all
        show ?thesis
        proof (cases "is_surrogate ?r")
          case sur: True
          show ?thesis
          proof (cases "decode_pair ?r t")
            case None
            with v sur True escape show ?thesis by (simp add: Cons cs s1 unquote.simps [of "_ # _"] valid_utf8_RuneError)
          next
            case (Some q)
            have "valid_utf8 (unquote (drop 6 t))" using esc_ok_pair [OF _ Some] ok s1 Cons cs by (intro IH) simp_all
            with decode_pair_bound [OF Some] sur True escape Some show ?thesis
              by (simp add: Cons cs s1 unquote.simps [of "_ # _"] valid_utf8_encode)
          qed
        next
          case False
          then show ?thesis using v hex4_bound [of a b d f] True escape
            by (simp add: Cons cs s1 unquote.simps [of "_ # _"] valid_utf8_encode)
        qed
      next
        case False
        then have "byte (unescape e) < 128" "esc_ok s1" using less.prems Cons escape cs by simp_all
        then show ?thesis using IH [of s1] False escape by (simp add: Cons cs unquote.simps [of "_ # _"] valid_utf8_ascii_Cons)
      qed
    next
      case ascii
      then have "esc_ok cs" using less.prems Cons by simp
      with ascii IH [of cs] show ?thesis by (simp add: Cons unquote.simps [of "_ # _"] valid_utf8_ascii_Cons)
    next
      case high
      show ?thesis
      proof (cases "utf8_width s = 0")
        case True
        have "esc_ok cs" using less.prems Cons high by simp
        with IH [of cs] have "valid_utf8 (RuneError @ unquote cs)" by (simp add: Cons valid_utf8_RuneError)
        moreover have "unquote s = RuneError @ unquote cs" using high True Cons by (subst unquote.simps) (simp add: Let_def del: utf8_width.simps)
        ultimately show ?thesis by simp
      next
        case False
        then obtain p t where p: "s = p @ t" "utf8_width s = length p" "\<forall>c \<in> set p. 128 \<le> byte c" "\<And>x. utf8_width (p @ x) = length p"
          using high Cons utf8_multi [of s] by (metis list.sel(1))
        have "CHR 0x5C \<notin> set p" using p(3) by auto
        then have "esc_ok t" using less.prems p(1) esc_ok_plain by simp
        moreover have "p \<noteq> []" using False p(2) by auto
        ultimately have "valid_utf8 (p @ unquote t)" using IH [of t] p(1,4) by (simp add: valid_utf8_piece)
        moreover have "unquote s = take (utf8_width s) s @ unquote (drop (utf8_width s) s)"
          using high False Cons by (subst unquote.simps) (simp add: Let_def del: utf8_width.simps)
        ultimately show ?thesis using p(1,2) by simp
      qed
    qed
  qed
qed

lemma scan_hex_Done: "scan_hex n s = Done h r \<Longrightarrow> length h = n \<and> list_all (\<lambda>h. hex_value h \<noteq> None) h"
proof (induction n s arbitrary: h rule: scan_hex.induct)
  case (3 n c s)
  then show ?case by (cases "scan_hex n s") (auto split: if_splits)
qed auto

lemma unescape_ascii: "e \<in> set ''bfnrt/'' \<or> e = CHR 0x5C \<or> e = CHR 0x22 \<Longrightarrow> byte (unescape e) < 128"
proof -
  assume e: "e \<in> set ''bfnrt/'' \<or> e = CHR 0x5C \<or> e = CHR 0x22"
  have "list_all (\<lambda>e. byte (unescape e) < 128) (''bfnrt/'' @ [CHR 0x5C, CHR 0x22])" by code_simp
  with e show ?thesis unfolding list_all_iff by auto
qed

lemma scan_string_esc_ok: "scan_string s = Done a r \<Longrightarrow> esc_ok a"
proof (induction "length s" arbitrary: s a rule: less_induct)
  case less
  have IH: "esc_ok b" if "scan_string t = Done b r" "length t < length s" for t b using less.hyps that by blast
  obtain c cs where s: "s = c # cs" using less.prems by (cases s) (auto simp: scan_string.simps)
  consider (close) "c = CHR 0x22" | (escape) "c = CHR 0x5C" | (plain) "c \<noteq> CHR 0x22" "c \<noteq> CHR 0x5C" by blast
  then show ?case
  proof cases
    case close
    then show ?thesis using less.prems by (simp add: s scan_string.simps(2))
  next
    case plain
    then obtain b where "scan_string cs = Done b r" "a = c # b"
      using less.prems by (cases "scan_string cs") (simp_all add: s scan_string.simps(2) split: if_splits)
    then show ?thesis using IH [of cs b] plain s by simp
  next
    case escape
    then obtain e s' where cs: "cs = e # s'" using less.prems by (cases cs) (simp_all add: s scan_string.simps(2))
    show ?thesis
    proof (cases "e \<in> set ''bfnrt/'' \<or> e = CHR 0x5C \<or> e = CHR 0x22")
      case True
      then obtain b where "scan_string s' = Done b r" "a = [c, e] @ b"
        using less.prems escape by (cases "scan_string s'") (simp_all add: s cs scan_string.simps(2))
      then show ?thesis using IH [of s' b] escape True unescape_ascii [OF True] by (auto simp: s cs)
    next
      case False
      then obtain h t where h: "e = CHR ''u''" "scan_hex 4 s' = Done h t"
        using less.prems escape by (cases "scan_hex 4 s'") (auto simp: s cs scan_string.simps(2) split: if_splits)
      then obtain b where b: "scan_string t = Done b r" "a = [c, e] @ h @ b"
        using less.prems escape False by (cases "scan_string t") (simp_all add: s cs scan_string.simps(2))
      have "length t \<le> length s'" using scan_hex_length [OF h(2)] .
      then show ?thesis using IH [OF b(1)] scan_hex_Done [OF h(2)] escape h(1) b(2) by (simp add: s cs)
    qed
  qed
qed

lemma next_token_utf8: "next_token s = Done t r \<Longrightarrow> utf8_token t"
proof (induction s rule: next_token.induct)
  case (2 c s)
  show ?case
  proof (cases "is_space c")
    case False
    with "2.prems" have "token_at c s = Done t r" by simp
    then show ?thesis
      by (auto simp: token_at_def split: if_splits dest!: as_token_value intro!: valid_utf8_unquote scan_string_esc_ok)
  qed (use 2 in simp)
qed simp

lemma close_value_utf8: "utf8_json v \<Longrightarrow> list_all utf8_frame stk \<Longrightarrow> utf8_move (close_value v stk)"
  by (cases "(v, stk)" rule: add_value.cases) (auto simp: close_value_def)

lemma begin_value_utf8: "utf8_token t \<Longrightarrow> list_all utf8_frame stk \<Longrightarrow> utf8_move (begin_value t stk)"
  by (cases t) (auto simp: begin_value_def close_value_utf8)

lemma advance_utf8:
  assumes "utf8_expect ex" "utf8_token t" "list_all utf8_frame stk"
  shows "utf8_move (advance ex t stk)"
  using assms
  by (cases ex) (auto simp: close_value_utf8 begin_value_utf8 split: token.splits json.splits list.splits frame.splits)

lemma read_value_utf8:
  "utf8_expect ex \<Longrightarrow> list_all utf8_frame stk \<Longrightarrow> read_value ex stk s = Done v r \<Longrightarrow> utf8_json v"
proof (induction ex stk s rule: read_value.induct)
  case (1 ex stk s)
  obtain t r1 where t: "next_token s = Done t r1" using "1.prems"(3) by (cases "next_token s") (simp_all add: read_value.simps [of ex stk s])
  have m: "utf8_move (advance ex t stk)" using "1.prems" next_token_utf8 [OF t] by (intro advance_utf8)
  show ?case
  proof (cases "advance ex t stk")
    case (Go ex' stk')
    have "read_value ex' stk' r1 = Done v r" using "1.prems"(3) by (simp add: read_value.simps [of ex stk s] t Go)
    then show ?thesis using "1.IH" [OF t Go] m Go by simp
  qed (use "1.prems"(3) m in \<open>auto simp: read_value.simps [of ex stk s] t\<close>)
qed

theorem json_decode_utf8: "json_decode s = Done v r \<Longrightarrow> utf8_json v"
  unfolding json_decode_def by (rule read_value_utf8) simp_all

section \<open>Typed decoding\<close>

named_theorems typing "decoders and the predicates they are typed by"

lemma typedD: "typed P f \<Longrightarrow> utf8_json j \<Longrightarrow> P x \<Longrightarrow> f j x = Some y \<Longrightarrow> P y"
  by (simp add: typed_def)

lemma typed_string [typing]: "typed valid_utf8 dec_string"
  by (auto simp: typed_def dec_string_def split: json.splits)

lemma typed_bool [typing]: "typed (\<lambda>b. True) dec_bool"
  by (simp add: typed_def)

lemma Atoi_int64: "Atoi s = Some n \<Longrightarrow> in_int64 n"
  by (auto simp: Atoi_def Let_def split: if_splits option.splits prod.splits)

lemma typed_int [typing]: "typed in_int64 dec_int"
  by (auto simp: typed_def dec_int_def dest: Atoi_int64 split: json.splits)

lemma typed_f64 [typing]: "typed finite_f64 dec_f64"
  by (auto simp: typed_def dec_f64_def split: json.splits float64.splits)

lemma typed_ptr [typing]: "typed P f \<Longrightarrow> P zero \<Longrightarrow> typed (pred_option P) (dec_ptr zero f)"
  by (fastforce simp: typed_def dec_ptr_def split: if_splits option.splits)

lemma typed_elems:
  assumes "typed P f" "P zero" "list_all utf8_json vs" "list_all P old" "dec_elems zero f vs old = Some ys"
  shows "list_all P ys"
  using assms(3-)
proof (induction vs arbitrary: old ys)
  case (Cons v vs)
  let ?x = "case old of [] \<Rightarrow> zero | x # _ \<Rightarrow> x"
  obtain y zs where y: "f v ?x = Some y" "dec_elems zero f vs (drop 1 old) = Some zs" "ys = y # zs"
    using Cons.prems(3) by (auto split: option.splits)
  have "P ?x" using assms(2) Cons.prems(2) by (cases old) simp_all
  then have "P y" using assms(1) y(1) Cons.prems(1) by (auto simp: typed_def)
  moreover have "list_all P (drop 1 old)" using Cons.prems(2) by (cases old) simp_all
  ultimately show ?case using Cons.IH [OF _ _ y(2)] Cons.prems(1) y(3) by simp
qed simp

lemma typed_slice [typing]: "typed P f \<Longrightarrow> P zero \<Longrightarrow> typed (pred_option (list_all P)) (dec_slice zero f)"
proof -
  assume f: "typed P f" "P zero"
  have "list_all P ys" if "list_all utf8_json vs" "pred_option (list_all P) x"
    "dec_elems zero f vs (case x of Some old \<Rightarrow> old | None \<Rightarrow> []) = Some ys" for vs x ys
    using typed_elems [OF f that(1) _ that(3)] that(2) by (cases x) simp_all
  then show ?thesis unfolding typed_def [of "pred_option (list_all P)"] dec_slice_def by (auto split: json.splits)
qed

lemma typed_list [typing]: "typed P f \<Longrightarrow> P zero \<Longrightarrow> typed (list_all P) (dec_list zero f)"
proof -
  assume "typed P f" "P zero"
  then have ts: "typed (pred_option (list_all P)) (dec_slice zero f)" by (rule typed_slice)
  have sl: "pred_option (list_all P) y" if "utf8_json j" "list_all P x" "dec_slice zero f j (Some x) = Some y" for j x y
    using typedD [OF ts that(1) _ that(3)] that(2) by simp
  show ?thesis unfolding typed_def dec_list_def
  proof (intro allI impI)
    fix j x y
    assume a: "utf8_json j" "list_all P x" "map_option (case_option [] (\<lambda>xs. xs)) (dec_slice zero f j (Some x)) = Some y"
    then obtain z where "dec_slice zero f j (Some x) = Some z" "y = case_option [] (\<lambda>xs. xs) z" by auto
    then show "list_all P y" using sl [OF a(1,2)] by (cases z) simp_all
  qed
qed

lemma typed_struct:
  assumes "\<And>k. typed P (f k)"
  shows "typed P (dec_struct f)"
proof -
  have "list_all (\<lambda>(k, v). utf8_json v) kvs \<Longrightarrow> P x \<Longrightarrow> dec_fields f kvs x = Some y \<Longrightarrow> P y" for kvs x y
    using assms by (induction f kvs x rule: dec_fields.induct) (auto simp: typed_def split: option.splits)
  then show ?thesis by (auto simp: typed_def dec_struct_def split: json.splits)
qed

text \<open>A field: the value the record has there is decoded and put back.\<close>

lemma typed_field:
  assumes "typed Q g" "\<And>x. P x \<Longrightarrow> Q (get x)" "\<And>x v. P x \<Longrightarrow> Q v \<Longrightarrow> P (put v x)"
  shows "typed P (\<lambda>v x. map_option (\<lambda>y. put y x) (g v (get x)))"
  using assms by (fastforce simp: typed_def)

lemma typed_if: "typed P f \<Longrightarrow> typed P g \<Longrightarrow> typed P (\<lambda>v x. if c then f v x else g v x)"
  by (cases c) simp_all

lemma typed_skip: "typed P (\<lambda>v x. Some x)"
  by (simp add: typed_def)

lemma ok_nil [simp]: "valid_utf8 []"
  by (simp add: valid_utf8.simps)

lemma zero_ok [simp]: "message_ok zeroMessage" "request_ok zeroRequest" "in_int64 0" "usage_ok zeroUsage" "delta_ok zeroDelta" "chunk_choice_ok zeroChunkChoice"
  "chunk_ok zeroChunk" "response_ok zeroResponse"
  by (simp_all add: message_ok_def request_ok_def zeroMessage_def zeroRequest_def in_int64_def usage_ok_def zeroUsage_def delta_ok_def zeroDelta_def
      chunk_choice_ok_def zeroChunkChoice_def chunk_ok_def zeroChunk_def response_ok_def zeroResponse_def)

lemma typed_Message [typing]: "typed message_ok dec_Message"
  unfolding dec_Message_def
  by (intro typed_struct typed_if typed_skip typed_field [where Q = valid_utf8]) (simp_all add: typing message_ok_def)

lemma typed_Request [typing]: "typed request_ok dec_ChatCompletionRequest"
  unfolding dec_ChatCompletionRequest_def
  by (intro typed_struct typed_if typed_skip; rule typed_field, rule typing)
    (simp_all add: typing request_ok_def)

lemma typed_Usage [typing]: "typed usage_ok dec_Usage"
  unfolding dec_Usage_def
  by (intro typed_struct typed_if typed_skip; rule typed_field, rule typing) (simp_all add: usage_ok_def)

lemma typed_Delta [typing]: "typed delta_ok dec_DeltaMessage"
  unfolding dec_DeltaMessage_def
  by (intro typed_struct typed_if typed_skip; rule typed_field, rule typing) (simp_all add: delta_ok_def)

lemma typed_ChunkChoice [typing]: "typed chunk_choice_ok dec_ChunkChoice"
  unfolding dec_ChunkChoice_def
  by (intro typed_struct typed_if typed_skip; rule typed_field, rule typing) (simp_all add: typing chunk_choice_ok_def)

lemma typed_Chunk [typing]: "typed chunk_ok dec_ChatCompletionChunk"
  unfolding dec_ChatCompletionChunk_def
  by (intro typed_struct typed_if typed_skip; rule typed_field, rule typing) (simp_all add: typing chunk_ok_def)

lemma typed_Choice [typing]: "typed (\<lambda>c. in_int64 (Index c) \<and> message_ok (choiceMessage c) \<and> valid_utf8 (FinishReason c)) dec_Choice"
  unfolding dec_Choice_def
  by (intro typed_struct typed_if typed_skip; rule typed_field, rule typing) simp_all

lemma typed_Response [typing]: "typed response_ok dec_ChatCompletionResponse"
  unfolding dec_ChatCompletionResponse_def
  by (intro typed_struct typed_if typed_skip; rule typed_field, rule typing)
    (simp_all add: typing response_ok_def zeroChoice_def)

lemma unmarshal_typed: "typed P f \<Longrightarrow> P zero \<Longrightarrow> unmarshal f zero s = Some x \<Longrightarrow> P x"
  by (auto simp: unmarshal_def json_unmarshal_def split: option.splits parsed.splits if_splits dest!: json_decode_utf8 elim: typedD)

end
