(* ===== verification/Chat_Handler.thy ===== *)
theory Chat_Handler
  imports Request_Router Rate_Limit_Middleware OpenAI_Adapter Json_Text
begin

text \<open>
  \<^verbatim>\<open>internal/handler/chat.go\<close>. The handler sees a router and providers through their interfaces, which are the fields of \<open>chat_env\<close> over the world: a
  streaming call yields the events its channel delivers until it is closed, and the world once the channel is drained, which the handler always does.
  \<open>ce_isPrint\<close> is the Unicode table behind \<^verbatim>\<open>%q\<close> from U+0080 on.
\<close>

section \<open>Environment\<close>

record 'w chat_env =
  ce_Route :: "ChatCompletionRequest \<Rightarrow> RequestMeta \<Rightarrow> 'w \<Rightarrow> route_result \<times> 'w"
  ce_Chat :: "ProviderRef \<Rightarrow> ChatCompletionRequest \<Rightarrow> 'w \<Rightarrow> (ChatCompletionResponse option \<times> go_error option) \<times> metric_call list \<times> 'w"
  ce_Stream :: "ProviderRef \<Rightarrow> ChatCompletionRequest \<Rightarrow> 'w \<Rightarrow> (StreamEvent list option \<times> go_error option) \<times> metric_call list \<times> 'w"
  ce_ctxDone :: "'w \<Rightarrow> bool"
  ce_flusher :: bool
  ce_jsonMsg :: "string \<Rightarrow> string"
  ce_isPrint :: "nat \<Rightarrow> bool"

section \<open>Quoting\<close>

text \<open>\<^verbatim>\<open>strconv.Quote\<close>.\<close>

definition rune_value :: "string \<Rightarrow> nat" where
  "rune_value s = (case map byte s of
       [a] \<Rightarrow> a
     | [a, b] \<Rightarrow> (a - 192) * 64 + (b - 128)
     | [a, b, c] \<Rightarrow> (a - 224) * 4096 + (b - 128) * 64 + (c - 128)
     | [a, b, c, d] \<Rightarrow> (a - 240) * 262144 + (b - 128) * 4096 + (c - 128) * 64 + (d - 128)
     | _ \<Rightarrow> 0)"

definition hex_padded :: "nat \<Rightarrow> nat \<Rightarrow> string" where
  "hex_padded n r = map (\<lambda>i. hex_char (r div 16 ^ i mod 16)) (rev [0..<n])"

definition quote_rune :: "(nat \<Rightarrow> bool) \<Rightarrow> string \<Rightarrow> string" where
  "quote_rune isPrint s =
     (let r = rune_value s in
      if r = 34 \<or> r = 92 then CHR 0x5C # s
      else if (if r < 128 then 32 \<le> r \<and> r < 127 else isPrint r) then s
      else case map_of [(7, CHR ''a''), (8, CHR ''b''), (12, CHR ''f''), (10, CHR ''n''), (13, CHR ''r''), (9, CHR ''t''), (11, CHR ''v'')] r of
          Some c \<Rightarrow> [CHR 0x5C, c]
        | None \<Rightarrow>
            if r < 32 \<or> r = 127 then CHR 0x5C # CHR ''x'' # hex_padded 2 r
            else if r < 65536 then CHR 0x5C # CHR ''u'' # hex_padded 4 r
            else CHR 0x5C # CHR ''U'' # hex_padded 8 r)"

function quote_runes :: "(nat \<Rightarrow> bool) \<Rightarrow> string \<Rightarrow> string" where
  "quote_runes isPrint s =
     (if s = [] then []
      else let n = utf8_width s in
        if n = 0 then CHR 0x5C # CHR ''x'' # hex_padded 2 (byte (hd s)) @ quote_runes isPrint (tl s)
        else quote_rune isPrint (take n s) @ quote_runes isPrint (drop n s))"
  by pat_completeness auto
termination
  by (relation "measure (\<lambda>(p, s). length s)") auto

declare quote_runes.simps [simp del]

definition strconv_Quote :: "(nat \<Rightarrow> bool) \<Rightarrow> string \<Rightarrow> string" where
  "strconv_Quote isPrint s = CHR 0x22 # quote_runes isPrint s @ [CHR 0x22]"

section \<open>The request body\<close>

definition maxRequestBodySize :: nat where
  "maxRequestBodySize = 10 * 2 ^ 20"

text \<open>
  A \<^verbatim>\<open>json.Decoder\<close> on a \<^verbatim>\<open>http.MaxBytesReader\<close>: the limit shows only when the decoder has to read past it.
\<close>

datatype 'a decoded = Decoded 'a | TooLarge | Undecodable go_error

definition decode_limited :: "(string \<Rightarrow> string) \<Rightarrow> nat \<Rightarrow> 'a decoder \<Rightarrow> 'a \<Rightarrow> request_body \<Rightarrow> 'a decoded" where
  "decode_limited msg n f zero b =
     (let s = take n (bodyBytes b); over = n < length (bodyBytes b);
          stop = (if over then TooLarge
                  else case bodyEnd b of
                      BodyFails e \<Rightarrow> Undecodable e
                    | BodyEOF \<Rightarrow> Undecodable (ErrText (if list_all is_space s then ''EOF'' else ''unexpected EOF'')))
      in case json_decode s of
           Done j r \<Rightarrow>
             if pending_number j r \<and> (over \<or> bodyEnd b \<noteq> BodyEOF) then stop
             else (case f j zero of Some v \<Rightarrow> Decoded v | None \<Rightarrow> Undecodable (ErrText (msg s)))
         | Bad \<Rightarrow> Undecodable (ErrText (msg s))
         | More \<Rightarrow> stop)"

definition request_body_of :: "Request \<Rightarrow> request_body" where
  "request_body_of r = (case reqBody r of Some b \<Rightarrow> b | None \<Rightarrow> \<lparr>bodyBytes = [], bodyEnd = BodyEOF\<rparr>)"

section \<open>The handler\<close>

definition routerMeta :: "Request \<Rightarrow> RequestMeta" where
  "routerMeta r = (case ctxKeyInfo r of
       Some k \<Rightarrow> \<lparr>OrgID = kiOrgID k, KeyID = kiKeyID k, Attempt = 0, TriedNames = [], Group = []\<rparr>
     | None \<Rightarrow> \<lparr>OrgID = [], KeyID = [], Attempt = 0, TriedNames = [], Group = []\<rparr>)"

definition setRoutingHeaders :: "Decision \<Rightarrow> writer_op list" where
  "setRoutingHeaders d =
     [SetHeader ''X-LLM-Gateway-Provider'' (decProvider d), SetHeader ''X-LLM-Gateway-Strategy'' (decStrategy d),
      SetHeader ''X-LLM-Gateway-Attempts'' ''1''] @
     (if decGroup d \<noteq> [] then [SetHeader ''X-LLM-Gateway-Group'' (decGroup d)] else [])"

definition writeRouterError :: "(nat \<Rightarrow> bool) \<Rightarrow> string \<Rightarrow> go_error \<Rightarrow> writer_op list" where
  "writeRouterError isPrint modelName err =
     (if errors_Is err ErrUnknownModel then
        apierr_Write 400 ''invalid_request_error'' ''invalid_model'' (''unknown model '' @ strconv_Quote isPrint modelName)
      else if errors_Is err ErrNoHealthyProviders then
        apierr_Write 503 ''service_unavailable'' ''all_providers_down'' ''all candidate providers are unavailable''
      else apierr_Write 500 ''internal_error'' ''internal_error'' (''routing failed: '' @ err_Error err))"

text \<open>\<^verbatim>\<open>handleNonStream\<close>. A nil response without an error is dereferenced.\<close>

definition handleNonStream :: "'w chat_env \<Rightarrow> ProviderRef \<Rightarrow> ChatCompletionRequest \<Rightarrow> Decision \<Rightarrow> 'w exchange \<Rightarrow> writer_op list \<times> 'w exchange" where
  "handleNonStream env p req d x =
     (let ((resp, err), ms, w) = ce_Chat env p req (world x); x = emit ms (x\<lparr>world := w\<rparr>) in
      case (err, resp) of
        (Some e, _) \<Rightarrow> (handleProviderError e, x)
      | (None, None) \<Rightarrow> ([Panic], x)
      | (None, Some resp) \<Rightarrow>
          (SetHeader ''Content-Type'' ''application/json'' # setRoutingHeaders d @
             [SendBytes (encoder_text (enc_ChatCompletionResponse resp))],
           SetTokens (PromptTokens (respUsage resp)) (CompletionTokens (respUsage resp)) x))"

fun stream_loop :: "logger \<Rightarrow> string \<Rightarrow> StreamEvent list \<Rightarrow> 'w exchange \<Rightarrow> writer_op list \<times> 'w exchange" where
  "stream_loop lg name [] x = ([], x)"
| "stream_loop lg name (ErrEvent e # evts) x =
     ([], log_to lg LevelWarn ''stream error from provider'' [(''error'', StrAttr (err_Error e)), (''provider'', StrAttr name)] x)"
| "stream_loop lg name (ChunkEvent c # evts) x =
     (let (ops, x) = stream_loop lg name evts x in (SendBytes (sse_event (json_text (enc_ChatCompletionChunk c))) # FlushNow # ops, x))"

text \<open>\<^verbatim>\<open>handleStream\<close>. Ranging over a nil channel never ends.\<close>

definition handleStream ::
  "'w chat_env \<Rightarrow> logger \<Rightarrow> Request \<Rightarrow> ProviderRef \<Rightarrow> ChatCompletionRequest \<Rightarrow> Decision \<Rightarrow> 'w exchange \<Rightarrow> writer_op list \<times> 'w exchange"
where
  "handleStream env dflt r p req d x =
     (let lg = LoggerFromContext dflt r;
          ((ch, err), ms, w) = ce_Stream env p req (world x); x = emit ms (x\<lparr>world := w\<rparr>)
      in case err of
           Some e \<Rightarrow> (handleProviderError e, x)
         | None \<Rightarrow>
             if \<not> ce_flusher env then
               (apierr_Write 500 ''internal_error'' ''internal_error'' ''streaming not supported'' @ (if ch = None then [Block] else []), x)
             else
               (let pre = [SetHeader ''Content-Type'' ''text/event-stream'', SetHeader ''Cache-Control'' ''no-cache'',
                           SetHeader ''Connection'' ''keep-alive''] @ setRoutingHeaders d
                in case ch of
                     None \<Rightarrow> (pre @ [Block], x)
                   | Some evts \<Rightarrow>
                       (let (ops, x) = stream_loop lg (refName p) evts x;
                            done = (if ce_ctxDone env (world x) then [] else [SendBytes (sse_event ''[DONE]''), FlushNow])
                        in (pre @ ops @ done, x))))"

definition HandleChatCompletion :: "'w chat_env \<Rightarrow> logger \<Rightarrow> 'w handler" where
  "HandleChatCompletion env dflt r x =
     (case decode_limited (ce_jsonMsg env) maxRequestBodySize dec_ChatCompletionRequest zeroRequest (request_body_of r) of
        TooLarge \<Rightarrow> (apierr_Write 413 ''invalid_request_error'' ''request_too_large'' ''request body exceeds 10MB limit'', x)
      | Undecodable e \<Rightarrow> (apierr_Write 400 ''invalid_request_error'' ''invalid_request'' (''invalid request body: '' @ err_Error e), x)
      | Decoded req \<Rightarrow>
          if reqModel req = [] then (apierr_Write 400 ''invalid_request_error'' ''invalid_request'' ''model is required'', x)
          else if Messages req = [] then (apierr_Write 400 ''invalid_request_error'' ''invalid_request'' ''messages must not be empty'', x)
          else
            (case ce_Route env req (routerMeta r) (world x) of
               (RouteErr err, w) \<Rightarrow> (writeRouterError (ce_isPrint env) (reqModel req) err, x\<lparr>world := w\<rparr>)
             | (RoutePanic, w) \<Rightarrow> ([Panic], x\<lparr>world := w\<rparr>)
             | (Routed p d, w) \<Rightarrow>
                 (let req = req\<lparr>reqModel := decModel d\<rparr>;
                      x = SetGroup (decGroup d) (SetStrategy (decStrategy d) (SetProvider (decProvider d) (SetModel (decModel d) (x\<lparr>world := w\<rparr>))))
                  in if Stream req then handleStream env dflt r p req d x else handleNonStream env p req d x)))"

section \<open>Specification vocabulary\<close>

definition status_of :: "writer_op list \<Rightarrow> int option" where
  "status_of ops = map_option fst (sent (run_ops ops new_response))"

definition body_of :: "writer_op list \<Rightarrow> string" where
  "body_of ops = body (run_ops ops new_response)"

fun op_bytes :: "writer_op \<Rightarrow> string" where
  "op_bytes (SendBytes b) = b"
| "op_bytes _ = []"

definition chunk_text :: "ChatCompletionChunk \<Rightarrow> string" where
  "chunk_text c = json_text (enc_ChatCompletionChunk c)"

definition framed :: "string list \<Rightarrow> string list" where
  "framed ds = concat (map (\<lambda>d. [''data: '' @ d, []]) ds)"

definition stream_head :: "Decision \<Rightarrow> writer_op list" where
  "stream_head d = [SetHeader ''Content-Type'' ''text/event-stream'', SetHeader ''Cache-Control'' ''no-cache'',
     SetHeader ''Connection'' ''keep-alive''] @ setRoutingHeaders d"

definition reply_head :: "Decision \<Rightarrow> writer_op list" where
  "reply_head d = SetHeader ''Content-Type'' ''application/json'' # setRoutingHeaders d"

definition routing_status :: "go_error \<Rightarrow> int" where
  "routing_status e = (if errors_Is e ErrUnknownModel then 400 else if errors_Is e ErrNoHealthyProviders then 503 else 500)"

text \<open>A gateway for the witnesses: every model is served by one provider with fixed answers, and the limiter admits everything and notes the tokens.\<close>

definition sample_decision :: Decision where
  "sample_decision = \<lparr>decProvider = ''openai'', decModel = ''m'', decStrategy = ''priority'', decGroup = [], ExperimentName = [], Variant = []\<rparr>"

definition sample_response :: ChatCompletionResponse where
  "sample_response = zeroResponse\<lparr>ID := ''c1'', respUsage := \<lparr>PromptTokens = 2, CompletionTokens = 3, TotalTokens = 5\<rparr>\<rparr>"

definition sample_env :: "'w chat_env" where
  "sample_env = \<lparr>ce_Route = (\<lambda>req meta w. (Routed \<lparr>refName = ''openai'', refHealth = None\<rparr> sample_decision, w)),
     ce_Chat = (\<lambda>p req w. ((Some sample_response, None), [], w)), ce_Stream = (\<lambda>p req w. ((Some (map ChunkEvent [zeroChunk]), None), [], w)),
     ce_ctxDone = (\<lambda>w. False), ce_flusher = True, ce_jsonMsg = (\<lambda>s. ''invalid''), ce_isPrint = (\<lambda>r. True)\<rparr>"

definition sample_reserver :: "int list reserver" where
  "sample_reserver = \<lparr>rs_Reserve = (\<lambda>key w. (Inr (zeroReservation\<lparr>Allowed := True\<rparr>), w)), rs_RecordTokens = (\<lambda>key n w. (None, n # w)),
     rs_now = (\<lambda>w. 0), rs_lastWarn = (\<lambda>w. 0), rs_setLastWarn = (\<lambda>n w. w)\<rparr>"

definition sample_json :: json where
  "sample_json = JObj [(''model'', JStr ''m''), (''messages'', JArr [JObj [(''role'', JStr ''user''), (''content'', JStr ''hi'')]])]"

definition sample_request :: Request where
  "sample_request = \<lparr>Method = ''POST'', Path = ''/v1/chat/completions'', reqHeader = [],
     reqBody = Some \<lparr>bodyBytes = json_text sample_json, bodyEnd = BodyEOF\<rparr>, ctxKeyInfo = Some sample_info, ctxLogger = None, ctxReqID = []\<rparr>"

section \<open>What a sequence of calls sends\<close>

lemma run_ops_body:
  assumes "headers_first started ops" "\<not> panicked w"
  shows "body (run_ops ops w) = body w @ concat (map op_bytes ops) \<and> \<not> panicked (run_ops ops w)"
  using assms
proof (induction started ops arbitrary: w rule: headers_first.induct)
  case (2 started k v ops)
  then show ?case by (cases started) (simp_all add: run_ops_Cons)
next
  case (3 started c ops)
  then have "\<not> panicked (WriteHeader c w)" "body (WriteHeader c w) = body w" by (simp_all add: WriteHeader_cases)
  then show ?case using 3 by (simp add: run_ops_Cons)
next
  case (4 started b ops)
  then have "\<not> panicked (Write_bytes b w)" "body (Write_bytes b w) = body w @ b" by (simp_all add: Write_bytes_cases)
  then show ?case using 4 by (simp add: run_ops_Cons)
next
  case (5 started ops)
  then have "\<not> panicked (Flush w)" "body (Flush w) = body w" by (simp_all add: Flush_cases)
  then show ?case using 5 by (simp add: run_ops_Cons)
qed simp_all

lemma run_ops_sent:
  assumes "headers_first True ops" "\<not> panicked w" "sent w = Some z"
  shows "sent (run_ops ops w) = Some z"
  using assms
  by (induction True ops arbitrary: w rule: headers_first.induct)
    (simp_all add: run_ops_Cons WriteHeader_cases Write_bytes_cases Flush_cases)

lemma SetHeaders_fresh:
  assumes "\<forall>op \<in> set ops. \<exists>k v. op = SetHeader k v" "\<not> panicked w"
  shows "sent (run_ops ops w) = sent w \<and> body (run_ops ops w) = body w \<and> \<not> panicked (run_ops ops w)"
  using assms by (induction ops arbitrary: w) (auto simp: run_ops_Cons)

lemma headers_first_Set:
  assumes "\<forall>op \<in> set ops. \<exists>k v. op = SetHeader k v" "headers_first False ops2"
  shows "headers_first False (ops @ ops2)"
  using assms by (induction ops) auto

lemma setRoutingHeaders_Set: "\<forall>op \<in> set (setRoutingHeaders d). \<exists>k v. op = SetHeader k v"
  by (simp add: setRoutingHeaders_def)

lemma status_apierr: "final_code code \<Longrightarrow> status_of (apierr_Write code ty c m) = Some code"
  using apierr_Write_fresh [of code new_response ty c m] by (auto simp: status_of_def new_response_def)

lemma headers_first_apierr: "final_code code \<Longrightarrow> headers_first False (apierr_Write code ty c m)"
  by (simp add: apierr_Write_def)

section \<open>The handler answers\<close>

lemma quote_chars_ascii: "byte c < 128 \<Longrightarrow> quote_chars (c # s) = quote_ascii c @ quote_chars s"
  by (simp add: quote_chars.simps [of "c # s"])

lemma quote_chars_Nil: "quote_chars [] = []"
  by (simp add: quote_chars.simps)


lemma decode_limited_text:
  assumes "json_wf j" "json_depth j \<le> maxNestingDepth" "length (json_text j) \<le> n" "\<not> pending_number j []" "f j zero = Some v"
  shows "decode_limited msg n f zero \<lparr>bodyBytes = json_text j, bodyEnd = BodyEOF\<rparr> = Decoded v"
proof -
  have "json_decode (json_text j) = Done j []" using json_decode_text [OF assms(1,2), of "[]"] by (simp add: delimited_def)
  then show ?thesis using assms(3-) by (simp add: decode_limited_def Let_def)
qed



section \<open>Streams\<close>

lemma stream_loop_chunks:
  "stream_loop lg name (map ChunkEvent cs) x = (concat (map (\<lambda>c. [SendBytes (sse_event (chunk_text c)), FlushNow]) cs), x)"
  by (induction cs) (simp_all add: chunk_text_def)

lemma stream_loop_broken:
  "stream_loop lg name (map ChunkEvent cs @ ErrEvent e # evts) x =
     (concat (map (\<lambda>c. [SendBytes (sse_event (chunk_text c)), FlushNow]) cs),
      log_to lg LevelWarn ''stream error from provider'' [(''error'', StrAttr (err_Error e)), (''provider'', StrAttr name)] x)"
  by (induction cs) (simp_all add: chunk_text_def)

lemma chunk_text_line:
  assumes "chunk_ok c"
  shows "no_control (chunk_text c)" "\<exists>t. chunk_text c = CHR ''{'' # t" "unmarshal dec_ChatCompletionChunk zeroChunk (chunk_text c) = Some c"
proof -
  show "no_control (chunk_text c)" unfolding chunk_text_def by (intro no_control_json_text enc_Chunk_text(1) assms)
  show "\<exists>t. chunk_text c = CHR ''{'' # t" by (simp add: chunk_text_def enc_ChatCompletionChunk_def)
  show "unmarshal dec_ChatCompletionChunk zeroChunk (chunk_text c) = Some c"
    using unmarshal_text [OF enc_Chunk_text(1) [OF assms], of "[]" dec_ChatCompletionChunk zeroChunk] enc_Chunk_text(2) [of c] dec_enc_Chunk [OF assms]
    by (simp add: chunk_text_def)
qed

lemma openai_events_framed:
  assumes "list_all chunk_ok cs"
  shows "openai_events up (framed (map chunk_text cs @ [''[DONE]''])) e = map ChunkEvent cs"
  using assms
proof (induction cs)
  case Nil
  show ?case by (simp add: framed_def HasPrefix_def TrimPrefix_def)
next
  case (Cons c cs)
  then obtain t where t: "chunk_text c = CHR ''{'' # t" using chunk_text_line(2) by auto
  have "unmarshal dec_ChatCompletionChunk zeroChunk (CHR ''{'' # t) = Some c" using Cons.prems chunk_text_line(3) [of c] t by simp
  moreover have "\<not> HasPrefix [] ''data: ''" by (simp add: HasPrefix_def)
  ultimately show ?case using Cons
    by (simp add: framed_def t HasPrefix_def TrimPrefix_def Let_def)
qed

lemma scan_lines_framed:
  assumes "list_all (\<lambda>d. no_control d \<and> length d + 6 < maxTokenSize) ds"
  shows "scan_lines \<lparr>bodyBytes = concat (map sse_event ds), bodyEnd = BodyEOF\<rparr> = (framed ds, None)"
proof -
  have raw: "raw_lines [] (concat (map sse_event ds)) = framed ds"
    unfolding framed_def using assms by (intro raw_lines_events) (auto simp: list_all_iff dest: no_control_newline)
  have short: "\<forall>l \<in> set (framed ds). length l < maxTokenSize"
    using assms by (auto simp: framed_def list_all_iff maxTokenSize_def)
  have "\<forall>l \<in> set (framed ds). drop_cr l = l"
  proof
    fix l
    assume "l \<in> set (framed ds)"
    then have "no_control l" using assms by (auto simp: framed_def list_all_iff)
    then show "drop_cr l = l" using no_control_newline [of l] by (auto simp: drop_cr_def dest: last_in_set)
  qed
  then have "map drop_cr (framed ds) = framed ds" by (simp add: map_idI)
  with short show ?thesis by (simp add: scan_lines_def raw takeWhile_eq_all_conv [THEN iffD2] Let_def)
qed

lemma sent_bytes_events: "concat (map op_bytes (concat (map (\<lambda>c. [SendBytes (f c), FlushNow]) cs))) = concat (map f cs)"
  by (induction cs) simp_all

lemma handleStream_chunks:
  assumes "ce_Stream env p req (world x) = ((Some (map ChunkEvent cs), None), ms, w)" "ce_flusher env" "\<not> ce_ctxDone env w"
  shows "handleStream env dflt r p req d x =
    (stream_head d @ concat (map (\<lambda>c. [SendBytes (sse_event (chunk_text c)), FlushNow]) cs) @ [SendBytes (sse_event ''[DONE]''), FlushNow],
     emit ms (x\<lparr>world := w\<rparr>))"
  using assms by (simp add: handleStream_def stream_loop_chunks stream_head_def Let_def)

lemma headers_first_stream:
  "headers_first False (stream_head d @ concat (map (\<lambda>c. [SendBytes (f c), FlushNow]) cs) @ [SendBytes b, FlushNow])"
proof (rule headers_first_Set)
  show "\<forall>op \<in> set (stream_head d). \<exists>k v. op = SetHeader k v" using setRoutingHeaders_Set [of d] by (auto simp: stream_head_def)
  have "headers_first st (concat (map (\<lambda>c. [SendBytes (f c), FlushNow]) cs) @ [SendBytes b, FlushNow])" for st
    by (induction cs arbitrary: st) simp_all
  then show "headers_first False (concat (map (\<lambda>c. [SendBytes (f c), FlushNow]) cs) @ [SendBytes b, FlushNow])" .
qed

lemma handleStream_body:
  assumes "ce_Stream env p req (world x) = ((Some (map ChunkEvent cs), None), ms, w)" "ce_flusher env" "\<not> ce_ctxDone env w"
  shows "body_of (fst (handleStream env dflt r p req d x)) = concat (map sse_event (map chunk_text cs @ [''[DONE]'']))"
proof -
  have "concat (map op_bytes (stream_head d)) = []" by (simp add: stream_head_def setRoutingHeaders_def)
  then show ?thesis
    using run_ops_body [OF headers_first_stream, of new_response d "\<lambda>c. sse_event (chunk_text c)" cs "sse_event ''[DONE]''"]
      handleStream_chunks [OF assms, of dflt r d]
    by (simp add: body_of_def new_response_def sent_bytes_events comp_def)
qed

text \<open>A stream that broke off is sent like one that ended: the closing event follows the chunks that came through.\<close>

lemma broken_stream_looks_complete:
  assumes "ce_Stream env p req (world x) = ((Some (map ChunkEvent cs @ ErrEvent e # evts), None), ms, w)" "ce_flusher env" "\<not> ce_ctxDone env w"
  shows "fst (handleStream env dflt r p req d x) =
    stream_head d @ concat (map (\<lambda>c. [SendBytes (sse_event (chunk_text c)), FlushNow]) cs) @ [SendBytes (sse_event ''[DONE]''), FlushNow]"
  using assms by (simp add: handleStream_def stream_loop_broken stream_head_def Let_def)

text \<open>
  C37. A stream survives the gateway: the bytes the handler sends for the chunks of a provider's stream, read by the adapter that reads such streams, are those
  chunks again and the stream's end, for chunks of UTF-8 text whose JSON stays below the reader's line limit.
\<close>

theorem stream_roundtrip:
  assumes "ce_Stream env p req (world x) = ((Some (map ChunkEvent cs), None), ms, w)" and "ce_flusher env" and "\<not> ce_ctxDone env w"
    and "list_all (\<lambda>c. chunk_ok c \<and> length (chunk_text c) + 6 < maxTokenSize) cs"
  shows "case scan_lines \<lparr>bodyBytes = body_of (fst (handleStream env dflt r p req d x)), bodyEnd = BodyEOF\<rparr> of
    (ls, scanErr) \<Rightarrow> openai_events up ls scanErr = map ChunkEvent cs"
proof -
  have "list_all (\<lambda>d. no_control d \<and> length d + 6 < maxTokenSize) (map chunk_text cs @ [''[DONE]''])"
    using assms(4) by (auto simp: list_all_iff chunk_text_line maxTokenSize_def)
  moreover have "list_all chunk_ok cs" using assms(4) by (simp add: list_all_iff)
  ultimately show ?thesis
    unfolding handleStream_body [OF assms(1-3)] by (simp only: scan_lines_framed openai_events_framed prod.case)
qed

lemmas text_simps = json_quote_def quote_chars_ascii quote_chars_Nil quote_ascii_def escapes_def

theorem stream_roundtrip_witness:
  "case scan_lines \<lparr>bodyBytes = body_of (fst (handleStream sample_env \<lparr>loggerLevel = LevelInfo, loggerAttrs = []\<rparr> sample_request
       \<lparr>refName = ''openai'', refHealth = None\<rparr> zeroRequest sample_decision \<lparr>info = None, emitted = [], logged = [], world = ()\<rparr>)), bodyEnd = BodyEOF\<rparr> of
     (ls, scanErr) \<Rightarrow> openai_events
       \<lparr>up_Do = (\<lambda>rq w. (Inl (ErrText []), w)), up_urlError = (\<lambda>u. None), up_now = (\<lambda>w. 0), up_random = (\<lambda>n w. ([], w)), up_RFC1123 = (\<lambda>s. None),
        up_jsonMsg = (\<lambda>s. [])\<rparr> ls scanErr = map ChunkEvent [zeroChunk]"
proof (rule stream_roundtrip)
  show "ce_Stream sample_env \<lparr>refName = ''openai'', refHealth = None\<rparr> zeroRequest (world \<lparr>info = None, emitted = [], logged = [], world = ()\<rparr>) =
      ((Some (map ChunkEvent [zeroChunk]), None), [], ())" "ce_flusher sample_env" "\<not> ce_ctxDone sample_env ()"
    by (simp_all add: sample_env_def)
  have i: "Itoa 0 = ''0''" by code_simp
  show "list_all (\<lambda>c. chunk_ok c \<and> length (chunk_text c) + 6 < maxTokenSize) [zeroChunk]"
    by (simp add: chunk_text_def zeroChunk_def enc_ChatCompletionChunk_def enc_slice_def omitempty_def enc_int_def i text_simps maxTokenSize_def
        zero_ok(7) [unfolded zeroChunk_def])
qed

section \<open>Outcomes\<close>

lemma stream_loop_no_Block: "stream_loop lg name evts x = (ops, x') \<Longrightarrow> Block \<notin> set ops \<and> world x' = world x"
  by (induction lg name evts x arbitrary: ops x' rule: stream_loop.induct) (auto split: prod.splits)

lemma no_Block: "Block \<notin> set (setRoutingHeaders d)" "Block \<notin> set (apierr_Write a b c e)"
  by (simp_all add: setRoutingHeaders_def apierr_Write_def)


lemma json_reply:
  assumes "\<forall>op \<in> set hs. \<exists>k v. op = SetHeader k v"
  shows "status_of (hs @ [SendBytes b]) = Some 200 \<and> body_of (hs @ [SendBytes b]) = b"
  using SetHeaders_fresh [OF assms, of new_response]
  by (auto simp: status_of_def body_of_def run_ops_Cons new_response_def Write_bytes_fresh)

lemma reply_head_Set: "\<forall>op \<in> set (reply_head d). \<exists>k v. op = SetHeader k v"
  using setRoutingHeaders_Set [of d] by (simp add: reply_head_def)

lemma handleNonStream_ok:
  assumes "ce_Chat env p req (world x) = ((Some resp, None), ms, w)"
  shows "handleNonStream env p req d x = (reply_head d @ [SendBytes (encoder_text (enc_ChatCompletionResponse resp))],
    SetTokens (PromptTokens (respUsage resp)) (CompletionTokens (respUsage resp)) (emit ms (x\<lparr>world := w\<rparr>)))"
  using assms by (simp add: handleNonStream_def reply_head_def)

lemma writeRouterError_status: "status_of (writeRouterError isPrint m e) = Some (routing_status e)"
  by (simp add: writeRouterError_def routing_status_def status_apierr final_code_def)


section \<open>Token accounting\<close>

lemma fold_messages: "fold_name ''messages'' = ''MESSAGES''"
  by code_simp


lemma parsed_usage_response:
  assumes "response_ok resp"
  shows "parsed_usage (encoder_text (enc_ChatCompletionResponse resp)) = Some (respUsage resp)"
proof -
  have u: "usage_ok (respUsage resp)" using assms by (simp add: response_ok_def)
  have "parsed_usage (encoder_text (enc_ChatCompletionResponse resp)) =
      dec_struct (\<lambda>k v u. if k = ''USAGE'' then dec_Usage v u else Some u) (enc_ChatCompletionResponse resp) zeroUsage"
    unfolding parsed_usage_def encoder_text_def
    by (rule unmarshal_text) (use enc_Response_text [of resp] assms in \<open>simp_all add: is_space_def\<close>)
  also have "\<dots> = Some (respUsage resp)"
    by (simp add: enc_ChatCompletionResponse_def codec_simps dec_enc_Usage [OF u] del: fold_name.simps)
  finally show ?thesis .
qed

lemma routing_keys:
  "CanonicalMIMEHeaderKey ''X-LLM-Gateway-Provider'' \<noteq> ''Content-Type''" "CanonicalMIMEHeaderKey ''X-LLM-Gateway-Strategy'' \<noteq> ''Content-Type''"
  "CanonicalMIMEHeaderKey ''X-LLM-Gateway-Attempts'' \<noteq> ''Content-Type''" "CanonicalMIMEHeaderKey ''X-LLM-Gateway-Group'' \<noteq> ''Content-Type''"
  "CanonicalMIMEHeaderKey ''Content-Type'' = ''Content-Type''"
  by code_simp+

lemma capture_append: "capture (xs @ ys) cw = (let (cw1, a) = capture xs cw; (cw2, b) = capture ys cw1 in (cw2, a @ b))"
  by (induction xs arbitrary: cw) (simp_all add: Let_def split: prod.splits)

lemma capture_reply:
  assumes "length b \<le> captureBodyLimit" "b \<noteq> []"
  shows "fst (capture (reply_head d @ [SendBytes b]) newCapture) =
    \<lparr>cwType = ''application/json'', cwStatus = 200, wroteHeader = True, cwMode = modeBuffer, cwBuf = b, exceededLimit = False\<rparr>"
proof -
  have "fst (capture (reply_head d) newCapture) = newCapture\<lparr>cwType := ''application/json''\<rparr>"
    by (simp add: reply_head_def setRoutingHeaders_def cw_Set_def routing_keys newCapture_def)
  moreover have "fst (capture [SendBytes b] (newCapture\<lparr>cwType := ''application/json''\<rparr>)) =
      \<lparr>cwType = ''application/json'', cwStatus = 200, wroteHeader = True, cwMode = modeBuffer, cwBuf = b, exceededLimit = False\<rparr>"
    using assms by (simp add: cw_Write_def cw_WriteHeader_def decideMode_def newCapture_def HasPrefix_def)
  ultimately show ?thesis by (auto simp: capture_append split: prod.splits)
qed



end
