(* ===== verification/Go_Time.thy ===== *)
theory Go_Time
  imports Json_Codec
begin

text \<open>
  How \<^verbatim>\<open>time.Time\<close> moves in and out of JSON: \<^verbatim>\<open>Time.UnmarshalJSON\<close> reads RFC 3339 with the leniency of \<^verbatim>\<open>time.Parse\<close>, \<^verbatim>\<open>Time.MarshalJSON\<close> writes it
  in the zone of the value and refuses years beyond four digits and zones of a day or more. An instant counts nanoseconds from the first of January of the
  year 1, the zero of \<^verbatim>\<open>time.Time\<close>. The offset of the local zone is an argument. A timestamp is read after the escapes of its JSON string, which none needs.
\<close>

section \<open>The calendar\<close>

definition leap_year :: "int \<Rightarrow> bool" where
  "leap_year y \<longleftrightarrow> y mod 4 = 0 \<and> (y mod 100 \<noteq> 0 \<or> y mod 400 = 0)"

text \<open>Days from the first of January of the year 0 to that of the year, and from that to the first of the month.\<close>

definition days_to_year :: "int \<Rightarrow> int" where
  "days_to_year y = 365 * y + (y + 3) div 4 - (y + 99) div 100 + (y + 399) div 400"

definition month_lengths :: "bool \<Rightarrow> int list" where
  "month_lengths leap = [31, if leap then 29 else 28, 31, 30, 31, 30, 31, 31, 30, 31, 30, 31]"

definition days_to_month :: "bool \<Rightarrow> int \<Rightarrow> int" where
  "days_to_month leap m = sum_list (take (nat (m - 1)) (month_lengths leap))"

definition days_in :: "int \<Rightarrow> int \<Rightarrow> int" where
  "days_in m y = month_lengths (leap_year y) ! nat (m - 1)"

definition day_number :: "int \<Rightarrow> int \<Rightarrow> int \<Rightarrow> int" where
  "day_number y m d = days_to_year y + days_to_month (leap_year y) m + (d - 1) - days_to_year 1"

fun month_day :: "int \<Rightarrow> int list \<Rightarrow> int \<Rightarrow> int \<times> int" where
  "month_day m [] n = (m, n + 1)"
| "month_day m (l # ls) n = (if n < l then (m, n + 1) else month_day (m + 1) ls (n - l))"

definition year_of_day :: "int \<Rightarrow> int" where
  "year_of_day n = (let y = n * 400 div 146097 in if n < days_to_year y then y - 1 else if days_to_year (y + 1) \<le> n then y + 1 else y)"

definition date_of :: "int \<Rightarrow> int \<times> int \<times> int" where
  "date_of day =
     (let n = day + days_to_year 1; y = year_of_day n; (m, d) = month_day 1 (month_lengths (leap_year y)) (n - days_to_year y) in (y, m, d))"

section \<open>Writing\<close>

definition appendInt :: "nat \<Rightarrow> int \<Rightarrow> string" where
  "appendInt width n = (let ds = nat_digits (nat \<bar>n\<bar>) in (if n < 0 then ''-'' else []) @ replicate (width - length ds) CHR ''0'' @ ds)"

definition fraction_text :: "int \<Rightarrow> string" where
  "fraction_text ns = (if ns = 0 then [] else CHR ''.'' # rev (dropWhile (\<lambda>c. c = CHR ''0'') (rev (appendInt 9 ns))))"

definition zone_text :: "int \<Rightarrow> string" where
  "zone_text offset = (if offset = 0 then ''Z''
     else let mins = \<bar>offset\<bar> div 60 in (if offset < 0 \<and> mins \<noteq> 0 then ''-'' else ''+'') @ appendInt 2 (mins div 60) @ '':'' @ appendInt 2 (mins mod 60))"

definition Format_RFC3339Nano :: "int \<Rightarrow> instant \<Rightarrow> string" where
  "Format_RFC3339Nano offset t =
     (let u = t + offset * nanosPerSecond; secs = u div nanosPerSecond; (y, m, d) = date_of (secs div 86400); s = secs mod 86400
      in appendInt 4 y @ ''-'' @ appendInt 2 m @ ''-'' @ appendInt 2 d @ ''T'' @ appendInt 2 (s div 3600) @ '':'' @ appendInt 2 (s div 60 mod 60) @ '':'' @
         appendInt 2 (s mod 60) @ fraction_text (u mod nanosPerSecond) @ zone_text offset)"

definition enc_time :: "(instant \<Rightarrow> int) \<Rightarrow> instant \<Rightarrow> json option" where
  "enc_time zone t =
     (let offset = zone t; s = Format_RFC3339Nano offset t; (y, m, d) = date_of ((t + offset * nanosPerSecond) div nanosPerSecond div 86400)
      in if y < 0 \<or> 9999 < y \<or> 24 \<le> \<bar>offset\<bar> div 60 div 60 then None else Some (JStr s))"

section \<open>Reading\<close>

definition digit_at :: "string \<Rightarrow> nat \<Rightarrow> bool" where
  "digit_at s i \<longleftrightarrow> i < length s \<and> is_digit (s ! i)"

definition digit_of :: "char \<Rightarrow> int" where
  "digit_of c = int (of_char c - 48)"

definition getnum :: "bool \<Rightarrow> string \<Rightarrow> (int \<times> string) option" where
  "getnum fixed s =
     (if \<not> digit_at s 0 then None
      else if \<not> digit_at s 1 then (if fixed then None else Some (digit_of (s ! 0), drop 1 s))
      else Some (digit_of (s ! 0) * 10 + digit_of (s ! 1), drop 2 s))"

definition skip_text :: "string \<Rightarrow> string \<Rightarrow> string option" where
  "skip_text p s = (if HasPrefix s p then Some (drop (length p) s) else None)"

text \<open>The fraction of a second: a period or comma and digits, of which nine count.\<close>

definition read_fraction :: "string \<Rightarrow> int \<times> string" where
  "read_fraction s =
     (if 2 \<le> length s \<and> (hd s = CHR ''.'' \<or> hd s = CHR '','') \<and> digit_at s 1 then
        (let ds = takeWhile is_digit (drop 1 s); ds9 = take 9 ds
         in (digits_value ds9 * 10 ^ (9 - length ds9), drop (length ds) (drop 1 s)))
      else (0, s))"

definition read_zone :: "string \<Rightarrow> (int \<times> string) option" where
  "read_zone s =
     (if take 1 s = ''Z'' then Some (0, drop 1 s)
      else if length s < 6 \<or> s ! 3 \<noteq> CHR '':'' then None
      else case (getnum True (take 2 (drop 1 s)), getnum True (take 2 (drop 4 s))) of
          (Some (hr, _), Some (mm, _)) \<Rightarrow>
            if 24 < hr \<or> 60 < mm then None
            else if hd s = CHR ''+'' then Some ((hr * 60 + mm) * 60, drop 6 s)
            else if hd s = CHR ''-'' then Some (- ((hr * 60 + mm) * 60), drop 6 s)
            else None
        | _ \<Rightarrow> None)"

definition Parse_RFC3339 :: "string \<Rightarrow> instant option" where
  "Parse_RFC3339 s =
     (if \<not> list_all (digit_at s) [0, 1, 2, 3] then None else
      let y = digits_value (take 4 s) in
      case Option.bind (skip_text ''-'' (drop 4 s)) (getnum True) of None \<Rightarrow> None | Some (m, s) \<Rightarrow>
      case Option.bind (skip_text ''-'' s) (getnum True) of None \<Rightarrow> None | Some (d, s) \<Rightarrow>
      case Option.bind (skip_text ''T'' s) (getnum False) of None \<Rightarrow> None | Some (h, s) \<Rightarrow>
      case Option.bind (skip_text '':'' s) (getnum True) of None \<Rightarrow> None | Some (mi, s) \<Rightarrow>
      case Option.bind (skip_text '':'' s) (getnum True) of None \<Rightarrow> None | Some (sec, s) \<Rightarrow>
      (let (ns, s) = read_fraction s in
       case read_zone s of None \<Rightarrow> None | Some (offset, s) \<Rightarrow>
         if s \<noteq> [] \<or> m < 1 \<or> 12 < m \<or> d < 1 \<or> days_in m y < d \<or> 24 \<le> h \<or> 60 \<le> mi \<or> 60 \<le> sec then None
         else Some (((day_number y m d * 86400 + h * 3600 + mi * 60 + sec) - offset) * nanosPerSecond + ns)))"

definition dec_time :: "instant decoder" where
  "dec_time j x = (case j of JStr s \<Rightarrow> Parse_RFC3339 s | JNull \<Rightarrow> Some x | _ \<Rightarrow> None)"

section \<open>Lemmas on the calendar\<close>

lemma next_multiple: "0 < (k :: int) \<Longrightarrow> j = k - 1 \<Longrightarrow> (y + k) div k = (y + j) div k + (if y mod k = 0 then 1 else 0)"
proof -
  assume k: "0 < k" and j: "j = k - 1"
  have y: "y = k * (y div k) + y mod k" by simp
  have r: "0 \<le> y mod k" "y mod k < k" using k by simp_all
  have "(y + (k - 1)) div k = y div k + (y mod k + (k - 1)) div k"
    using div_mult_self1 [of k "y mod k + (k - 1)" "y div k"] k y by (simp add: algebra_simps)
  moreover have "(y mod k + (k - 1)) div k = (if y mod k = 0 then 0 else 1)"
  proof (cases "y mod k = 0")
    case False
    have "(y mod k + (k - 1)) div k = ((y mod k - 1) + k) div k" by (simp add: algebra_simps)
    also have "\<dots> = (y mod k - 1) div k + 1" using k by simp
    also have "(y mod k - 1) div k = 0" using False r by (intro div_pos_pos_trivial) linarith+
    finally show ?thesis using False by simp
  qed (use k in simp)
  ultimately show ?thesis using k j by simp
qed

lemma leap_days:
  fixes a b c :: bool
  shows "(b \<longrightarrow> a) \<Longrightarrow> (c \<longrightarrow> b) \<Longrightarrow>
    365 + (if a then 1 else 0) - (if b then 1 else 0) + (if c then 1 else 0 :: int) = (if a \<and> (\<not> b \<or> c) then 366 else 365)"
  by (cases a; cases b; cases c) simp_all

lemma days_to_next_year: "days_to_year (y + 1) = days_to_year y + sum_list (month_lengths (leap_year y))"
proof -
  have d: "y mod 100 = 0 \<longrightarrow> y mod 4 = 0" "y mod 400 = 0 \<longrightarrow> y mod 100 = 0"
    using dvd_trans [of 4 100 y] dvd_trans [of 100 400 y] by (simp_all add: mod_eq_0_iff_dvd)
  have n: "(y + 4) div 4 = (y + 3) div 4 + (if y mod 4 = 0 then 1 else 0)" "(y + 100) div 100 = (y + 99) div 100 + (if y mod 100 = 0 then 1 else 0)"
    "(y + 400) div 400 = (y + 399) div 400 + (if y mod 400 = 0 then 1 else 0)"
    by (rule next_multiple, simp, simp)+
  have "days_to_year (y + 1) = 365 * y + 365 + (y + 4) div 4 - (y + 100) div 100 + (y + 400) div 400"
    by (simp add: days_to_year_def)
  also have "\<dots> = days_to_year y + (365 + (if y mod 4 = 0 then 1 else 0) - (if y mod 100 = 0 then 1 else 0) + (if y mod 400 = 0 then 1 else 0))"
    by (simp only: n days_to_year_def)
  also have "365 + (if y mod 4 = 0 then 1 else 0) - (if y mod 100 = 0 then 1 else 0) + (if y mod 400 = 0 then 1 else (0 :: int)) =
      (if leap_year y then 366 else 365)"
    unfolding leap_year_def by (rule leap_days [OF d])
  also have "\<dots> = sum_list (month_lengths (leap_year y))" by (simp add: month_lengths_def)
  finally show ?thesis .
qed

lemma days_to_year_bounds: "146097 * y - 396 \<le> 400 * days_to_year y" "400 * days_to_year y \<le> 146097 * y + 699"
proof -
  have d: "k * (x div k) \<le> x \<and> x < k * (x div k) + k" if "0 < k" for k x :: int
    using that by (metis mult_div_mod_eq pos_mod_bound pos_mod_sign add_strict_left_mono le_add_same_cancel1)
  show "146097 * y - 396 \<le> 400 * days_to_year y" "400 * days_to_year y \<le> 146097 * y + 699"
    using d [of 4 "y + 3"] d [of 100 "y + 99"] d [of 400 "y + 399"] by (auto simp: days_to_year_def)
qed

lemma year_of_day_bounds: "days_to_year (year_of_day n) \<le> n \<and> n < days_to_year (year_of_day n + 1)"
proof -
  define y where "y = n * 400 div 146097"
  have y: "146097 * y \<le> 400 * n" "400 * n < 146097 * y + 146097"
    using mult_div_mod_eq [of 146097 "n * 400"] pos_mod_bound [of 146097 "n * 400"] pos_mod_sign [of 146097 "n * 400"] by (auto simp: y_def)
  have "days_to_year (y - 1) \<le> n" using y days_to_year_bounds(2) [of "y - 1"] by (simp add: algebra_simps)
  moreover have "n < days_to_year (y + 2)" using y days_to_year_bounds(1) [of "y + 2"] by (simp add: algebra_simps)
  ultimately show ?thesis by (auto simp: year_of_day_def Let_def y_def [symmetric] ac_simps)
qed

lemma month_day_bounds:
  "month_day k ls n = (m, d) \<Longrightarrow> 0 \<le> n \<Longrightarrow> n < sum_list ls \<Longrightarrow>
     \<exists>i < length ls. m = k + int i \<and> 1 \<le> d \<and> d \<le> ls ! i \<and> n = sum_list (take i ls) + (d - 1)"
proof (induction k ls n rule: month_day.induct)
  case (2 k l ls n)
  show ?case
  proof (cases "n < l")
    case True
    with 2 show ?thesis by (intro exI [of _ 0]) auto
  next
    case False
    then obtain i where "i < length ls" "m = k + 1 + int i" "1 \<le> d" "d \<le> ls ! i" "n - l = sum_list (take i ls) + (d - 1)"
      using "2.IH" "2.prems" by auto
    then show ?thesis by (intro exI [of _ "Suc i"]) auto
  qed
qed simp

lemma date_of_day:
  assumes "date_of day = (y, m, d)"
  shows "day_number y m d = day" "1 \<le> m" "m \<le> 12" "1 \<le> d" "d \<le> days_in m y"
proof -
  define n where "n = day + days_to_year 1"
  have y: "y = year_of_day n" and md: "month_day 1 (month_lengths (leap_year y)) (n - days_to_year y) = (m, d)"
    using assms by (auto simp: date_of_def n_def Let_def split: prod.splits)
  have "0 \<le> n - days_to_year y" "n - days_to_year y < sum_list (month_lengths (leap_year y))"
    using year_of_day_bounds [of n] days_to_next_year [of y] y by auto
  from month_day_bounds [OF md this] obtain i where i: "i < 12" "m = 1 + int i" "1 \<le> d" "d \<le> month_lengths (leap_year y) ! i"
    "n - days_to_year y = sum_list (take i (month_lengths (leap_year y))) + (d - 1)" by (auto simp: month_lengths_def)
  then show "day_number y m d = day" "1 \<le> m" "m \<le> 12" "1 \<le> d" "d \<le> days_in m y"
    by (simp_all add: day_number_def days_to_month_def days_in_def n_def)
qed

section \<open>Lemmas on timestamps\<close>

lemma of_char_digit: "0 \<le> n \<Longrightarrow> n < 10 \<Longrightarrow> digit_of (digit_char (nat n)) = n"
  by (simp add: digit_of_def of_char_digit_char)

lemma nat_digits_two: "n < 10 \<Longrightarrow> nat_digits n = [digit_char n]" "10 \<le> n \<Longrightarrow> nat_digits n = nat_digits (n div 10) @ [digit_char (n mod 10)]"
  by (simp_all add: nat_digits.simps)

lemma digit_char_0 [simp]: "digit_char 0 = CHR ''0''"
  by code_simp

lemma appendInt_Suc:
  assumes "0 \<le> n" "n < 10 ^ Suc w"
  shows "appendInt (Suc w) n = (if w = 0 then [] else appendInt w (n div 10)) @ [digit_char (nat (n mod 10))]"
proof (cases "n < 10")
  case True
  then have "n div 10 = 0" "n mod 10 = n" using assms(1) by auto
  moreover have "w \<noteq> 0 \<Longrightarrow> replicate w CHR ''0'' = replicate (w - 1) CHR ''0'' @ [CHR ''0'']"
    by (cases w) (simp_all add: replicate_append_same)
  ultimately show ?thesis using assms(1) True by (simp add: appendInt_def nat_digits_two)
next
  case False
  then have w: "w \<noteq> 0" using assms(2) by (intro notI) simp
  have "nat n div 10 = nat (n div 10)" "nat n mod 10 = nat (n mod 10)" using assms(1) by (simp_all add: nat_div_distrib nat_mod_distrib)
  then show ?thesis using False w assms(1) by (simp add: appendInt_def nat_digits_two(2) [of "nat n"] Let_def)
qed

lemma digits_value_snoc: "digits_value (ds @ [c]) = digits_value ds * 10 + digit_of c"
  by (simp add: digits_value_def digit_of_def)

lemma digits_value_zeros: "digits_value (ds @ replicate k CHR ''0'') = digits_value ds * 10 ^ k"
proof (induction k)
  case (Suc k)
  have "ds @ replicate (Suc k) CHR ''0'' = (ds @ replicate k CHR ''0'') @ [CHR ''0'']" by (simp add: replicate_append_same)
  then show ?case using Suc by (simp add: digits_value_snoc digit_of_def del: append_assoc)
qed simp

lemma appendInt_digits:
  "0 \<le> n \<Longrightarrow> n < 10 ^ Suc w \<Longrightarrow>
     length (appendInt (Suc w) n) = Suc w \<and> list_all is_digit (appendInt (Suc w) n) \<and> digits_value (appendInt (Suc w) n) = n"
proof (induction w arbitrary: n)
  case 0
  then show ?case by (simp add: appendInt_Suc digits_value_def of_char_digit_char)
next
  case (Suc w)
  have "0 \<le> n div 10" "n div 10 < 10 ^ Suc w" using Suc.prems by (simp_all add: pos_imp_zdiv_nonneg_iff div_less_iff_less_mult)
  from Suc.IH [OF this] show ?case
    using Suc.prems by (simp add: appendInt_Suc [OF Suc.prems] digits_value_snoc of_char_digit)
qed

lemma appendInt_2:
  assumes "0 \<le> n" "n < 100"
  obtains a b where "appendInt 2 n = [a, b]" "is_digit a" "is_digit b" "digit_of a * 10 + digit_of b = n"
proof -
  have "length (appendInt 2 n) = 2" "list_all is_digit (appendInt 2 n)" "digits_value (appendInt 2 n) = n"
    using appendInt_digits [of n 1] assms by (simp_all add: numeral_2_eq_2)
  moreover from this(1) obtain a b where "appendInt 2 n = [a, b]" by (auto simp: numeral_2_eq_2 length_Suc_conv)
  ultimately show thesis using that by (simp add: digits_value_def digit_of_def)
qed

lemma getnum_appendInt [simp]: "0 \<le> n \<Longrightarrow> n < 100 \<Longrightarrow> getnum fixed (appendInt 2 n @ s) = Some (n, s)"
  by (erule (1) appendInt_2) (simp add: getnum_def digit_at_def)

lemma take_appendInt_4:
  assumes "0 \<le> y" "y < 10000"
  shows "list_all (digit_at (appendInt 4 y @ s)) [0, 1, 2, 3]" "take 4 (appendInt 4 y @ s) = appendInt 4 y" "drop 4 (appendInt 4 y @ s) = s"
    "digits_value (appendInt 4 y) = y" "length (appendInt 4 y) = 4"
proof -
  have a: "length (appendInt 4 y) = 4" "list_all is_digit (appendInt 4 y)" and v: "digits_value (appendInt 4 y) = y"
    using appendInt_digits [of y 3] assms by (simp_all add: numeral_eq_Suc)
  from a show "list_all (digit_at (appendInt 4 y @ s)) [0, 1, 2, 3]"
    by (simp add: digit_at_def nth_append list_all_iff)
  show "take 4 (appendInt 4 y @ s) = appendInt 4 y" "drop 4 (appendInt 4 y @ s) = s" using a(1) by simp_all
  show "digits_value (appendInt 4 y) = y" "length (appendInt 4 y) = 4" by (rule v, rule a(1))
qed

lemma read_fraction_text:
  assumes "0 \<le> ns" "ns < 10 ^ 9" "s \<noteq> []" "hd s \<in> {CHR ''Z'', CHR ''+'', CHR ''-''}"
  shows "read_fraction (fraction_text ns @ s) = (ns, s)"
proof (cases "ns = 0")
  case True
  with assms(3,4) show ?thesis by (auto simp: fraction_text_def read_fraction_def)
next
  case False
  define as where "as = appendInt 9 ns"
  define ds where "ds = rev (dropWhile (\<lambda>c. c = CHR ''0'') (rev as))"
  have as: "length as = 9" "list_all is_digit as" "digits_value as = ns"
    using appendInt_digits [of ns 8] assms(1,2) by (simp_all add: as_def)
  have split: "as = ds @ replicate (9 - length ds) CHR ''0''"
  proof -
    have "rev as = takeWhile (\<lambda>c. c = CHR ''0'') (rev as) @ rev ds" by (simp add: ds_def)
    moreover have "takeWhile (\<lambda>c. c = CHR ''0'') (rev as) = replicate (length (takeWhile (\<lambda>c. c = CHR ''0'') (rev as))) CHR ''0''"
      by (induction as rule: rev_induct) auto
    ultimately have "as = ds @ replicate (length (takeWhile (\<lambda>c. c = CHR ''0'') (rev as))) CHR ''0''"
      by (metis rev_append rev_replicate rev_rev_ident)
    then show ?thesis using as(1) by (metis add_diff_cancel_left' length_append length_replicate)
  qed
  have le: "length ds \<le> 9" using split as(1) by (metis length_append le_add1)
  have v: "digits_value ds * 10 ^ (9 - length ds) = ns" using as(3) by (subst (asm) split) (simp only: digits_value_zeros)
  then have ne: "ds \<noteq> []" using False by (auto simp: digits_value_def)
  have dig: "list_all is_digit ds" using as(2) by (subst (asm) split) simp
  have tw: "takeWhile is_digit (ds @ s) = ds"
    using dig assms(3,4) by (cases s) (auto simp: takeWhile_append2 list_all_iff is_digit_def)
  have "digit_at (CHR ''.'' # ds @ s) 1" using ne dig by (cases ds) (simp_all add: digit_at_def)
  then show ?thesis using False ne tw le v by (cases ds) (simp_all add: fraction_text_def read_fraction_def as_def [symmetric] ds_def [symmetric] Let_def)
qed

lemma read_zone_text:
  assumes "\<bar>offset\<bar> < 86400" "offset mod 60 = 0"
  shows "read_zone (zone_text offset) = Some (offset, [])" "zone_text offset \<noteq> []" "hd (zone_text offset) \<in> {CHR ''Z'', CHR ''+'', CHR ''-''}"
proof -
  define q where "q = \<bar>offset\<bar> div 60"
  have q: "\<bar>offset\<bar> = q * 60" using assms(2) by (auto simp: q_def abs_if zmod_zminus1_eq_if)
  then have r: "0 \<le> q div 60" "q div 60 < 24" "0 \<le> q mod 60" "q mod 60 < 60" using assms(1) by (auto simp: div_less_iff_less_mult)
  obtain a b where h: "appendInt 2 (q div 60) = [a, b]" "is_digit a" "is_digit b" "digit_of a * 10 + digit_of b = q div 60"
    by (rule appendInt_2 [of "q div 60"]) (use r in auto)
  obtain c d where m: "appendInt 2 (q mod 60) = [c, d]" "is_digit c" "is_digit d" "digit_of c * 10 + digit_of d = q mod 60"
    by (rule appendInt_2 [of "q mod 60"]) (use r in auto)
  have v: "(q div 60 * 60 + q mod 60) * 60 = \<bar>offset\<bar>" using q by simp
  show "read_zone (zone_text offset) = Some (offset, [])"
  proof (cases "offset = 0")
    case False
    then have "q \<noteq> 0" using q by auto
    with False h m r v show ?thesis
      by (auto simp: zone_text_def read_zone_def q_def [symmetric] getnum_def digit_at_def Let_def)
  qed (simp add: zone_text_def read_zone_def)
  show "zone_text offset \<noteq> []" "hd (zone_text offset) \<in> {CHR ''Z'', CHR ''+'', CHR ''-''}" by (auto simp: zone_text_def Let_def)
qed

text \<open>What \<^verbatim>\<open>MarshalJSON\<close> writes, \<^verbatim>\<open>UnmarshalJSON\<close> reads back to the nanosecond.\<close>

lemma skip_text_char [simp]: "skip_text [c] (c # s) = Some s"
  by (simp add: skip_text_def HasPrefix_def)

lemma Parse_fields:
  assumes "0 \<le> y" "y \<le> 9999" "1 \<le> m" "m \<le> 12" "1 \<le> d" "d \<le> days_in m y" "0 \<le> h" "h < 24" "0 \<le> mi" "mi < 60" "0 \<le> sec" "sec < 60"
    "0 \<le> ns" "ns < 10 ^ 9" "\<bar>offset\<bar> < 86400" "offset mod 60 = 0" "d < 100"
  shows "Parse_RFC3339 (appendInt 4 y @ ''-'' @ appendInt 2 m @ ''-'' @ appendInt 2 d @ ''T'' @ appendInt 2 h @ '':'' @ appendInt 2 mi @ '':'' @
      appendInt 2 sec @ fraction_text ns @ zone_text offset) =
    Some (((day_number y m d * 86400 + h * 3600 + mi * 60 + sec) - offset) * nanosPerSecond + ns)"
proof -
  note Z = read_zone_text [OF assms(15,16)]
  have f: "read_fraction (fraction_text ns @ zone_text offset) = (ns, zone_text offset)"
    by (rule read_fraction_text [OF assms(13,14) Z(2,3)])
  have y: "y < 10000" and two: "0 \<le> m" "m < 100" "0 \<le> d" "h < 100" "mi < 100" "sec < 100" using assms by simp_all
  show ?thesis
    using assms by (simp add: Parse_RFC3339_def take_appendInt_4(1) [OF assms(1) y, simplified] take_appendInt_4(4,5) [OF assms(1) y]
      two f Z(1) Let_def)
qed

lemma days_in_le: "1 \<le> m \<Longrightarrow> m \<le> 12 \<Longrightarrow> days_in m y < 100"
proof -
  assume "1 \<le> m" "m \<le> 12"
  then have "nat (m - 1) < length (month_lengths (leap_year y))" by (simp add: month_lengths_def)
  then have "days_in m y \<in> set (month_lengths (leap_year y))" unfolding days_in_def by (rule nth_mem)
  then show ?thesis by (auto simp: month_lengths_def split: if_splits)
qed

lemma Parse_Format:
  assumes "date_of ((t + offset * nanosPerSecond) div nanosPerSecond div 86400) = (y, m, d)" "0 \<le> y" "y \<le> 9999"
    and "\<bar>offset\<bar> < 86400" "offset mod 60 = 0"
  shows "Parse_RFC3339 (Format_RFC3339Nano offset t) = Some t"
proof -
  define u where "u = t + offset * nanosPerSecond"
  define secs where "secs = u div nanosPerSecond"
  define s where "s = secs mod 86400"
  note D = date_of_day [OF assms(1)]
  have s: "0 \<le> s" "s < 86400" by (simp_all add: s_def)
  have b: "0 \<le> s div 3600" "s div 3600 < 24" "0 \<le> s div 60 mod 60" "s div 60 mod 60 < 60" "0 \<le> s mod 60" "s mod 60 < 60"
    using s by (auto simp: div_less_iff_less_mult)
  have n: "0 \<le> u mod nanosPerSecond" "u mod nanosPerSecond < 10 ^ 9" by (simp_all add: nanosPerSecond_def)
  have hms: "s div 3600 * 3600 + s div 60 mod 60 * 60 + s mod 60 = s"
  proof -
    have "s div 3600 = s div 60 div 60" using zdiv_zmult2_eq [of 60 s 60] by simp
    moreover have "60 * (s div 60 div 60) + s div 60 mod 60 = s div 60" "60 * (s div 60) + s mod 60 = s" by (rule mult_div_mod_eq)+
    ultimately show ?thesis by linarith
  qed
  have "Parse_RFC3339 (Format_RFC3339Nano offset t) =
      Some (((day_number y m d * 86400 + s div 3600 * 3600 + s div 60 mod 60 * 60 + s mod 60) - offset) * nanosPerSecond + u mod nanosPerSecond)"
    using Parse_fields [OF assms(2,3) D(2-5) b n assms(4,5)] days_in_le [OF D(2,3), of y] D(5) assms(1)
    by (simp add: Format_RFC3339Nano_def Let_def u_def [symmetric] secs_def [symmetric] s_def [symmetric])
  also have "day_number y m d * 86400 + s div 3600 * 3600 + s div 60 mod 60 * 60 + s mod 60 = secs"
  proof -
    have "day_number y m d = secs div 86400" using D(1) by (simp add: u_def secs_def)
    moreover have "86400 * (secs div 86400) + s = secs" unfolding s_def by (rule mult_div_mod_eq)
    ultimately show ?thesis using hms by linarith
  qed
  also have "(secs - offset) * nanosPerSecond + u mod nanosPerSecond = t"
    using mult_div_mod_eq [of nanosPerSecond u] by (simp add: secs_def u_def algebra_simps)
  finally show ?thesis .
qed

lemma dec_enc_time:
  assumes "enc_time zone t = Some j" "\<And>t. zone t mod 60 = 0" "\<And>t. \<bar>zone t\<bar> < 86400"
  shows "dec_time j x = Some t"
  using assms Parse_Format [of t "zone t"] by (auto simp: enc_time_def dec_time_def Let_def split: prod.splits if_splits)

lemma enc_time_text: "enc_time zone t = Some j \<Longrightarrow> j = JStr (Format_RFC3339Nano (zone t) t)"
  by (simp add: enc_time_def Let_def split: prod.splits if_splits)

end
