(* ===== verification/Info_Handlers.thy ===== *)
theory Info_Handlers
  imports Chat_Handler Go_Time
begin

text \<open>
  The handlers that report: \<^verbatim>\<open>internal/handler/health.go\<close> and \<^verbatim>\<open>models.go\<close>. The map of providers is an association list whose order is the order a
  \<^verbatim>\<open>range\<close> happens to take; a provider is how its breaker is found in the world, and \<open>now\<close> the clock its snapshot is taken by. \<^verbatim>\<open>encoding/json\<close> writes
  the keys of a map in order.
\<close>

section \<open>Liveness probe\<close>

definition enc_map :: "(string \<times> json) list \<Rightarrow> json" where
  "enc_map kvs = JObj (sort_key fst kvs)"

definition json_response :: "json option \<Rightarrow> writer_op list" where
  "json_response j = SetHeader ''Content-Type'' ''application/json'' # (case j of Some j \<Rightarrow> [SendBytes (encoder_text j)] | None \<Rightarrow> [])"

definition HandleHealth :: "'w handler" where
  "HandleHealth r x = (json_response (Some (enc_map [(''status'', JStr ''ok'')])), x)"

section \<open>Provider health\<close>

type_synonym 'w health_providers = "(string \<times> ('w \<Rightarrow> ProviderHealth)) list"

definition enc_opt_time :: "(instant \<Rightarrow> int) \<Rightarrow> string \<Rightarrow> instant option \<Rightarrow> (string \<times> json) list option" where
  "enc_opt_time zone k t = (case t of None \<Rightarrow> Some [] | Some t \<Rightarrow> map_option (\<lambda>j. [(k, j)]) (enc_time zone t))"

definition enc_HealthStatus :: "(instant \<Rightarrow> int) \<Rightarrow> HealthStatus \<Rightarrow> json option" where
  "enc_HealthStatus zone s =
     (case (enc_opt_time zone ''last_success'' (LastSuccess s), enc_opt_time zone ''last_failure'' (LastFailure s)) of
        (Some success, Some failure) \<Rightarrow>
          Some (JObj ([(''healthy'', JBool (Healthy s)), (''consecutive_fails'', enc_int (ConsecutiveFails s))] @ success @ failure @
            enc_string_field ''last_error'' (LastError s)))
      | _ \<Rightarrow> None)"

definition overall_status :: "HealthStatus list \<Rightarrow> string" where
  "overall_status ss =
     (let healthyCount = length (filter Healthy ss) in
      if healthyCount = length ss then ''ok'' else if healthyCount = 0 then ''down'' else ''degraded'')"

fun enc_all :: "('a \<Rightarrow> json option) \<Rightarrow> (string \<times> 'a) list \<Rightarrow> (string \<times> json) list option" where
  "enc_all f [] = Some []"
| "enc_all f ((k, v) # kvs) = (case (f v, enc_all f kvs) of (Some j, Some js) \<Rightarrow> Some ((k, j) # js) | _ \<Rightarrow> None)"

definition enc_internalHealthResponse :: "(instant \<Rightarrow> int) \<Rightarrow> string \<Rightarrow> (string \<times> HealthStatus) list \<Rightarrow> json option" where
  "enc_internalHealthResponse zone overall statuses =
     map_option (\<lambda>js. JObj [(''status'', JStr overall), (''providers'', enc_map js)]) (enc_all (enc_HealthStatus zone) statuses)"

definition HandleInternalHealth :: "(instant \<Rightarrow> int) \<Rightarrow> ('w \<Rightarrow> instant) \<Rightarrow> 'w health_providers \<Rightarrow> 'w handler" where
  "HandleInternalHealth zone now providers r x =
     (let statuses = map (\<lambda>(name, h). (name, Status (now (world x)) (h (world x)))) providers
      in (json_response (enc_internalHealthResponse zone (overall_status (map snd statuses)) statuses), x))"

section \<open>The model list\<close>

definition enc_modelObject :: "ModelInfo \<Rightarrow> json" where
  "enc_modelObject d = JObj [(''id'', JStr (ModelName d)), (''object'', JStr ''model''), (''owned_by'', JStr (ProviderName d))]"

definition HandleListModels :: "Registry \<Rightarrow> 'w handler" where
  "HandleListModels reg r x =
     (json_response (Some (JObj [(''object'', JStr ''list''), (''data'', JArr (map enc_modelObject (ListModelDetails reg)))])), x)"

section \<open>Lemmas\<close>

lemma returns_json_response [simp]: "returns (json_response j)"
  by (auto simp: json_response_def returns_def split: option.splits)

lemma json_response_body: "body_of (json_response (Some j)) = encoder_text j" "status_of (json_response (Some j)) = Some 200"
  using json_reply [of "[SetHeader ''Content-Type'' ''application/json'']" "encoder_text j"] by (simp_all add: json_response_def)

lemma enc_all_eq: "enc_all f kvs = (if list_all (\<lambda>(k, v). f v \<noteq> None) kvs then Some (map (\<lambda>(k, v). (k, the (f v))) kvs) else None)"
proof (induction kvs)
  case (Cons kv kvs)
  then show ?case by (cases kv) (auto split: option.splits)
qed simp

lemma enc_map_mset: "mset kvs = mset kvs' \<Longrightarrow> distinct (map fst kvs) \<Longrightarrow> enc_map kvs = enc_map kvs'"
  unfolding enc_map_def by (metis sort_key_inj_key_eq distinct_map mset_sort sorted_sort_key)

lemma Status_IsHealthy [simp]: "Healthy (Status now h) = IsHealthy now h"
  by (simp add: Status_def IsHealthy_def Let_def)

lemma overall_status_cases: "overall_status ss = (if list_all Healthy ss then ''ok'' else if list_ex Healthy ss then ''degraded'' else ''down'')"
proof -
  have "length (filter Healthy ss) = length ss \<longleftrightarrow> list_all Healthy ss"
    by (metis filter_True length_filter_less less_irrefl list_all_iff)
  moreover have "length (filter Healthy ss) = 0 \<longleftrightarrow> \<not> list_ex Healthy ss" by (auto simp: filter_empty_conv list_ex_iff)
  moreover have "list_all Healthy ss \<Longrightarrow> \<not> list_ex Healthy ss \<Longrightarrow> ss = []" by (cases ss) auto
  ultimately show ?thesis by (auto simp: overall_status_def Let_def)
qed

section \<open>Properties\<close>

text \<open>
  C23. The health report does not depend on the order in which the map of providers is walked, and its summary says how the breakers stand: \<^verbatim>\<open>ok\<close> when every
  provider would be admitted to routing, \<^verbatim>\<open>down\<close> when none would and \<^verbatim>\<open>degraded\<close> in between.
\<close>

theorem HandleInternalHealth_report:
  assumes "mset ps = mset qs" "distinct (map fst ps)"
  shows "HandleInternalHealth zone now ps r x = HandleInternalHealth zone now qs r x \<and>
    (let admitted = (\<lambda>(name, h). IsHealthy (now (world x)) (h (world x)));
         summary = (if list_all admitted ps then ''ok'' else if list_ex admitted ps then ''degraded'' else ''down'');
         statuses = map (\<lambda>(name, h). (name, Status (now (world x)) (h (world x)))) ps
     in fst (HandleInternalHealth zone now ps r x) = json_response (enc_internalHealthResponse zone summary statuses))"
proof -
  let ?st = "\<lambda>ps. map (\<lambda>(name, h). (name, Status (now (world x)) (h (world x)))) ps"
  have st: "mset (?st ps) = mset (?st qs)" using assms(1) by simp
  then have "set (?st ps) = set (?st qs)" by (rule mset_eq_setD)
  then have tot: "list_all P (?st ps) \<longleftrightarrow> list_all P (?st qs)" "list_ex P (?st ps) \<longleftrightarrow> list_ex P (?st qs)" for P
    by (simp_all only: list_all_iff list_ex_iff)
  have eq1: "overall_status (map snd (?st ps)) = overall_status (map snd (?st qs))"
    using tot [of "\<lambda>kv. Healthy (snd kv)"] by (simp add: overall_status_cases list.pred_map list_ex_iff comp_def)
  have eq2: "enc_internalHealthResponse zone o' (?st ps) = enc_internalHealthResponse zone o' (?st qs)" for o'
  proof -
    let ?g = "\<lambda>(k, v). (k, the (enc_HealthStatus zone v))"
    have "distinct (map fst (map ?g (?st ps)))" using assms(2) by (simp add: comp_def case_prod_unfold)
    with enc_map_mset [of "map ?g (?st ps)" "map ?g (?st qs)"] st show ?thesis
      using tot(1) [of "\<lambda>(k, v). enc_HealthStatus zone v \<noteq> None"] by (simp only: enc_internalHealthResponse_def enc_all_eq mset_map) simp
  qed
  have "overall_status (map snd (?st ps)) = (if list_all (\<lambda>(name, h). IsHealthy (now (world x)) (h (world x))) ps then ''ok''
      else if list_ex (\<lambda>(name, h). IsHealthy (now (world x)) (h (world x))) ps then ''degraded'' else ''down'')"
    by (simp add: overall_status_cases list.pred_map list_ex_iff comp_def case_prod_unfold)
  then have "fst (HandleInternalHealth zone now ps r x) = json_response (enc_internalHealthResponse zone (if list_all (\<lambda>(name, h). IsHealthy (now (world x)) (h (world x))) ps
      then ''ok'' else if list_ex (\<lambda>(name, h). IsHealthy (now (world x)) (h (world x))) ps then ''degraded'' else ''down'') (?st ps))"
    by (simp only: HandleInternalHealth_def Let_def fst_conv)
  moreover have "HandleInternalHealth zone now ps r x = HandleInternalHealth zone now qs r x"
    by (simp only: HandleInternalHealth_def Let_def eq1 eq2)
  ultimately show ?thesis by (simp only: Let_def simp_thms)
qed

theorem HandleInternalHealth_report_witness:
  "let up = NewProviderHealth \<lparr>FailureThreshold = 1, CooldownPeriod = 100\<rparr>; off = snd (RecordFailure 5 None up);
       ps = [(''openai'', \<lambda>_. up), (''google'', \<lambda>_. off)]
   in fst (HandleInternalHealth (\<lambda>_. 0) (\<lambda>_. 7) ps sample_request \<lparr>info = None, emitted = [], logged = [], world = ()\<rparr>) =
      json_response (enc_internalHealthResponse (\<lambda>_. 0) ''degraded'' (map (\<lambda>(name, h). (name, Status 7 (h ()))) ps))"
  using HandleInternalHealth_report [where ps = "[(''openai'', \<lambda>_. NewProviderHealth \<lparr>FailureThreshold = 1, CooldownPeriod = 100\<rparr>),
      (''google'', \<lambda>_. snd (RecordFailure 5 None (NewProviderHealth \<lparr>FailureThreshold = 1, CooldownPeriod = 100\<rparr>)))]" and qs = "[(''openai'', \<lambda>_. NewProviderHealth \<lparr>FailureThreshold = 1, CooldownPeriod = 100\<rparr>),
      (''google'', \<lambda>_. snd (RecordFailure 5 None (NewProviderHealth \<lparr>FailureThreshold = 1, CooldownPeriod = 100\<rparr>)))]"
      and zone = "\<lambda>_. 0" and now = "\<lambda>_. 7" and x = "\<lparr>info = None, emitted = [], logged = [], world = ()\<rparr>" and r = sample_request]
  by (simp add: Let_def NewProviderHealth_def RecordFailure_def IsHealthy_def time_Sub_def sat64_def wrap64_def)

end
