(* ===== verification/Admin_Keys.thy ===== *)
theory Admin_Keys
  imports Chat_Handler Go_Time Auth_Middleware "HOL-Library.Word"
begin

text \<open>
  \<^verbatim>\<open>internal/handler/admin_keys.go\<close>: minting and revoking API keys. The handler sees its store through an interface, the fields \<open>ae_Create\<close>,
  \<open>ae_GetByID\<close> and \<open>ae_Revoke\<close> of its environment; \<open>store_env\<close> fills them with the queries of \<open>Key_Store\<close>, as \<^verbatim>\<open>main.go\<close> does. \<open>ae_read\<close> is one byte
  from \<^verbatim>\<open>crypto/rand\<close>, \<open>ae_URLParam\<close> the router's path parameter, \<open>ae_zone\<close> the offset of the local time zone.
\<close>

section \<open>Requests and responses\<close>

record 'w admin_env =
  ae_read :: "'w \<Rightarrow> (go_error + 8 word) \<times> 'w"
  ae_Create :: "NewKey \<Rightarrow> string \<Rightarrow> string \<Rightarrow> 'w \<Rightarrow> (go_error + APIKey) \<times> 'w"
  ae_GetByID :: "string \<Rightarrow> 'w \<Rightarrow> (go_error + APIKey) \<times> 'w"
  ae_Revoke :: "string \<Rightarrow> 'w \<Rightarrow> go_error option \<times> 'w"
  ae_invalidate :: "(string \<Rightarrow> 'w \<Rightarrow> 'w) option"
  ae_URLParam :: "Request \<Rightarrow> string \<Rightarrow> string"
  ae_zone :: "instant \<Rightarrow> int"

definition adminBodyLimit :: nat where
  "adminBodyLimit = 2 ^ 20"

definition defaultRateLimitRPM :: int where
  "defaultRateLimitRPM = 60"

definition defaultRateLimitTPM :: int where
  "defaultRateLimitTPM = 100000"

record CreateKeyRequest =
  ckOrgID :: string
  ckName :: string
  ckRPM :: "int option"
  ckTPM :: "int option"
  ckExpiresAt :: "instant option"

definition zeroCreateKeyRequest :: CreateKeyRequest where
  "zeroCreateKeyRequest = \<lparr>ckOrgID = [], ckName = [], ckRPM = None, ckTPM = None, ckExpiresAt = None\<rparr>"

definition dec_CreateKeyRequest :: "CreateKeyRequest decoder" where
  "dec_CreateKeyRequest = dec_struct (\<lambda>k v r.
     if k = ''ORG_ID'' then map_option (\<lambda>x. r\<lparr>ckOrgID := x\<rparr>) (dec_string v (ckOrgID r))
     else if k = ''NAME'' then map_option (\<lambda>x. r\<lparr>ckName := x\<rparr>) (dec_string v (ckName r))
     else if k = ''RATE_LIMIT_RPM'' then map_option (\<lambda>x. r\<lparr>ckRPM := x\<rparr>) (dec_ptr 0 dec_int v (ckRPM r))
     else if k = ''RATE_LIMIT_TPM'' then map_option (\<lambda>x. r\<lparr>ckTPM := x\<rparr>) (dec_ptr 0 dec_int v (ckTPM r))
     else if k = ''EXPIRES_AT'' then map_option (\<lambda>x. r\<lparr>ckExpiresAt := x\<rparr>) (dec_ptr 0 dec_time v (ckExpiresAt r))
     else Some r)"

record CreateKeyResponse =
  crID :: string
  crKey :: string
  crKeyPrefix :: string
  crName :: string
  crRPM :: int
  crTPM :: int
  crExpiresAt :: "instant option"
  crCreatedAt :: instant

definition enc_CreateKeyResponse :: "(instant \<Rightarrow> int) \<Rightarrow> CreateKeyResponse \<Rightarrow> json option" where
  "enc_CreateKeyResponse zone r =
     (case (case crExpiresAt r of None \<Rightarrow> Some [] | Some t \<Rightarrow> map_option (\<lambda>j. [(''expires_at'', j)]) (enc_time zone t), enc_time zone (crCreatedAt r)) of
        (Some expires, Some created) \<Rightarrow>
          Some (JObj ([(''id'', JStr (crID r)), (''key'', JStr (crKey r)), (''key_prefix'', JStr (crKeyPrefix r)), (''name'', JStr (crName r)),
            (''rate_limit_rpm'', enc_int (crRPM r)), (''rate_limit_tpm'', enc_int (crTPM r))] @ expires @ [(''created_at'', created)]))
      | _ \<Rightarrow> None)"

section \<open>Generating keys\<close>

definition keyAlphabet :: string where
  "keyAlphabet = ''abcdefghijklmnopqrstuvwxyzABCDEFGHIJKLMNOPQRSTUVWXYZ0123456789''"

definition keyBodyLen :: nat where
  "keyBodyLen = 32"

definition keyPrefixLen :: nat where
  "keyPrefixLen = 14"

definition keyAcceptCeiling :: "8 word" where
  "keyAcceptCeiling = of_nat ((256 div length keyAlphabet) * length keyAlphabet)"

text \<open>The rejection loop: it ends only if the source delivers enough bytes below the ceiling, so not returning is the value \<open>None\<close>.\<close>

partial_function (option) key_loop ::
  "('w \<Rightarrow> (go_error + 8 word) \<times> 'w) \<Rightarrow> nat \<Rightarrow> string \<Rightarrow> 'w \<Rightarrow> ((go_error + string) \<times> 'w) option"
where
  "key_loop read i out w =
     (if \<not> i < keyBodyLen then Some (Inr (''sk-gw-'' @ out), w)
      else case read w of
          (Inl err, w) \<Rightarrow> Some (Inl err, w)
        | (Inr b, w) \<Rightarrow>
            if b < keyAcceptCeiling
            then key_loop read (i + 1) (out[i := keyAlphabet ! (unat b mod length keyAlphabet)]) w
            else key_loop read i out w)"

definition generatePlaintextKey :: "('w \<Rightarrow> (go_error + 8 word) \<times> 'w) \<Rightarrow> 'w \<Rightarrow> ((go_error + string) \<times> 'w) option" where
  "generatePlaintextKey read w = key_loop read 0 (replicate keyBodyLen (CHR 0x00)) w"

section \<open>The handlers\<close>

text \<open>The row a request asks for, its limits filled in, and the response that shows the row and, this once, the key.\<close>

definition new_key :: "CreateKeyRequest \<Rightarrow> NewKey" where
  "new_key req =
     (let rpm = (case ckRPM req of Some n \<Rightarrow> n | None \<Rightarrow> defaultRateLimitRPM);
          tpm = (case ckTPM req of Some n \<Rightarrow> n | None \<Rightarrow> defaultRateLimitTPM)
      in \<lparr>nkOrgID = ckOrgID req, nkName = ckName req, nkRPM = rpm, nkTPM = tpm, nkExpiresAt = ckExpiresAt req\<rparr>)"

definition create_response :: "string \<Rightarrow> APIKey \<Rightarrow> CreateKeyResponse" where
  "create_response plaintext row = \<lparr>crID = akID row, crKey = plaintext, crKeyPrefix = KeyPrefix row, crName = akName row,
     crRPM = RateLimitRPM row, crTPM = RateLimitTPM row, crExpiresAt = akExpiresAt row, crCreatedAt = CreatedAt row\<rparr>"

definition Create_key :: "'w admin_env \<Rightarrow> logger \<Rightarrow> 'w handler" where
  "Create_key env dflt r x =
     (case decode_limited (\<lambda>_. []) adminBodyLimit dec_CreateKeyRequest zeroCreateKeyRequest (request_body_of r) of
        Decoded req \<Rightarrow>
          if ckOrgID req = [] \<or> ckName req = [] then
            (apierr_Write 400 ''invalid_request_error'' ''invalid_request'' ''org_id and name are required'', x)
          else
            (let lg = LoggerFromContext dflt r in
             case generatePlaintextKey (ae_read env) (world x) of
               None \<Rightarrow> ([Block], x)
             | Some (Inl err, w) \<Rightarrow>
                 (apierr_Write 500 ''internal_error'' ''internal_error'' ''failed to generate key'',
                  log_to lg LevelError ''generating api key'' [(''err'', StrAttr (err_Error err))] (x\<lparr>world := w\<rparr>))
             | Some (Inr plaintext, w) \<Rightarrow>
                 (let hashHex = HashKey plaintext; prefix = take keyPrefixLen plaintext;
                      (res, w) = ae_Create env (new_key req) hashHex prefix w; x = x\<lparr>world := w\<rparr>
                  in case res of
                       Inl err \<Rightarrow>
                         (apierr_Write 500 ''internal_error'' ''internal_error'' ''failed to create key'',
                          log_to lg LevelError ''creating api key'' [(''err'', StrAttr (err_Error err))] x)
                     | Inr row \<Rightarrow>
                         ([SetHeader ''Content-Type'' ''application/json'', SendHeader 201] @
                          (case enc_CreateKeyResponse (ae_zone env) (create_response plaintext row) of Some j \<Rightarrow> [SendBytes (encoder_text j)] | None \<Rightarrow> []), x)))
      | _ \<Rightarrow> (apierr_Write 400 ''invalid_request_error'' ''invalid_request'' ''invalid request body'', x))"

definition Revoke_key :: "'w admin_env \<Rightarrow> logger \<Rightarrow> 'w handler" where
  "Revoke_key env dflt r x =
     (let id' = ae_URLParam env r ''id''; lg = LoggerFromContext dflt r in
      if id' = [] then (apierr_Write 400 ''invalid_request_error'' ''invalid_request'' ''id is required'', x)
      else
        (let (found, w) = ae_GetByID env id' (world x); x = x\<lparr>world := w\<rparr>;
             proceed = (\<lambda>hashHex.
               let (err, w) = ae_Revoke env id' (world x); x = x\<lparr>world := w\<rparr> in
               case err of
                 Some e \<Rightarrow>
                   (apierr_Write 500 ''internal_error'' ''internal_error'' ''failed to revoke key'',
                    log_to lg LevelError ''revoking key'' [(''err'', StrAttr (err_Error e))] x)
               | None \<Rightarrow>
                   ([SendHeader 204],
                    case ae_invalidate env of
                      Some invalidate \<Rightarrow> if hashHex \<noteq> [] then x\<lparr>world := invalidate hashHex (world x)\<rparr> else x
                    | None \<Rightarrow> x))
         in case found of
              Inr row \<Rightarrow> proceed (KeyHash row)
            | Inl e \<Rightarrow>
                if errors_Is e ErrNotFound then proceed []
                else (apierr_Write 500 ''internal_error'' ''internal_error'' ''failed to look up key'',
                      log_to lg LevelError ''looking up key for revoke'' [(''err'', StrAttr (err_Error e))] x)))"

section \<open>On the key table\<close>

text \<open>
  The state a gateway with authentication runs on: the rows, the authenticator's caches, the clock, and what the world will deliver, the fault of each round
  trip to the database, the next identifiers and the next random bytes. A source of bytes that is used up fails.
\<close>

record ('p, 'n, 't) key_state =
  ksRows :: "APIKey list"
  ksCache :: "('p, 'n, 't) Cached"
  ksNow :: instant
  ksFaults :: "pg_error option list"
  ksIDs :: "string list"
  ksBytes :: "8 word list"

definition next_fault :: "('p, 'n, 't) key_state \<Rightarrow> pg_error option \<times> ('p, 'n, 't) key_state" where
  "next_fault s = (case ksFaults s of [] \<Rightarrow> (None, s) | f # fs \<Rightarrow> (f, s\<lparr>ksFaults := fs\<rparr>))"

fun list_read :: "8 word list \<Rightarrow> (go_error + 8 word) \<times> 8 word list" where
  "list_read [] = (Inl (ErrText ''EOF''), [])"
| "list_read (b # bs) = (Inr b, bs)"

definition NewAdminKeysHandler ::
  "('p, 'n, 't) cache_ops \<Rightarrow> (string \<Rightarrow> string option) \<Rightarrow> (Request \<Rightarrow> string \<Rightarrow> string) \<Rightarrow> (instant \<Rightarrow> int) \<Rightarrow> ('p, 'n, 't) key_state admin_env"
where
  "NewAdminKeysHandler ops uuid_of urlParam zone = \<lparr>
     ae_read = (\<lambda>s. let (r, bs) = list_read (ksBytes s) in (r, s\<lparr>ksBytes := bs\<rparr>)),
     ae_Create = (\<lambda>k hashHex prefix s.
       let (fault, s) = next_fault s; (r, rows) = Create_row (hd (ksIDs s @ [[]])) (ksNow s) fault k hashHex prefix (ksRows s)
       in (r, s\<lparr>ksRows := rows, ksIDs := drop 1 (ksIDs s)\<rparr>)),
     ae_GetByID = (\<lambda>i s. let (fault, s) = next_fault s in (GetByID uuid_of fault i (ksRows s), s)),
     ae_Revoke = (\<lambda>i s. let (fault, s) = next_fault s; (err, rows) = Revoke_row uuid_of fault i (ksRows s) in (err, s\<lparr>ksRows := rows\<rparr>)),
     ae_invalidate = Some (\<lambda>hashHex s. s\<lparr>ksCache := Invalidate ops hashHex (ksCache s)\<rparr>),
     ae_URLParam = urlParam, ae_zone = zone\<rparr>"

text \<open>The authenticator on that state. The background update of \<^verbatim>\<open>last_used_at\<close> happens at once.\<close>

definition touch_row :: "(string \<Rightarrow> string option) \<Rightarrow> string \<Rightarrow> ('p, 'n, 't) key_state \<Rightarrow> ('p, 'n, 't) key_state" where
  "touch_row uuid_of i s = (let (fault, s) = next_fault s in s\<lparr>ksRows := snd (TouchLastUsedAt uuid_of (ksNow s) fault i (ksRows s))\<rparr>)"

definition key_auth ::
  "('p, 'n, 't) cache_ops \<Rightarrow> (string \<Rightarrow> string option) \<Rightarrow> string \<Rightarrow> ('p, 'n, 't) key_state \<Rightarrow> (go_error + KeyInfo) \<times> ('p, 'n, 't) key_state"
where
  "key_auth ops uuid_of plaintext s =
     (let asked = (fst (auth_cached ops (ksNow s) (HashKey plaintext) (ksCache s)) = None);
          (fault, s1) = (if asked then next_fault s else (None, s));
          (res, c, touched) = Authenticate ops (ksNow s) (\<lambda>h. GetByHash (ksNow s) fault h (ksRows s)) plaintext (ksCache s)
      in (res, fold (touch_row uuid_of) touched (s1\<lparr>ksCache := c\<rparr>)))"

section \<open>Specification vocabulary\<close>

text \<open>The bytes that one source delivers, one after the other.\<close>

fun delivers :: "('w \<Rightarrow> (go_error + 8 word) \<times> 'w) \<Rightarrow> 'w \<Rightarrow> 8 word list \<Rightarrow> 'w \<Rightarrow> bool" where
  "delivers read w [] w' \<longleftrightarrow> w' = w"
| "delivers read w (b # bs) w' \<longleftrightarrow> fst (read w) = Inr b \<and> delivers read (snd (read w)) bs w'"

definition accepted :: "8 word list \<Rightarrow> 8 word list" where
  "accepted = filter (\<lambda>b. b < keyAcceptCeiling)"

definition key_char :: "8 word \<Rightarrow> char" where
  "key_char b = keyAlphabet ! (unat b mod length keyAlphabet)"

definition key_of :: "8 word list \<Rightarrow> string" where
  "key_of bs = ''sk-gw-'' @ map key_char (accepted bs)"

text \<open>How a run of the loop that returns comes about.\<close>

definition key_trace :: "('w \<Rightarrow> (go_error + 8 word) \<times> 'w) \<Rightarrow> nat \<Rightarrow> 'w \<Rightarrow> (go_error + string) \<times> 'w \<Rightarrow> bool" where
  "key_trace read i w y \<longleftrightarrow> (i \<le> keyBodyLen \<longrightarrow> (\<exists>bs w1. delivers read w bs w1 \<and> (case fst y of
       Inr k \<Rightarrow> w1 = snd y \<and> i + length (accepted bs) = keyBodyLen \<and> (bs \<noteq> [] \<longrightarrow> last bs < keyAcceptCeiling)
     | Inl e \<Rightarrow> i + length (accepted bs) < keyBodyLen \<and> read w1 = (Inl e, snd y))))"

definition sample_create :: json where
  "sample_create = JObj [(''org_id'', JStr ''o''), (''name'', JStr ''n'')]"

definition admin_request :: "json \<Rightarrow> Request" where
  "admin_request j = \<lparr>Method = ''POST'', Path = ''/internal/admin/keys'', reqHeader = [], reqBody = Some \<lparr>bodyBytes = json_text j, bodyEnd = BodyEOF\<rparr>,
     ctxKeyInfo = None, ctxLogger = None, ctxReqID = []\<rparr>"

definition sample_state :: "(KeyInfo list_cache, unit list_cache, instant list_cache) key_state" where
  "sample_state = \<lparr>ksRows = [], ksCache = NewCached list_ops 300 10, ksNow = 5, ksFaults = [], ksIDs = [''k1''], ksBytes = replicate keyBodyLen 0\<rparr>"

section \<open>Lemmas\<close>

lemma alphabet: "length keyAlphabet = 62" "distinct keyAlphabet" "keyAcceptCeiling = 248"
  by code_simp+

lemma below_ceiling: "b < keyAcceptCeiling \<longleftrightarrow> unat b < 248"
  by (simp add: alphabet word_less_nat_alt)

lemma key_loop_reads:
  "delivers read w bs w1 \<Longrightarrow> i + length (accepted bs) < keyBodyLen \<Longrightarrow> length out = keyBodyLen \<Longrightarrow>
     key_loop read i out w = key_loop read (i + length (accepted bs)) (take i out @ map key_char (accepted bs) @ drop (i + length (accepted bs)) out) w1"
proof (induction bs arbitrary: w i out)
  case Nil
  then show ?case by (simp add: accepted_def)
next
  case (Cons b bs)
  obtain w2 where r: "read w = (Inr b, w2)" "delivers read w2 bs w1" using Cons.prems(1) by (cases "read w") auto
  have i: "i < keyBodyLen" using Cons.prems(2) by simp
  show ?case
  proof (cases "b < keyAcceptCeiling")
    case True
    then have len: "Suc i + length (accepted bs) < keyBodyLen" using Cons.prems(2) by (simp add: accepted_def)
    have "key_loop read i out w = key_loop read (Suc i) (out[i := key_char b]) w2"
      using i r(1) True by (subst key_loop.simps) (simp add: key_char_def)
    also have "\<dots> = key_loop read (Suc i + length (accepted bs))
        (take (Suc i) (out[i := key_char b]) @ map key_char (accepted bs) @ drop (Suc i + length (accepted bs)) (out[i := key_char b])) w1"
      by (rule Cons.IH [OF r(2) len]) (simp add: Cons.prems(3))
    also have "take (Suc i) (out[i := key_char b]) = take i out @ [key_char b]"
      using i Cons.prems(3) by (simp add: take_Suc_conv_app_nth)
    finally show ?thesis using True by (simp add: accepted_def)
  next
    case False
    have "key_loop read i out w = key_loop read i out w2" using i r(1) False by (subst key_loop.simps) simp
    with Cons.IH [OF r(2), of i out] Cons.prems(2,3) False show ?thesis by (simp add: accepted_def)
  qed
qed

lemma reads_snoc: "delivers read w (bs @ [b]) w' \<longleftrightarrow> (\<exists>w1. delivers read w bs w1 \<and> read w1 = (Inr b, w'))"
  by (induction bs arbitrary: w) (auto simp: prod_eq_iff)

lemma key_trace_step:
  assumes IH: "\<And>read i out w y. f read i out w = Some y \<Longrightarrow> key_trace read i w y"
    and eq: "(if \<not> i < keyBodyLen then Some (Inr (''sk-gw-'' @ out), w)
      else case read w of (Inl err, w) \<Rightarrow> Some (Inl err, w)
        | (Inr b, w) \<Rightarrow> if b < keyAcceptCeiling then f read (i + 1) (out[i := keyAlphabet ! (unat b mod length keyAlphabet)]) w else f read i out w) = Some y"
  shows "key_trace read i w y"
proof (cases "i < keyBodyLen")
  case False
  then show ?thesis using eq by (auto simp: key_trace_def accepted_def intro!: exI [of _ "[]"])
next
  case i: True
  obtain r w2 where r: "read w = (r, w2)" by fastforce
  show ?thesis
  proof (cases r)
    case (Inl e)
    then show ?thesis using eq i r by (auto simp: key_trace_def accepted_def intro!: exI [of _ "[]"])
  next
    case (Inr b)
    have "key_trace read (if b < keyAcceptCeiling then i + 1 else i) w2 y" using eq i r Inr by (auto split: if_splits intro: IH)
    moreover have "(if b < keyAcceptCeiling then i + 1 else i) \<le> keyBodyLen" using i by simp
    ultimately obtain bs w1 where bs: "delivers read w2 bs w1" "case fst y of
        Inr k \<Rightarrow> w1 = snd y \<and> (if b < keyAcceptCeiling then i + 1 else i) + length (accepted bs) = keyBodyLen \<and> (bs \<noteq> [] \<longrightarrow> last bs < keyAcceptCeiling)
      | Inl e \<Rightarrow> (if b < keyAcceptCeiling then i + 1 else i) + length (accepted bs) < keyBodyLen \<and> read w1 = (Inl e, snd y)"
      unfolding key_trace_def by blast
    have "(if b < keyAcceptCeiling then i + 1 else i) + length (accepted bs) = i + length (accepted (b # bs))" by (simp add: accepted_def)
    moreover have "accepted [] = []" by (simp add: accepted_def)
    ultimately show ?thesis unfolding key_trace_def using r Inr i bs
      by (intro impI exI [of _ "b # bs"] exI [of _ w1]) (auto split: sum.splits if_splits)
  qed
qed

lemma key_loop_traced: "key_loop read i out w = Some y \<Longrightarrow> key_trace read i w y"
  by (rule key_loop.raw_induct [where P = "\<lambda>read i out w y. key_trace read i w y", OF key_trace_step])

lemma key_loop_ends:
  assumes "delivers read w bs w1" "length (accepted bs) < keyBodyLen"
  shows "read w1 = (Inl e, w2) \<Longrightarrow> generatePlaintextKey read w = Some (Inl e, w2)"
    and "read w1 = (Inr b, w2) \<Longrightarrow> b < keyAcceptCeiling \<Longrightarrow> Suc (length (accepted bs)) = keyBodyLen \<Longrightarrow>
      generatePlaintextKey read w = Some (Inr (key_of (bs @ [b])), w2)"
proof -
  define n where "n = length (accepted bs)"
  define out where "out = map key_char (accepted bs) @ replicate (keyBodyLen - n) (CHR 0x00)"
  have g: "generatePlaintextKey read w = key_loop read n out w1"
    using key_loop_reads [OF assms(1), of 0 "replicate keyBodyLen (CHR 0x00)"] assms(2) by (simp add: generatePlaintextKey_def n_def out_def)
  show "read w1 = (Inl e, w2) \<Longrightarrow> generatePlaintextKey read w = Some (Inl e, w2)"
    using assms(2) unfolding g by (subst key_loop.simps) (simp add: n_def)
  assume b: "read w1 = (Inr b, w2)" "b < keyAcceptCeiling" "Suc (length (accepted bs)) = keyBodyLen"
  then have "keyBodyLen - n = 1" "n < keyBodyLen" by (simp_all add: n_def)
  then have o': "out[n := key_char b] = map key_char (accepted (bs @ [b]))"
    using b(2) by (simp add: out_def list_update_append n_def accepted_def)
  have "key_loop read n out w1 = key_loop read (n + 1) (out[n := key_char b]) w2"
    using b(1,2) \<open>n < keyBodyLen\<close> by (subst key_loop.simps) (simp add: key_char_def)
  also have "\<dots> = Some (Inr (key_of (bs @ [b])), w2)"
    using b(3) by (subst key_loop.simps) (simp add: n_def key_of_def o' [unfolded n_def])
  finally show "generatePlaintextKey read w = Some (Inr (key_of (bs @ [b])), w2)" unfolding g .
qed

lemma generated_key_iff:
  "generatePlaintextKey read w = Some (Inr k, w') \<longleftrightarrow>
     (\<exists>bs. delivers read w bs w' \<and> bs \<noteq> [] \<and> last bs < keyAcceptCeiling \<and> length (accepted bs) = keyBodyLen \<and> k = key_of bs)"
proof
  assume g: "generatePlaintextKey read w = Some (Inr k, w')"
  from key_loop_traced [OF g [unfolded generatePlaintextKey_def]] obtain bs where
    bs: "delivers read w bs w'" "length (accepted bs) = keyBodyLen" "bs \<noteq> [] \<longrightarrow> last bs < keyAcceptCeiling" by (auto simp: key_trace_def)
  have ne: "bs \<noteq> []" using bs(2) by (auto simp: accepted_def keyBodyLen_def)
  then obtain cs b where cs: "bs = cs @ [b]" by (metis append_butlast_last_id)
  with bs(1) obtain w1 where r: "delivers read w cs w1" "read w1 = (Inr b, w')" by (auto simp: reads_snoc)
  have "b < keyAcceptCeiling" using bs(3) cs by simp
  moreover from this have "Suc (length (accepted cs)) = keyBodyLen" using bs(2) cs by (simp add: accepted_def)
  ultimately have "k = key_of bs" using key_loop_ends(2) [OF r(1) _ r(2)] g cs by simp
  with bs ne show "\<exists>bs. delivers read w bs w' \<and> bs \<noteq> [] \<and> last bs < keyAcceptCeiling \<and> length (accepted bs) = keyBodyLen \<and> k = key_of bs" by blast
next
  assume "\<exists>bs. delivers read w bs w' \<and> bs \<noteq> [] \<and> last bs < keyAcceptCeiling \<and> length (accepted bs) = keyBodyLen \<and> k = key_of bs"
  then obtain cs b where cs: "delivers read w (cs @ [b]) w'" "b < keyAcceptCeiling" "length (accepted (cs @ [b])) = keyBodyLen" "k = key_of (cs @ [b])"
    by (metis append_butlast_last_id)
  then obtain w1 where "delivers read w cs w1" "read w1 = (Inr b, w')" by (auto simp: reads_snoc)
  then show "generatePlaintextKey read w = Some (Inr k, w')"
    using key_loop_ends(2) [of read w cs w1 b w'] cs by (simp add: accepted_def)
qed

lemma generated_error_iff:
  "generatePlaintextKey read w = Some (Inl e, w') \<longleftrightarrow>
     (\<exists>bs w1. delivers read w bs w1 \<and> length (accepted bs) < keyBodyLen \<and> read w1 = (Inl e, w'))"
  using key_loop_traced [of read 0 "replicate keyBodyLen (CHR 0x00)" w "(Inl e, w')"] key_loop_ends(1) [of read w]
  by (auto simp: generatePlaintextKey_def key_trace_def)

lemma card_map_preimages:
  assumes "\<And>c. c \<in> set s \<Longrightarrow> card {b. P b \<and> f b = c} = n"
  shows "card {bs. list_all P bs \<and> map f bs = s} = n ^ length s"
  using assms
proof (induction s)
  case (Cons c s)
  have "{bs. list_all P bs \<and> map f bs = c # s} = (\<lambda>(b, bs). b # bs) ` ({b. P b \<and> f b = c} \<times> {bs. list_all P bs \<and> map f bs = s})"
    by (auto simp: map_eq_Cons_conv image_iff)
  then have "card {bs. list_all P bs \<and> map f bs = c # s} = card ({b. P b \<and> f b = c} \<times> {bs. list_all P bs \<and> map f bs = s})"
    by (simp add: card_image inj_on_def split_def prod_eq_iff)
  with Cons show ?case by (simp add: card_cartesian_product)
next
  case Nil
  have "{bs. list_all P bs \<and> map f bs = []} = {[]}" by auto
  then show ?case by simp
qed

lemma delivers_list_read: "delivers list_read bs cs ds \<longleftrightarrow> bs = cs @ ds"
proof (induction cs arbitrary: bs)
  case (Cons c cs)
  then show ?case by (cases bs) auto
qed auto

lemma key_char_preimage:
  assumes "c \<in> set keyAlphabet"
  shows "card {b. b < keyAcceptCeiling \<and> key_char b = c} = 4"
proof -
  obtain i where i: "i < 62" "keyAlphabet ! i = c" using assms alphabet(1) by (metis in_set_conv_nth)
  have "key_char b = c \<longleftrightarrow> unat b mod 62 = i" for b
    using nth_eq_iff_index_eq [OF alphabet(2), of "unat b mod 62" i] i by (simp add: key_char_def alphabet(1))
  then have "{b. b < keyAcceptCeiling \<and> key_char b = c} = {b :: 8 word. unat b < 248 \<and> unat b mod 62 = i}" by (simp add: below_ceiling)
  also have "\<dots> = of_nat ` {i, i + 62, i + 124, i + 186}"
  proof (intro set_eqI iffI)
    fix b :: "8 word" assume "b \<in> {b. unat b < 248 \<and> unat b mod 62 = i}"
    then have b: "unat b < 248" "unat b mod 62 = i" by simp_all
    have "unat b = 62 * (unat b div 62) + i" using b(2) by (metis mult_div_mod_eq)
    moreover have "unat b div 62 < 4" using b(1) by (simp add: div_less_iff_less_mult)
    then have "unat b div 62 \<in> {0, 1, 2, 3}" by auto
    ultimately have "unat b \<in> {i, i + 62, i + 124, i + 186}" by auto
    then show "b \<in> of_nat ` {i, i + 62, i + 124, i + 186}" by (intro image_eqI [of _ _ "unat b"]) simp_all
  next
    fix b :: "8 word" assume "b \<in> of_nat ` {i, i + 62, i + 124, i + 186}"
    then obtain n where n: "b = of_nat n" "n \<in> {i, i + 62, i + 124, i + 186}" by blast
    moreover have "n < 248" using n(2) i(1) by auto
    moreover from this have "unat b = n" using n(1) by (simp add: unat_of_nat take_bit_nat_eq_self)
    moreover have "n mod 62 = i" using n(2) i(1) mod_mult_self1 [of i 1 62] mod_mult_self1 [of i 2 62] mod_mult_self1 [of i 3 62] by auto
    ultimately show "b \<in> {b. unat b < 248 \<and> unat b mod 62 = i}" by simp
  qed
  also have "card \<dots> = card {i, i + 62, i + 124, i + 186}"
  proof (rule card_image, rule inj_onI)
    fix m n assume mn: "m \<in> {i, i + 62, i + 124, i + 186}" "n \<in> {i, i + 62, i + 124, i + 186}" and eq: "(of_nat m :: 8 word) = of_nat n"
    have "m < 248" "n < 248" using mn i(1) by auto
    then have "unat (of_nat m :: 8 word) = m" "unat (of_nat n :: 8 word) = n" by (simp_all add: unat_of_nat take_bit_nat_eq_self del: word_of_nat_eq_iff)
    with eq show "m = n" by metis
  qed
  finally show ?thesis by simp
qed

lemma accepted_all: "length (accepted bs) = length bs \<longleftrightarrow> list_all (\<lambda>b. b < keyAcceptCeiling) bs"
  unfolding accepted_def by (metis filter_True length_filter_less less_irrefl list_all_iff)

section \<open>What the handlers do\<close>

lemma final_codes: "final_code 400" "final_code 500"
  by (simp_all add: final_code_def)

lemma status_error: "code = 400 \<or> code = 500 \<Longrightarrow> status_of (apierr_Write code ty c m) = Some code"
  using status_apierr [of 400 ty c m] status_apierr [of 500 ty c m] final_codes by auto

lemma created_reply:
  "status_of ([SetHeader ''Content-Type'' ''application/json'', SendHeader 201] @ (case res of Some j \<Rightarrow> [SendBytes (encoder_text j)] | None \<Rightarrow> [])) = Some 201"
  "body_of ([SetHeader ''Content-Type'' ''application/json'', SendHeader 201] @ [SendBytes b]) = b"
  by (auto simp: status_of_def body_of_def run_ops_Cons new_response_def WriteHeader_def Write_bytes_def Let_def split: option.splits)

lemma Create_key_created:
  assumes "Create_key env dflt r x = (ops, y)" "status_of ops = Some 201"
  obtains req k w row w1 where
    "decode_limited (\<lambda>_. []) adminBodyLimit dec_CreateKeyRequest zeroCreateKeyRequest (request_body_of r) = Decoded req"
    "ckOrgID req \<noteq> []" "ckName req \<noteq> []" "generatePlaintextKey (ae_read env) (world x) = Some (Inr k, w)"
    "ae_Create env (new_key req) (HashKey k) (take keyPrefixLen k) w = (Inr row, w1)" "y = x\<lparr>world := w1\<rparr>"
    "ops = [SetHeader ''Content-Type'' ''application/json'', SendHeader 201] @
      (case enc_CreateKeyResponse (ae_zone env) (create_response k row) of Some j \<Rightarrow> [SendBytes (encoder_text j)] | None \<Rightarrow> [])"
proof -
  have nb: "status_of [Block] \<noteq> Some 201" by (simp add: status_of_def run_ops_Cons new_response_def)
  show thesis
  proof (cases "decode_limited (\<lambda>_. []) adminBodyLimit dec_CreateKeyRequest zeroCreateKeyRequest (request_body_of r)")
    case (Decoded req)
    note D = Decoded
    have "\<not> (ckOrgID req = [] \<or> ckName req = [])"
    proof
      assume "ckOrgID req = [] \<or> ckName req = []"
      then have "ops = apierr_Write 400 ''invalid_request_error'' ''invalid_request'' ''org_id and name are required''"
        using assms(1) Decoded by (simp add: Create_key_def)
      then show False using assms(2) by (simp add: status_error)
    qed
    then have o': "ckOrgID req \<noteq> []" "ckName req \<noteq> []" by simp_all
    show thesis
    proof (cases "generatePlaintextKey (ae_read env) (world x)")
      case None
      then show thesis using assms nb Decoded o' by (simp add: Create_key_def)
    next
      case (Some g)
      obtain q w where g: "g = (q, w)" by (cases g)
      show thesis
      proof (cases q)
        case (Inl e)
        then show thesis using assms Decoded o' Some g by (auto simp: Create_key_def Let_def status_error)
      next
        case (Inr k)
        obtain res w1 where res: "ae_Create env (new_key req) (HashKey k) (take keyPrefixLen k) w = (res, w1)" by fastforce
        show thesis
        proof (cases res)
          case (Inl e)
          then show thesis using assms D o' Some g Inr res by (auto simp: Create_key_def Let_def status_error)
        next
          case (Inr row)
          then show thesis using that [OF D o', of k w row w1] assms(1) D o' Some g \<open>q = Inr k\<close> res by (simp add: Create_key_def Let_def)
        qed
      qed
    qed
  qed (use assms in \<open>auto simp: Create_key_def status_error\<close>)
qed

lemma key_of_form: "length (accepted bs) = keyBodyLen \<Longrightarrow> length (key_of bs) = 38 \<and> take 6 (key_of bs) = ''sk-gw-'' \<and> set (drop 6 (key_of bs)) \<subseteq> set keyAlphabet"
  by (auto simp: key_of_def keyBodyLen_def key_char_def alphabet intro!: nth_mem)

lemma next_fault_frame:
  "next_fault s = (f, s1) \<Longrightarrow> ksRows s1 = ksRows s \<and> ksCache s1 = ksCache s \<and> ksNow s1 = ksNow s \<and> ksIDs s1 = ksIDs s \<and> set (ksFaults s1) \<subseteq> set (ksFaults s) \<and>
     (f = None \<or> f \<in> set (ksFaults s))"
  by (auto simp: next_fault_def split: list.splits)

lemma delivers_frame: 
  "delivers (ae_read (NewAdminKeysHandler ops uuid_of u z)) s bs s1 \<Longrightarrow>
     ksRows s1 = ksRows s \<and> ksCache s1 = ksCache s \<and> ksNow s1 = ksNow s \<and> ksIDs s1 = ksIDs s \<and> ksFaults s1 = ksFaults s"
  by (induction bs arbitrary: s) (auto simp: NewAdminKeysHandler_def split: prod.splits)

text \<open>A cache that knows nothing of the key leaves the decision to the table.\<close>

lemma Authenticate_uncached:
  assumes "fst (lru_Get (posOps ops) now (HashKey k) (pos c)) = None" "fst (lru_Get (negOps ops) now (HashKey k) (neg c)) = None" "look (HashKey k) = Inr row"
  shows "fst (Authenticate ops now look k c) = Inr (key_info row)"
  using assms by (auto simp: Authenticate_def auth_cached_def auth_answer_def Let_def split: prod.splits option.splits)

lemma GetByHash_snoc:
  "\<not> (\<exists>q \<in> set rows. KeyHash q = h) \<Longrightarrow> KeyHash row = h \<Longrightarrow> IsActive row \<Longrightarrow> unexpired now row \<Longrightarrow> GetByHash now None h (rows @ [row]) = Inr row"
proof -
  assume a: "\<not> (\<exists>q \<in> set rows. KeyHash q = h)" "KeyHash row = h" "IsActive row" "unexpired now row"
  have "find (\<lambda>k. KeyHash k = h \<and> IsActive k \<and> unexpired now k) (rows @ [row]) = Some row" using a by (induction rows) auto
  then show ?thesis by (simp add: GetByHash_def)
qed

lemma Create_key_ok:
  assumes "decode_limited (\<lambda>_. []) adminBodyLimit dec_CreateKeyRequest zeroCreateKeyRequest (request_body_of r) = Decoded req"
    "ckOrgID req \<noteq> []" "ckName req \<noteq> []" "generatePlaintextKey (ae_read env) (world x) = Some (Inr k, w)"
    "ae_Create env (new_key req) (HashKey k) (take keyPrefixLen k) w = (Inr row, w1)"
  shows "status_of (fst (Create_key env dflt r x)) = Some 201"
  using assms created_reply(1) by (simp add: Create_key_def)

lemma delivers_bytes:
  "ksBytes s = bs @ ds \<Longrightarrow> delivers (ae_read (NewAdminKeysHandler ops uuid_of u z)) s bs (s\<lparr>ksBytes := ds\<rparr>)"
proof (induction bs arbitrary: s)
  case (Cons b bs)
  from Cons.IH [of "s\<lparr>ksBytes := bs @ ds\<rparr>"] Cons.prems show ?case by (simp add: NewAdminKeysHandler_def)
qed simp

lemma GetByID_result:
  assumes "table_inv rows" "row \<in> set rows" "uuid_of i = Some (akID row)" "f \<noteq> Some (PgCode ''22P02'')"
  shows "GetByID uuid_of f i rows = Inr row \<and> f = None \<or> (\<exists>e. GetByID uuid_of f i rows = Inl e \<and> \<not> errors_Is e ErrNotFound)"
proof (cases f)
  case None
  have "find (\<lambda>r. uuid_of i = Some (akID r)) rows = Some row"
    using assms(1-3) by (induction rows) (auto simp: table_inv_def image_iff)
  then show ?thesis using None assms(3) by (simp add: GetByID_def)
next
  case (Some err)
  then show ?thesis using assms(4) by (cases err) (auto simp: GetByID_def mapPgError_def)
qed

lemma Revoke_row_result:
  assumes "uuid_of i = Some q" "f \<noteq> Some (PgCode ''22P02'')" "Revoke_row uuid_of f i rows = (None, rows')"
  shows "Revoke_row uuid_of None i rows = (None, rows')"
proof (cases f)
  case (Some err)
  then show ?thesis using assms by (cases err) (auto simp: Revoke_row_def mapPgError_def split: if_splits)
qed (use assms in simp)

lemma Revoke_key_revoked:
  assumes "Revoke_key (NewAdminKeysHandler ops uuid_of urlParam zone) dflt r x = (out, y)" "status_of out = Some 204"
    and "urlParam r ''id'' = i" "uuid_of i = Some (akID row)" "row \<in> set (ksRows (world x))" "table_inv (ksRows (world x))"
    and "Some (PgCode ''22P02'') \<notin> set (ksFaults (world x))" "KeyHash row \<noteq> []"
  shows "Revoke_row uuid_of None i (ksRows (world x)) = (None, ksRows (world y)) \<and> ksCache (world y) = Invalidate ops (KeyHash row) (ksCache (world x))"
proof -
  obtain f1 s1 where f1: "next_fault (world x) = (f1, s1)" by fastforce
  obtain f2 s2 where f2: "next_fault s1 = (f2, s2)" by fastforce
  note n1 = next_fault_frame [OF f1] and n2 = next_fault_frame [OF f2]
  have nf: "f1 \<noteq> Some (PgCode ''22P02'')" "f2 \<noteq> Some (PgCode ''22P02'')" using n1 n2 assms(7) by auto
  have i: "i \<noteq> []" using assms(1-3) by (auto simp: Revoke_key_def NewAdminKeysHandler_def Let_def status_error)
  have "GetByID uuid_of f1 i (ksRows (world x)) = Inr row"
    using GetByID_result [where uuid_of = uuid_of and i = i and f = f1, OF assms(6,5,4) nf(1)] assms(1,2,3) i f1 n1 by (auto simp: Revoke_key_def NewAdminKeysHandler_def Let_def status_error)
  moreover obtain err rows where rr: "Revoke_row uuid_of f2 i (ksRows (world x)) = (err, rows)" by fastforce
  ultimately have "err = None \<and> y = x\<lparr>world := s2\<lparr>ksRows := rows, ksCache := Invalidate ops (KeyHash row) (ksCache (world x))\<rparr>\<rparr>"
    using assms(1,2,3,8) i f1 f2 n1 n2 by (cases err) (auto simp: Revoke_key_def NewAdminKeysHandler_def Let_def status_error)
  then show ?thesis using Revoke_row_result [where uuid_of = uuid_of and i = i and f = f2, OF assms(4) nf(2), of "ksRows (world x)" rows] rr by simp
qed

section \<open>Properties\<close>

text \<open>
  C18. Generated keys are uniform: of the strings of 32 random bytes that the rejection loop turns into a key without discarding any, every one of the
  62 to the power of 32 possible keys comes from exactly 4 to the power of 32. Reducing the bytes below the ceiling has no modulo bias.
\<close>

theorem generatePlaintextKey_uniform:
  assumes "length s = keyBodyLen" "set s \<subseteq> set keyAlphabet"
  shows "card {bs. length bs = keyBodyLen \<and> generatePlaintextKey list_read bs = Some (Inr (''sk-gw-'' @ s), [])} = 4 ^ keyBodyLen"
proof -
  have "length bs = keyBodyLen \<and> generatePlaintextKey list_read bs = Some (Inr (''sk-gw-'' @ s), []) \<longleftrightarrow>
      list_all (\<lambda>b. b < keyAcceptCeiling) bs \<and> map key_char bs = s" (is "?L \<longleftrightarrow> ?R") for bs
  proof
    assume ?L
    then have "length bs = keyBodyLen" "length (accepted bs) = keyBodyLen" "key_of bs = ''sk-gw-'' @ s"
      by (auto simp: generated_key_iff delivers_list_read)
    then show ?R using accepted_all [of bs] by (auto simp: key_of_def accepted_def list_all_iff filter_True)
  next
    assume r: ?R
    then have a: "accepted bs = bs" "length bs = keyBodyLen" using assms(1) by (auto simp: accepted_def list_all_iff)
    then have "bs \<noteq> []" by (auto simp: keyBodyLen_def)
    moreover from this r have "last bs < keyAcceptCeiling" by (auto simp: list_all_iff)
    ultimately show ?L using r a by (auto simp: generated_key_iff delivers_list_read key_of_def)
  qed
  then show ?thesis using card_map_preimages [of s "\<lambda>b. b < keyAcceptCeiling" key_char 4] key_char_preimage assms by auto
qed

theorem generatePlaintextKey_uniform_witness:
  "card {bs. length bs = keyBodyLen \<and> generatePlaintextKey list_read bs = Some (Inr (''sk-gw-'' @ replicate keyBodyLen (CHR ''Z'')), [])} = 4 ^ keyBodyLen"
  by (rule generatePlaintextKey_uniform) (simp_all add: keyAlphabet_def keyBodyLen_def)

text \<open>
  C22. The rejection loop returns exactly when its source gives it reason to, for every source of bytes: with a key as soon as 32 acceptable bytes have come, the
  key being those bytes read through the alphabet behind the prefix, and with the source's error if that comes first.
\<close>

theorem generatePlaintextKey_returns:
  "(generatePlaintextKey read w = Some (Inr k, w1) \<longleftrightarrow>
      (\<exists>bs. delivers read w bs w1 \<and> bs \<noteq> [] \<and> last bs < keyAcceptCeiling \<and> length (accepted bs) = keyBodyLen \<and> k = key_of bs)) \<and>
   (generatePlaintextKey read w = Some (Inl e, w1) \<longleftrightarrow>
      (\<exists>bs w2. delivers read w bs w2 \<and> length (accepted bs) < keyBodyLen \<and> read w2 = (Inl e, w1)))"
  by (simp add: generated_key_iff generated_error_iff)



text \<open>
  C8. Revocation takes effect with the response: when the revoke handler answers 204 for the id of a row, no valid row for its key is left in the table, and no later
  authentication of the key succeeds, whatever calls and invalidations come in between, as long as the key is not made valid again. The database is taken to
  report a malformed UUID only for a malformed UUID.
\<close>

theorem Revoke_key_refuses:
  assumes "key_cache ops entries ttl_of"
    and "Revoke_key (NewAdminKeysHandler ops uuid_of urlParam zone) dflt r x = (out, y)" "status_of out = Some 204"
    and "uuid_of (urlParam r ''id'') = Some (akID row)" "row \<in> set (ksRows (world x))" "table_inv (ksRows (world x))"
    and "Some (PgCode ''22P02'') \<notin> set (ksFaults (world x))" "KeyHash row \<noteq> []"
  shows "(\<forall>now k. \<not> valid_row now (KeyHash row) (ksRows (world y)) k) \<and>
    (\<forall>evs now fault rows plaintext res. list_all (never_valid (ksNow (world x)) (KeyHash row)) evs \<and> HashKey plaintext = KeyHash row \<and>
       (AuthCall now fault rows plaintext, res) \<in> set (auth_run ops evs (ksCache (world y))) \<longrightarrow> (\<exists>e. res = Inl e))"
proof -
  note R = Revoke_key_revoked [OF assms(2,3) refl assms(4-8)]
  have "entries (pos (ksCache (world y))) (KeyHash row) = None"
    using R key_cache.Invalidate_entries [OF assms(1), of "KeyHash row" "ksCache (world x)" "KeyHash row"]
    by (cases "entries (pos (ksCache (world y))) (KeyHash row)") auto
  then show ?thesis
    using revoked_not_valid [OF assms(6) conjunct1 [OF R] assms(5,4)] key_cache.revoked_stays_out [OF assms(1)] by blast
qed

theorem Revoke_key_refuses_witness:
  "\<exists>y. y = snd (Revoke_key (NewAdminKeysHandler list_ops Some (\<lambda>r n. ''k1'') (\<lambda>t. 0)) \<lparr>loggerLevel = LevelInfo, loggerAttrs = []\<rparr> (admin_request JNull)
       \<lparr>info = None, emitted = [], logged = [], world = sample_state\<lparr>ksRows := [sample_key]\<rparr>\<rparr>) \<and>
     \<not> valid_row 7 (KeyHash sample_key) (ksRows (world y)) (hd (ksRows (world y)))"
proof -
  let ?env = "NewAdminKeysHandler list_ops Some (\<lambda>r n. ''k1'') (\<lambda>t. 0)" and ?lg = "\<lparr>loggerLevel = LevelInfo, loggerAttrs = []\<rparr>"
  let ?x = "\<lparr>info = None, emitted = [], logged = [], world = sample_state\<lparr>ksRows := [sample_key]\<rparr>\<rparr>"
  have "status_of (fst (Revoke_key ?env ?lg (admin_request JNull) ?x)) = Some 204"
    by (simp add: Revoke_key_def NewAdminKeysHandler_def Let_def next_fault_def sample_state_def GetByID_def Revoke_row_def sample_key_def
        status_of_def run_ops_Cons new_response_def WriteHeader_def)
  from Revoke_key_refuses [OF list_key_cache.key_cache_axioms prod.collapse [symmetric] this, of sample_key] show ?thesis
    by (simp add: sample_state_def sample_key_def table_inv_def HashKey_nonempty)
qed

end
