(* ===== verification/Gateway_Server.thy ===== *)
theory Gateway_Server
  imports Info_Handlers Admin_Keys Access_Log
begin

text \<open>
  \<^verbatim>\<open>internal/server/server.go\<close>. \<open>New\<close> is the sequence of calls the constructor makes on the chi router, in its order. What the router makes of them is not part
  of the repository: the locale \<open>chi_router\<close> states what its documentation promises, and \<open>mux_serve\<close> is a router that keeps the promise. What the server
  needs beyond its options are the environments of its handlers.
\<close>

section \<open>The calls on the router\<close>

datatype 'w chi_call = Use "'w handler \<Rightarrow> 'w handler" | Handle string string "'w handler" | Group "'w chi_call list"

record 'w Options =
  HealthProviders :: "'w health_providers"
  Authenticator :: "(string \<Rightarrow> 'w \<Rightarrow> (go_error + KeyInfo) \<times> 'w) option"
  AdminToken :: string
  AdminKeys :: "'w admin_env option"
  RateLimiter :: "'w reserver option"
  DebugBodies :: bool

record 'w server_env =
  sv_chi :: "'w chi"
  sv_chat :: "'w chat_env"
  sv_now :: "'w \<Rightarrow> instant"
  sv_zone :: "instant \<Rightarrow> int"
  sv_conv :: "float64 \<Rightarrow> int"
  sv_default :: logger

definition New :: "'w server_env \<Rightarrow> Registry \<Rightarrow> 'w Options \<Rightarrow> logger \<Rightarrow> 'w chi_call list" where
  "New env reg opts lg =
     [Use (chi_RequestID (sv_chi env)), Use (Observe_requests (sv_chi env) (sv_now env)), Use (chi_Recoverer (sv_chi env)),
      Use (RequestLogger (sv_chi env) (sv_now env) lg),
      Handle ''GET'' ''/health'' HandleHealth] @
     (if length (HealthProviders opts) > 0
      then [Handle ''GET'' ''/internal/health'' (HandleInternalHealth (sv_zone env) (sv_now env) (HealthProviders opts))] else []) @
     [Group
       ((case Authenticator opts of Some a \<Rightarrow> [Use (RequireAPIKey (sv_default env) a)] | None \<Rightarrow> []) @
        (case RateLimiter opts of Some l \<Rightarrow> [Use (RateLimit (sv_conv env) (sv_default env) (Some l))] | None \<Rightarrow> []) @
        (if DebugBodies opts then [Use (DebugRequestBodies (sv_default env) 0)] else []) @
        [Handle ''POST'' ''/v1/chat/completions'' (HandleChatCompletion (sv_chat env) (sv_default env)),
         Handle ''GET'' ''/v1/models'' (HandleListModels reg)])] @
     (case AdminKeys opts of
        Some keys \<Rightarrow>
          if AdminToken opts \<noteq> [] then
            [Group
              [Use (RequireAdminToken (AdminToken opts)),
               Handle ''POST'' ''/internal/admin/keys'' (Create_key keys (sv_default env)),
               Handle ''DELETE'' ''/internal/admin/keys/{id}'' (Revoke_key keys (sv_default env))]]
          else []
      | None \<Rightarrow> [])"

section \<open>What the router documents\<close>

text \<open>The middlewares of a router in the order of their \<^verbatim>\<open>Use\<close> calls, and its routes, each handler inside the middlewares of its groups.\<close>

fun middlewares :: "'w chi_call list \<Rightarrow> ('w handler \<Rightarrow> 'w handler) list" where
  "middlewares [] = []"
| "middlewares (Use mw # cs) = mw # middlewares cs"
| "middlewares (_ # cs) = middlewares cs"

definition wrap :: "('w handler \<Rightarrow> 'w handler) list \<Rightarrow> 'w handler \<Rightarrow> 'w handler" where
  "wrap mws h = foldr (\<lambda>mw h. mw h) mws h"

fun routes :: "'w chi_call list \<Rightarrow> (string \<times> string \<times> 'w handler) list" where
  "routes [] = []"
| "routes (Use mw # cs) = routes cs"
| "routes (Handle m p h # cs) = (m, p, h) # routes cs"
| "routes (Group gs # cs) = map (\<lambda>(m, p, h). (m, p, wrap (middlewares gs) h)) (routes gs) @ routes cs"

text \<open>A segment in braces matches one non-empty segment, any other segment itself.\<close>

definition segments :: "string \<Rightarrow> string list" where
  "segments s = rev (map rev (fold (\<lambda>c acc. if c = CHR ''/'' then [] # acc else (c # hd acc) # drop 1 acc) s [[]]))"

definition is_param :: "string \<Rightarrow> bool" where
  "is_param s \<longleftrightarrow> s \<noteq> [] \<and> hd s = CHR ''{'' \<and> last s = CHR ''}''"

definition pattern_matches :: "string \<Rightarrow> string \<Rightarrow> bool" where
  "pattern_matches p s \<longleftrightarrow> list_all2 (\<lambda>q t. if is_param q then t \<noteq> [] else q = t) (segments p) (segments s)"

definition matching :: "Request \<Rightarrow> string \<times> string \<times> 'w handler \<Rightarrow> bool" where
  "matching r = (\<lambda>(m, p, h). m = Method r \<and> pattern_matches p (Path r))"

definition mux_serve :: "'w handler \<Rightarrow> 'w chi_call list \<Rightarrow> 'w handler" where
  "mux_serve miss cs = wrap (middlewares cs) (\<lambda>r. case find (matching r) (routes cs) of Some (m, p, h) \<Rightarrow> h r | None \<Rightarrow> miss r)"

section \<open>Specification vocabulary\<close>

text \<open>
  What chi documents of its own middlewares: \<^verbatim>\<open>RequestID\<close> only sets the request's id, \<^verbatim>\<open>Recoverer\<close> does not touch a handler that returns and turns a panic into a
  response, leaving the rest of the world as the panic left it.
\<close>

definition chi_laws :: "'w chi \<Rightarrow> bool" where
  "chi_laws c \<longleftrightarrow>
     (\<forall>h r x. \<exists>i. chi_RequestID c h r x = h (r\<lparr>ctxReqID := i\<rparr>) x) \<and>
     (\<forall>h r x. returns (fst (h r x)) \<longrightarrow> chi_Recoverer c h r x = h r x) \<and>
     (\<forall>h r x. Block \<notin> set (fst (h r x)) \<longrightarrow> returns (fst (chi_Recoverer c h r x))) \<and>
     (\<forall>h r x. world (snd (chi_Recoverer c h r x)) = world (snd (h r x)))"

definition recovering_chi :: "'w chi" where
  "recovering_chi = plain_chi\<lparr>chi_RequestID := (\<lambda>h r. h (r\<lparr>ctxReqID := ''id''\<rparr>)),
     chi_Recoverer := (\<lambda>h r x. let (ops, y) = h r x in (if Panic \<in> set ops then takeWhile (\<lambda>op. op \<noteq> Panic) ops @ [SendHeader 500] else ops, y))\<rparr>"

definition api_request :: "Request \<Rightarrow> bool" where
  "api_request r \<longleftrightarrow> (Method r, Path r) \<in> {(''POST'', ''/v1/chat/completions''), (''GET'', ''/v1/models'')}"

definition admin_keys :: "(string \<times> string) list" where
  "admin_keys = [(''POST'', ''/internal/admin/keys''), (''DELETE'', ''/internal/admin/keys/{id}'')]"

definition admin_path :: "Request \<Rightarrow> bool" where
  "admin_path r \<longleftrightarrow> list_ex (\<lambda>(m, p). m = Method r \<and> pattern_matches p (Path r)) admin_keys"

text \<open>The answer to a request that no route matches, and a server environment over the trivial world.\<close>

definition not_found :: "'w handler" where
  "not_found r x = ([SendHeader 404], x)"

definition sample_server :: "'w server_env" where
  "sample_server = \<lparr>sv_chi = recovering_chi, sv_chat = sample_env, sv_now = (\<lambda>w. 0), sv_zone = (\<lambda>t. 0), sv_conv = (\<lambda>f. 0),
     sv_default = \<lparr>loggerLevel = LevelInfo, loggerAttrs = []\<rparr>\<rparr>"

definition sample_options :: "unit Options" where
  "sample_options = \<lparr>HealthProviders = [], Authenticator = Some (\<lambda>t w. (Inl (ErrSentinel ErrInvalidKey), w)), AdminToken = ''t'',
     AdminKeys = Some \<lparr>ae_read = (\<lambda>w. (Inl (ErrText ''EOF''), w)), ae_Create = (\<lambda>k h p w. (Inl (ErrText []), w)), ae_GetByID = (\<lambda>i w. (Inl (ErrText []), w)),
       ae_Revoke = (\<lambda>i w. (None, w)), ae_invalidate = None, ae_URLParam = (\<lambda>r n. []), ae_zone = (\<lambda>t. 0)\<rparr>, RateLimiter = None, DebugBodies = False\<rparr>"

text \<open>The token a request presents, and whether the authenticator takes it.\<close>

definition presented :: "Request \<Rightarrow> string option" where
  "presented r = bearerToken (Header_Get ''Authorization'' (reqHeader r))"

definition authorised :: "(string \<Rightarrow> 'w \<Rightarrow> (go_error + KeyInfo) \<times> 'w) \<Rightarrow> Request \<Rightarrow> 'w \<Rightarrow> bool" where
  "authorised a r w \<longleftrightarrow> (case presented r of Some t \<Rightarrow> \<not> isl (fst (a t w)) | None \<Rightarrow> False)"

section \<open>The router's contract\<close>

locale chi_router =
  fixes server :: "'w chi_call list \<Rightarrow> 'w handler"
    and dispatch :: "'w chi_call list \<Rightarrow> 'w handler"
    and miss :: "'w handler"
  assumes server_wraps: "server cs = wrap (middlewares cs) (dispatch cs)"
    and dispatch_match: "(m, p, h) \<in> set (routes cs) \<Longrightarrow> matching r (m, p, h) \<Longrightarrow>
      (\<And>q. q \<in> set (routes cs) \<Longrightarrow> matching r q \<Longrightarrow> q = (m, p, h)) \<Longrightarrow> dispatch cs r = h r"
    and dispatch_miss: "(\<And>q. q \<in> set (routes cs) \<Longrightarrow> \<not> matching r q) \<Longrightarrow> dispatch cs r = miss r"
begin

lemma dispatch_cases:
  assumes "\<And>q q'. q \<in> set (routes cs) \<Longrightarrow> q' \<in> set (routes cs) \<Longrightarrow> matching r q \<Longrightarrow> matching r q' \<Longrightarrow> q = q'"
  obtains m p h where "(m, p, h) \<in> set (routes cs)" "matching r (m, p, h)" "dispatch cs r = h r"
  | "dispatch cs r = miss r" "\<And>q. q \<in> set (routes cs) \<Longrightarrow> \<not> matching r q"
proof (cases "\<exists>q \<in> set (routes cs). matching r q")
  case True
  then obtain m p h where q: "(m, p, h) \<in> set (routes cs)" "matching r (m, p, h)" by (metis prod_cases3)
  have "dispatch cs r = h r" by (rule dispatch_match [OF q]) (rule assms [OF _ q(1) _ q(2)])
  with q show thesis by (rule that(1))
next
  case False
  then have none: "\<And>q. q \<in> set (routes cs) \<Longrightarrow> \<not> matching r q" by blast
  show thesis by (rule that(2) [OF dispatch_miss [OF none] none])
qed

end

interpretation mux: chi_router "mux_serve miss" "\<lambda>cs r. case find (matching r) (routes cs) of Some (m, p, h) \<Rightarrow> h r | None \<Rightarrow> miss r" miss for miss
proof unfold_locales
  fix cs :: "'a chi_call list" and m p h r
  assume q: "(m, p, h) \<in> set (routes cs)" "matching r (m, p, h)" "\<And>q. q \<in> set (routes cs) \<Longrightarrow> matching r q \<Longrightarrow> q = (m, p, h)"
  obtain q' where f: "find (matching r) (routes cs) = Some q'" "q' \<in> set (routes cs)" "matching r q'"
    using q(1,2) by (cases "find (matching r) (routes cs)") (auto simp: find_None_iff find_Some_iff)
  from q(3) [OF f(2,3)] f(1) show "(case find (matching r) (routes cs) of Some (m, p, h) \<Rightarrow> h r | None \<Rightarrow> miss r) = h r" by simp
next
  fix cs :: "'a chi_call list" and r
  assume "\<And>q. q \<in> set (routes cs) \<Longrightarrow> \<not> matching r q"
  then have "find (matching r) (routes cs) = None" by (simp add: find_None_iff)
  then show "(case find (matching r) (routes cs) of Some (m, p, h) \<Rightarrow> h r | None \<Rightarrow> miss r) = miss r" by simp
qed (simp add: mux_serve_def)

section \<open>The server's routes\<close>

definition api_handler :: "'w server_env \<Rightarrow> 'w Options \<Rightarrow> 'w handler \<Rightarrow> 'w handler" where
  "api_handler env opts h =
     (let h = (if DebugBodies opts then DebugRequestBodies (sv_default env) 0 h else h);
          h = (case RateLimiter opts of Some l \<Rightarrow> RateLimit (sv_conv env) (sv_default env) (Some l) h | None \<Rightarrow> h)
      in case Authenticator opts of Some a \<Rightarrow> RequireAPIKey (sv_default env) a h | None \<Rightarrow> h)"

lemma middlewares_append [simp]: "middlewares (xs @ ys) = middlewares xs @ middlewares ys"
  by (induction xs rule: middlewares.induct) simp_all

lemma routes_append [simp]: "routes (xs @ ys) = routes xs @ routes ys"
  by (induction xs rule: routes.induct) simp_all

lemma wrap_simps [simp]: "wrap [] h = h" "wrap (mw # mws) h = mw (wrap mws h)" "wrap (xs @ ys) h = wrap xs (wrap ys h)"
  by (simp_all add: wrap_def)

lemma New_routes:
  "routes (New env reg opts lg) =
     [(''GET'', ''/health'', HandleHealth)] @
     (if HealthProviders opts \<noteq> [] then [(''GET'', ''/internal/health'', HandleInternalHealth (sv_zone env) (sv_now env) (HealthProviders opts))] else []) @
     [(''POST'', ''/v1/chat/completions'', api_handler env opts (HandleChatCompletion (sv_chat env) (sv_default env))),
      (''GET'', ''/v1/models'', api_handler env opts (HandleListModels reg))] @
     (case AdminKeys opts of
        Some keys \<Rightarrow> if AdminToken opts \<noteq> [] then
          [(''POST'', ''/internal/admin/keys'', RequireAdminToken (AdminToken opts) (Create_key keys (sv_default env))),
           (''DELETE'', ''/internal/admin/keys/{id}'', RequireAdminToken (AdminToken opts) (Revoke_key keys (sv_default env)))] else []
      | None \<Rightarrow> [])"
  by (cases "Authenticator opts"; cases "RateLimiter opts"; cases "AdminKeys opts") (simp_all add: New_def api_handler_def)

lemma New_middlewares:
  "middlewares (New env reg opts lg) = [chi_RequestID (sv_chi env), Observe_requests (sv_chi env) (sv_now env), chi_Recoverer (sv_chi env),
     RequestLogger (sv_chi env) (sv_now env) lg]"
  by (simp add: New_def split: option.split)

text \<open>No request matches two routes: the patterns without parameters differ in their segments, and the one with a parameter has a method of its own.\<close>

definition static_keys :: "(string \<times> string) list" where
  "static_keys = [(''GET'', ''/health''), (''GET'', ''/internal/health''), (''POST'', ''/v1/chat/completions''), (''GET'', ''/v1/models''),
     (''POST'', ''/internal/admin/keys'')]"

definition param_key :: "string \<times> string" where
  "param_key = (''DELETE'', ''/internal/admin/keys/{id}'')"

lemma static_keys_facts:
  "list_all (\<lambda>(m, p). list_all (\<lambda>q. \<not> is_param q) (segments p) \<and> m \<noteq> fst param_key) static_keys"
  "distinct (map (\<lambda>(m, p). segments p) static_keys)"
  by code_simp+

lemma pattern_static: "list_all (\<lambda>q. \<not> is_param q) (segments p) \<Longrightarrow> pattern_matches p s \<longleftrightarrow> segments s = segments p"
proof -
  have "list_all (\<lambda>q. \<not> is_param q) ps \<Longrightarrow> list_all2 (\<lambda>q t. if is_param q then t \<noteq> [] else q = t) ps ss \<longleftrightarrow> ss = ps" for ps ss
    by (induction ps arbitrary: ss) (auto simp: list_all2_Cons1)
  then show "list_all (\<lambda>q. \<not> is_param q) (segments p) \<Longrightarrow> pattern_matches p s \<longleftrightarrow> segments s = segments p"
    by (simp add: pattern_matches_def)
qed

lemma static_match: "(m, p) \<in> set static_keys \<Longrightarrow> pattern_matches p s \<longleftrightarrow> segments s = segments p"
  using static_keys_facts(1) by (intro pattern_static) (auto simp: list_all_iff simp del: set_simps)

lemma route_key_unique:
  assumes "(m, p) \<in> insert param_key (set static_keys)" "(m, q) \<in> insert param_key (set static_keys)" "pattern_matches p s" "pattern_matches q s"
  shows "p = q"
proof (cases "m = fst param_key")
  case True
  with static_keys_facts(1) have "(m, p) \<notin> set static_keys" "(m, q) \<notin> set static_keys" by (auto simp: list_all_iff)
  with assms(1,2) show ?thesis by (metis insertE snd_conv)
next
  case False
  then have k: "(m, p) \<in> set static_keys" "(m, q) \<in> set static_keys" using assms(1,2) by (metis fst_conv insertE)+
  then have "segments p = segments q" using static_match assms(3,4) by metis
  with k inj_onD [of "\<lambda>(m, p). segments p" "set static_keys" "(m, p)" "(m, q)"] static_keys_facts(2) show ?thesis by (simp add: distinct_map)
qed

lemma New_route_keys:
  "(m, p, h) \<in> set (routes (New env reg opts lg)) \<Longrightarrow> (m, p) \<in> insert param_key (set static_keys)"
  unfolding New_routes static_keys_def param_key_def by (auto split: if_splits option.splits)

lemma New_keys_distinct: "distinct (map (\<lambda>(m, p, h). (m, p)) (routes (New env reg opts lg)))"
  by (cases "AdminKeys opts"; cases "AdminToken opts = []"; cases "HealthProviders opts = []") (simp_all add: New_routes)

lemma distinct_routes:
  assumes "q \<in> set (routes (New env reg opts lg))" "q' \<in> set (routes (New env reg opts lg))" "matching r q" "matching r q'"
  shows "q = q'"
proof -
  obtain m p h m' p' h' where q: "q = (m, p, h)" "q' = (m', p', h')" by (metis prod_cases3)
  have "m = m'" "pattern_matches p (Path r)" "pattern_matches p' (Path r)" using assms(3,4) by (simp_all add: q matching_def)
  then have "p = p'" using route_key_unique New_route_keys assms(1,2) unfolding q by metis
  with \<open>m = m'\<close> show ?thesis
    using inj_onD [OF conjunct2 [OF iffD1 [OF distinct_map New_keys_distinct]] _ assms(1,2)] by (simp add: q)
qed

section \<open>Handlers that answer\<close>

text \<open>A handler that never waits forever.\<close>

definition unblocked :: "'w handler \<Rightarrow> bool" where
  "unblocked h \<longleftrightarrow> (\<forall>r x. Block \<notin> set (fst (h r x)))"

named_theorems answering_handlers

lemma no_Block_apierr [simp]: "Block \<notin> set (apierr_Write code t c m)" "Block \<notin> set (writeAuthError m)" "Block \<notin> set (WriteRateLimit conv d m)"
  "Block \<notin> set (handleProviderError e)" "Block \<notin> set (setRateLimitHeaders res)" "Block \<notin> set (setRoutingHeaders dec)" "Block \<notin> set (json_response j)"
  "Block \<notin> set (writeRouterError ip m e)" "Block \<notin> set (finish_ops cw)"
  by (auto simp: apierr_Write_def writeAuthError_def WriteRateLimit_def handleProviderError_def setRateLimitHeaders_def setRoutingHeaders_def
      json_response_def writeRouterError_def finish_ops_def Let_def split: option.splits)

lemma no_Block_capture_op: "Block \<notin> set (snd (capture_op op cw)) \<longleftrightarrow> op \<noteq> Block"
  by (cases op) (auto simp: cw_Set_def cw_WriteHeader_def cw_Write_def cw_Flush_def Let_def split: prod.splits)

lemma no_Block_capture: "Block \<notin> set ops \<Longrightarrow> Block \<notin> set (snd (capture ops cw))"
proof (induction ops arbitrary: cw)
  case (Cons op ops)
  obtain cw1 a where a: "capture_op op cw = (cw1, a)" by fastforce
  have "Block \<notin> set a" using no_Block_capture_op [of op cw] a Cons.prems by auto
  moreover have "Block \<notin> set (snd (capture ops cw1))" using Cons by simp
  ultimately show ?case using a by (simp add: case_prod_unfold Let_def)
qed simp

lemma unblocked_info [answering_handlers]:
  "unblocked HandleHealth" "unblocked (HandleInternalHealth zone now ps)" "unblocked (HandleListModels reg)"
  by (simp_all add: unblocked_def HandleHealth_def HandleInternalHealth_def HandleListModels_def Let_def)

lemma unblocked_RequireAPIKey [answering_handlers]: "unblocked h \<Longrightarrow> unblocked (RequireAPIKey dflt a h)"
  by (auto simp: unblocked_def RequireAPIKey_def Let_def split: option.splits prod.splits sum.splits if_splits)

lemma unblocked_RequireAdminToken [answering_handlers]: "unblocked h \<Longrightarrow> unblocked (RequireAdminToken tok h)"
  by (auto simp: unblocked_def RequireAdminToken_def Let_def split: option.splits if_splits)

lemma unblocked_RateLimit [answering_handlers]: "unblocked h \<Longrightarrow> unblocked (RateLimit conv dflt l h)"
proof -
  assume h: "unblocked h"
  have "Block \<notin> set (fst (serve conv dflt s h r x))" for s r x
    using h no_Block_capture [of "fst (h r y)" newCapture for y]
    by (auto simp: serve_def unblocked_def finish_def Let_def split: option.splits sum.splits prod.splits if_splits) (metis fst_conv snd_conv)+
  with h show ?thesis by (simp add: unblocked_def RateLimit_def split: option.splits)
qed

lemma unblocked_DebugRequestBodies [answering_handlers]: "unblocked h \<Longrightarrow> unblocked (DebugRequestBodies dflt n h)"
  by (simp add: unblocked_def DebugRequestBodies_def Let_def split: option.split prod.split read_end.split)

lemma unblocked_RequestLogger [answering_handlers]: "unblocked h \<Longrightarrow> unblocked (RequestLogger c now lg h)"
  by (auto simp: unblocked_def RequestLogger_def Let_def split: prod.splits if_splits) (metis fst_conv)+

lemma unblocked_Revoke_key [answering_handlers]: "unblocked (Revoke_key keys dflt)"
  by (auto simp: unblocked_def Revoke_key_def Let_def split: prod.splits sum.splits option.splits if_splits)

lemma unblocked_Create_key [answering_handlers]: "(\<And>w. generatePlaintextKey (ae_read keys) w \<noteq> None) \<Longrightarrow> unblocked (Create_key keys dflt)"
  by (auto simp: unblocked_def Create_key_def Let_def split: decoded.splits prod.splits sum.splits option.splits if_splits) (metis option.distinct(1))

lemma no_Block_stream_loop [simp]: "Block \<notin> set (fst (stream_loop lg name evts x))"
  by (induction lg name evts x rule: stream_loop.induct) (auto split: prod.splits)

lemma no_Block_handleStream: "fst (ce_Stream env p req (world x)) \<noteq> (None, None) \<Longrightarrow> Block \<notin> set (fst (handleStream env dflt r p req d x))"
proof -
  assume s: "fst (ce_Stream env p req (world x)) \<noteq> (None, None)"
  obtain ch err ms w where c: "ce_Stream env p req (world x) = ((ch, err), ms, w)" by (metis prod_cases4 prod.collapse)
  have l: "Block \<notin> set (fst (stream_loop lg name evts y))" for lg name evts and y :: "'a exchange" by simp
  show ?thesis
  proof (cases err)
    case None
    then obtain evts where "ch = Some evts" using s c by auto
    then show ?thesis using None c l
      by (auto simp: handleStream_def Let_def case_prod_unfold)
  qed (simp add: handleStream_def c)
qed

lemma unblocked_chat [answering_handlers]:
  assumes "\<And>p req w. fst (ce_Stream env p req w) \<noteq> (None, None)"
  shows "unblocked (HandleChatCompletion env dflt)"
proof -
  have n: "Block \<notin> set (fst (handleNonStream env p req d x))" for p req d x
    by (auto simp: handleNonStream_def Let_def case_prod_unfold split: option.split)
  have "Block \<notin> set (fst (HandleChatCompletion env dflt r x))" for r x
    using n no_Block_handleStream [where env = env, OF assms]
    by (auto simp: HandleChatCompletion_def Let_def split: decoded.split prod.split route_result.split)
  then show ?thesis by (simp add: unblocked_def)
qed

lemma unblocked_api [answering_handlers]: "unblocked h \<Longrightarrow> unblocked (api_handler env opts h)"
  by (simp add: api_handler_def Let_def answering_handlers split: option.split)

context chi_router
begin

lemma server_New:
  "server (New env reg opts lg) = chi_RequestID (sv_chi env) (Observe_requests (sv_chi env) (sv_now env) (chi_Recoverer (sv_chi env)
     (RequestLogger (sv_chi env) (sv_now env) lg (dispatch (New env reg opts lg)))))"
  by (simp add: server_wraps New_middlewares)

lemma dispatch_New:
  "(m, p, h) \<in> set (routes (New env reg opts lg)) \<Longrightarrow> matching r (m, p, h) \<Longrightarrow> dispatch (New env reg opts lg) r = h r"
  by (rule dispatch_match) (auto dest: distinct_routes)

lemma unblocked_dispatch:
  assumes "unblocked miss" "\<And>m p h. (m, p, h) \<in> set (routes (New env reg opts lg)) \<Longrightarrow> unblocked h"
  shows "unblocked (dispatch (New env reg opts lg))"
proof -
  have "Block \<notin> set (fst (dispatch (New env reg opts lg) r x))" for r x
    by (rule dispatch_cases [of "New env reg opts lg" r, OF distinct_routes]) (use assms in \<open>auto simp: unblocked_def\<close>)
  then show ?thesis by (simp add: unblocked_def)
qed

lemma server_returns:
  assumes "chi_laws (sv_chi env)" "unblocked (dispatch (New env reg opts lg))"
  shows "returns (fst (server (New env reg opts lg) r x))"
proof -
  let ?inner = "RequestLogger (sv_chi env) (sv_now env) lg (dispatch (New env reg opts lg))"
  have "unblocked ?inner" using assms(2) by (rule unblocked_RequestLogger)
  then have rec: "returns (fst (chi_Recoverer (sv_chi env) ?inner r x))" for r x
    using assms(1) by (simp add: chi_laws_def unblocked_def)
  obtain i where "server (New env reg opts lg) r x = Observe_requests (sv_chi env) (sv_now env) (chi_Recoverer (sv_chi env) ?inner) (r\<lparr>ctxReqID := i\<rparr>) x"
    using assms(1) unfolding server_New chi_laws_def by blast
  then show ?thesis using rec [of "r\<lparr>ctxReqID := i\<rparr>" x] by (simp add: Observe_requests_def Let_def case_prod_unfold)
qed

lemma server_answer:
  assumes "chi_laws (sv_chi env)"
    and "\<And>i l. returns (fst (dispatch (New env reg opts lg) (r\<lparr>ctxReqID := i, ctxLogger := Some l\<rparr>) (x\<lparr>info := Some emptyRequestInfo\<rparr>)))"
  obtains i l pre where "\<forall>op \<in> set pre. \<exists>k v. op = SetHeader k v"
    "fst (server (New env reg opts lg) r x) = pre @ fst (dispatch (New env reg opts lg) (r\<lparr>ctxReqID := i, ctxLogger := Some l\<rparr>) (x\<lparr>info := Some emptyRequestInfo\<rparr>))"
    "world (snd (server (New env reg opts lg) r x)) =
       world (snd (dispatch (New env reg opts lg) (r\<lparr>ctxReqID := i, ctxLogger := Some l\<rparr>) (x\<lparr>info := Some emptyRequestInfo\<rparr>)))"
proof -
  let ?inner = "RequestLogger (sv_chi env) (sv_now env) lg (dispatch (New env reg opts lg))"
  obtain i where i: "server (New env reg opts lg) r x = Observe_requests (sv_chi env) (sv_now env) (chi_Recoverer (sv_chi env) ?inner) (r\<lparr>ctxReqID := i\<rparr>) x"
    using assms(1) unfolding server_New chi_laws_def by blast
  define l where "l = lg\<lparr>loggerAttrs := loggerAttrs lg @ [(''request_id'', StrAttr i)]\<rparr>"
  define pre where "pre = (if i \<noteq> [] then [SetHeader ''X-Request-Id'' i] else [])"
  let ?d = "dispatch (New env reg opts lg) (r\<lparr>ctxReqID := i, ctxLogger := Some l\<rparr>) (x\<lparr>info := Some emptyRequestInfo\<rparr>)"
  have pre: "returns (pre @ fst ?d)" using assms(2) [where i = i and l = l] by (simp add: returns_def pre_def)
  have inner: "fst (?inner (r\<lparr>ctxReqID := i\<rparr>) x) = pre @ fst ?d" "world (snd (?inner (r\<lparr>ctxReqID := i\<rparr>) x)) = world (snd ?d)"
    using pre by (simp_all add: RequestLogger_def Let_def l_def pre_def case_prod_unfold log_to_def)
  then have "chi_Recoverer (sv_chi env) ?inner (r\<lparr>ctxReqID := i\<rparr>) x = ?inner (r\<lparr>ctxReqID := i\<rparr>) x"
    using pre assms(1) by (simp add: chi_laws_def)
  with i inner pre have "fst (server (New env reg opts lg) r x) = pre @ fst ?d" "world (snd (server (New env reg opts lg) r x)) = world (snd ?d)"
    by (simp_all add: Observe_requests_def Let_def case_prod_unfold emit_def)
  then show thesis by (rule that [rotated]) (simp add: pre_def)
qed

end

section \<open>The gates\<close>

lemma returns_apierr [simp]: "returns (apierr_Write code t c m)"
  by (simp add: returns_def apierr_Write_def)

lemma status_after_headers:
  assumes "\<forall>op \<in> set pre. \<exists>k v. op = SetHeader k v" "final_code code"
  shows "status_of (pre @ apierr_Write code t c m) = Some code"
  using SetHeaders_fresh [OF assms(1), of new_response] apierr_Write_fresh [OF assms(2), of "run_ops pre new_response" t c m]
  by (auto simp: status_of_def new_response_def)

lemma RequireAPIKey_refused:
  assumes "\<not> authorised a r (world x)"
  shows "\<exists>code t c m. fst (RequireAPIKey dflt a h r x) = apierr_Write code t c m \<and> (code = 401 \<or> code = 503) \<and>
    world (snd (RequireAPIKey dflt a h r x)) = (case presented r of Some t \<Rightarrow> snd (a t (world x)) | None \<Rightarrow> world x)"
proof (cases "presented r")
  case None
  then show ?thesis
    by (auto simp: RequireAPIKey_def presented_def writeAuthError_def emit_def Let_def)
next
  case (Some t)
  then obtain e w where e: "a t (world x) = (Inl e, w)" using assms by (cases "a t (world x)"; cases "fst (a t (world x))") (auto simp: authorised_def)
  have "TrimSpace (Header_Get ''Authorization'' (reqHeader r)) \<noteq> []" using Some by (auto simp: presented_def bearerToken_def Let_def)
  then show ?thesis
    using Some e
    by (cases "errors_Is e ErrInvalidKey") (auto simp: RequireAPIKey_def presented_def writeAuthError_def emit_def log_to_def Let_def)
qed

lemma RequireAdminToken_refused:
  assumes "presented r \<noteq> Some tok \<or> tok = []"
  shows "\<exists>t c m. fst (RequireAdminToken tok h r x) = apierr_Write 401 t c m \<and> world (snd (RequireAdminToken tok h r x)) = world x"
  using assms
  by (cases "presented r") (auto simp: RequireAdminToken_def presented_def writeAuthError_def emit_def Let_def split: if_splits)

lemma New_handlers:
  assumes "(m, p, h) \<in> set (routes (New env reg opts lg))"
  shows "h = HandleHealth \<or> h = HandleInternalHealth (sv_zone env) (sv_now env) (HealthProviders opts) \<or>
    (\<exists>g. h = api_handler env opts g \<and> (g = HandleChatCompletion (sv_chat env) (sv_default env) \<or> g = HandleListModels reg)) \<or>
    (\<exists>keys g. AdminKeys opts = Some keys \<and> h = RequireAdminToken (AdminToken opts) g \<and> (g = Create_key keys (sv_default env) \<or> g = Revoke_key keys (sv_default env)))"
  using assms by (cases "AdminKeys opts") (auto simp: New_routes split: if_splits)

lemma chi_laws_recovering: "chi_laws recovering_chi"
proof -
  have "returns (takeWhile (\<lambda>op. op \<noteq> Panic) ops @ [SendHeader 500])" if "Block \<notin> set ops" for ops
    using that set_takeWhileD [of _ "\<lambda>op. op \<noteq> Panic" ops] by (auto simp: returns_def)
  then show ?thesis
    by (simp add: chi_laws_def recovering_chi_def Let_def case_prod_unfold returns_def) blast
qed

lemma api_dispatch:
  assumes "api_request r"
  obtains m p h where "(m, p, api_handler env opts h) \<in> set (routes (New env reg opts lg))" "matching r (m, p, api_handler env opts h)"
proof -
  have k: "(''POST'', ''/v1/chat/completions'') \<in> set static_keys" "(''GET'', ''/v1/models'') \<in> set static_keys" by (simp_all add: static_keys_def)
  from assms consider "Method r = ''POST''" "Path r = ''/v1/chat/completions''" | "Method r = ''GET''" "Path r = ''/v1/models''"
    unfolding api_request_def by blast
  then show thesis
  proof cases
    case 1
    show thesis
      by (rule that [of "''POST''" "''/v1/chat/completions''" "HandleChatCompletion (sv_chat env) (sv_default env)"])
        (simp_all add: New_routes matching_def 1 static_match [OF k(1)])
  next
    case 2
    show thesis
      by (rule that [of "''GET''" "''/v1/models''" "HandleListModels reg"]) (simp_all add: New_routes matching_def 2 static_match [OF k(2)])
  qed
qed

lemma admin_dispatch:
  assumes "admin_path r" "AdminKeys opts \<noteq> None \<and> AdminToken opts \<noteq> []"
  obtains m p h where "(m, p, RequireAdminToken (AdminToken opts) h) \<in> set (routes (New env reg opts lg))"
    "matching r (m, p, RequireAdminToken (AdminToken opts) h)"
proof -
  obtain keys where keys: "AdminKeys opts = Some keys" using assms(2) by blast
  from assms(1) consider "Method r = ''POST''" "pattern_matches ''/internal/admin/keys'' (Path r)"
    | "Method r = ''DELETE''" "pattern_matches ''/internal/admin/keys/{id}'' (Path r)"
    unfolding admin_path_def admin_keys_def by auto
  then show thesis
  proof cases
    case 1
    show thesis
      by (rule that [of "''POST''" "''/internal/admin/keys''" "Create_key keys (sv_default env)"]) (simp_all add: New_routes matching_def keys assms(2) 1)
  next
    case 2
    show thesis
      by (rule that [of "''DELETE''" "''/internal/admin/keys/{id}''" "Revoke_key keys (sv_default env)"]) (simp_all add: New_routes matching_def keys assms(2) 2)
  qed
qed

lemma admin_keys_facts: "set admin_keys \<subseteq> insert param_key (set static_keys)"
  by (simp add: admin_keys_def static_keys_def param_key_def)

lemma admin_unmounted:
  assumes "admin_path r" "\<not> (AdminKeys opts \<noteq> None \<and> AdminToken opts \<noteq> [])" "q \<in> set (routes (New env reg opts lg))"
  shows "\<not> matching r q"
proof
  assume m: "matching r q"
  obtain m p h where q: "q = (m, p, h)" by (metis prod_cases3)
  obtain p' where p': "(m, p') \<in> set admin_keys" "pattern_matches p' (Path r)"
    using assms(1) m by (auto simp: admin_path_def list_ex_iff q matching_def)
  have "p = p'"
    using route_key_unique [OF New_route_keys [OF assms(3) [unfolded q]] subsetD [OF admin_keys_facts p'(1)], of "Path r"] m p'(2) by (simp add: q matching_def)
  then have "(m, p) \<in> set admin_keys" using p'(1) by simp
  moreover have "(m, p) \<in> (\<lambda>(m, p, h). (m, p)) ` set (routes (New env reg opts lg))" using assms(3) by (force simp: q)
  ultimately show False
    using assms(2) by (cases "AdminKeys opts"; cases "HealthProviders opts = []") (auto simp: New_routes admin_keys_def)
qed

section \<open>Properties\<close>

lemma api_refused:
  assumes "chi_router http dispatch miss" "chi_laws (sv_chi env)"
    and "api_request r" "Authenticator opts = Some a" "\<not> authorised a r (world x)"
  shows "status_of (fst (http (New env reg opts lg) r x)) \<in> {Some 401, Some 503} \<and>
    world (snd (http (New env reg opts lg) r x)) = (case presented r of Some t \<Rightarrow> snd (a t (world x)) | None \<Rightarrow> world x)"
proof -
  note R = chi_router.dispatch_New [OF assms(1), where env = env and reg = reg and opts = opts and lg = lg]
  let ?r = "\<lambda>i l. r\<lparr>ctxReqID := i, ctxLogger := Some l\<rparr>" and ?x = "x\<lparr>info := Some emptyRequestInfo\<rparr>"
  obtain m p h where h: "(m, p, api_handler env opts h) \<in> set (routes (New env reg opts lg))" "matching r (m, p, api_handler env opts h)"
    using api_dispatch [OF assms(3)] by blast
  obtain h' where h': "api_handler env opts h = RequireAPIKey (sv_default env) a h'" using assms(4) by (simp add: api_handler_def Let_def)
  have d: "dispatch (New env reg opts lg) (?r i l) = RequireAPIKey (sv_default env) a h' (?r i l)" for i l
    unfolding h' [symmetric] by (rule R [OF h(1)]) (use h(2) in \<open>simp add: matching_def\<close>)
  have ref: "\<exists>code t c m. fst (RequireAPIKey (sv_default env) a h' (?r i l) ?x) = apierr_Write code t c m \<and> (code = 401 \<or> code = 503) \<and>
      world (snd (RequireAPIKey (sv_default env) a h' (?r i l) ?x)) = (case presented r of Some t \<Rightarrow> snd (a t (world x)) | None \<Rightarrow> world x)" for i l
  proof -
    have "\<not> authorised a (?r i l) (world ?x)" and same: "presented (?r i l) = presented r" "world ?x = world x"
      using assms(5) by (simp_all add: authorised_def presented_def)
    from RequireAPIKey_refused [OF this(1), of "sv_default env" h'] show ?thesis unfolding same .
  qed
  then have ret: "returns (fst (dispatch (New env reg opts lg) (?r i l) ?x))" for i l unfolding d by (metis returns_apierr)
  show ?thesis
  proof (rule chi_router.server_answer [OF assms(1,2) ret])
    fix i l pre
    assume pre: "\<forall>op \<in> set pre. \<exists>k v. op = SetHeader k v" "fst (http (New env reg opts lg) r x) = pre @ fst (dispatch (New env reg opts lg) (?r i l) ?x)"
      "world (snd (http (New env reg opts lg) r x)) = world (snd (dispatch (New env reg opts lg) (?r i l) ?x))"
    from ref obtain code t c m where c: "fst (RequireAPIKey (sv_default env) a h' (?r i l) ?x) = apierr_Write code t c m" "code = 401 \<or> code = 503"
      "world (snd (RequireAPIKey (sv_default env) a h' (?r i l) ?x)) = (case presented r of Some t \<Rightarrow> snd (a t (world x)) | None \<Rightarrow> world x)" by blast
    then have "final_code code" by (auto simp: final_code_def)
    with status_after_headers [OF pre(1)] pre(2,3) c show ?thesis unfolding d by auto
  qed
qed

text \<open>
  C7. Nothing behind the API is reachable without a key. With an authenticator configured, a request to an API endpoint that carries no token, or one the
  authenticator does not accept, is answered with 401 or 503, and the only thing that has happened to the world is the authenticator's own work: no quota was
  used, no provider was called. This holds for every router that keeps chi's contract, through all middlewares of the server.
\<close>

theorem server_guards_api:
  assumes "chi_router http dispatch miss" "chi_laws (sv_chi env)"
    and "api_request r" "Authenticator opts = Some a" "\<not> authorised a r (world x)"
  shows "status_of (fst (http (New env reg opts lg) r x)) \<in> {Some 401, Some 503} \<and>
    world (snd (http (New env reg opts lg) r x)) = (case presented r of Some t \<Rightarrow> snd (a t (world x)) | None \<Rightarrow> world x)"
  using assms by (rule api_refused)

theorem server_guards_api_witness:
  "status_of (fst (mux_serve not_found (New sample_server NewRegistry sample_options \<lparr>loggerLevel = LevelInfo, loggerAttrs = []\<rparr>) sample_request
     \<lparr>info = None, emitted = [], logged = [], world = ()\<rparr>)) \<in> {Some 401, Some 503}"
proof (rule conjunct1 [OF server_guards_api [OF mux.chi_router_axioms, where a = "\<lambda>t w. (Inl (ErrSentinel ErrInvalidKey), w)"]])
  show "\<not> authorised (\<lambda>t w. (Inl (ErrSentinel ErrInvalidKey), w)) sample_request (world \<lparr>info = None, emitted = [], logged = [], world = ()\<rparr>)"
    by (simp add: authorised_def split: option.split)
qed (simp_all add: sample_server_def sample_options_def sample_request_def api_request_def chi_laws_recovering)

lemma sample_admin_path: "admin_path (admin_request sample_create)"
proof -
  have "(''POST'', ''/internal/admin/keys'') \<in> set static_keys" by (simp add: static_keys_def)
  then have "pattern_matches ''/internal/admin/keys'' ''/internal/admin/keys''" by (simp only: static_match)
  then show ?thesis by (simp add: admin_path_def admin_keys_def admin_request_def)
qed

lemma sample_admin_token: "presented (admin_request sample_create) = None"
proof -
  have "Header_Get ''Authorization'' [] = []" by (simp add: Header_Get_def)
  moreover have "trim_left f [] = []" for f by (simp add: trim_left.simps [of f "[]"] split: option.split)
  then have "bearerToken [] = None" by (simp add: bearerToken_def TrimSpace_def Let_def)
  ultimately show ?thesis by (simp add: presented_def admin_request_def)
qed

lemma admin_refused:
  assumes "chi_router http dispatch miss" "chi_laws (sv_chi env)" "\<And>r x. returns (fst (miss r x)) \<and> world (snd (miss r x)) = world x"
    and "admin_path r" "AdminKeys opts = None \<or> AdminToken opts = [] \<or> presented r \<noteq> Some (AdminToken opts)"
  shows "world (snd (http (New env reg opts lg) r x)) = world x \<and>
    (if AdminKeys opts \<noteq> None \<and> AdminToken opts \<noteq> [] then status_of (fst (http (New env reg opts lg) r x)) = Some 401 else True)"
proof -
  let ?r = "\<lambda>i l. r\<lparr>ctxReqID := i, ctxLogger := Some l\<rparr>" and ?x = "x\<lparr>info := Some emptyRequestInfo\<rparr>"
  let ?d = "dispatch (New env reg opts lg)"
  have ref: "returns (fst (?d (?r i l) ?x)) \<and> world (snd (?d (?r i l) ?x)) = world x \<and>
      (if AdminKeys opts \<noteq> None \<and> AdminToken opts \<noteq> [] then \<exists>t c m. fst (?d (?r i l) ?x) = apierr_Write 401 t c m else True)" for i l
  proof (cases "AdminKeys opts \<noteq> None \<and> AdminToken opts \<noteq> []")
    case True
    obtain m p h where h: "(m, p, RequireAdminToken (AdminToken opts) h) \<in> set (routes (New env reg opts lg))" "matching r (m, p, RequireAdminToken (AdminToken opts) h)"
      using admin_dispatch [OF assms(4) True] by blast
    have d: "?d (?r i l) = RequireAdminToken (AdminToken opts) h (?r i l)"
      by (rule chi_router.dispatch_New [OF assms(1) h(1)]) (use h(2) in \<open>simp add: matching_def\<close>)
    have "presented (?r i l) \<noteq> Some (AdminToken opts) \<or> AdminToken opts = []" using assms(5) True by (auto simp: presented_def)
    from RequireAdminToken_refused [OF this, of h ?x] True show ?thesis unfolding d by auto
  next
    case False
    then have "\<not> matching (?r i l) q" if "q \<in> set (routes (New env reg opts lg))" for q
      using admin_unmounted [OF assms(4) _ that] by (auto simp: matching_def)
    then have "?d (?r i l) = miss (?r i l)" by (rule chi_router.dispatch_miss [OF assms(1)])
    with assms(3) [of "?r i l" ?x] False show ?thesis by auto
  qed
  show ?thesis
  proof (rule chi_router.server_answer [OF assms(1,2), where r = r and x = x and reg = reg and opts = opts and lg = lg])
    fix i l show "returns (fst (?d (?r i l) ?x))" using ref by blast
  next
    fix i l pre
    assume pre: "\<forall>op \<in> set pre. \<exists>k v. op = SetHeader k v" "fst (http (New env reg opts lg) r x) = pre @ fst (?d (?r i l) ?x)"
      "world (snd (http (New env reg opts lg) r x)) = world (snd (?d (?r i l) ?x))"
    have "final_code 401" by (simp add: final_code_def)
    with status_after_headers [OF pre(1) this] pre(2,3) ref [where i = i and l = l] show ?thesis by (auto split: if_splits)
  qed
qed



lemma server_serves:
  assumes "chi_router http dispatch miss" "chi_laws (sv_chi env)" "unblocked miss"
    and "\<And>p req w. fst (ce_Stream (sv_chat env) p req w) \<noteq> (None, None)"
    and "\<And>keys w. AdminKeys opts = Some keys \<Longrightarrow> generatePlaintextKey (ae_read keys) w \<noteq> None"
  shows "returns (fst (http (New env reg opts lg) r x))"
proof (rule chi_router.server_returns [OF assms(1,2)], rule chi_router.unblocked_dispatch [OF assms(1,3)])
  fix m p h assume "(m, p, h) \<in> set (routes (New env reg opts lg))"
  from New_handlers [OF this] consider "h = HandleHealth" | "h = HandleInternalHealth (sv_zone env) (sv_now env) (HealthProviders opts)"
    | g where "h = api_handler env opts g" "g = HandleChatCompletion (sv_chat env) (sv_default env) \<or> g = HandleListModels reg"
    | keys g where "AdminKeys opts = Some keys" "h = RequireAdminToken (AdminToken opts) g" "g = Create_key keys (sv_default env) \<or> g = Revoke_key keys (sv_default env)"
    by blast
  then show "unblocked h"
    by cases (auto intro!: answering_handlers assms(4,5))
qed

text \<open>
  The server answers every request, whatever it asks for: if the provider's stream call never returns neither a channel nor an error and the random source
  delivers, then no request waits forever and a panic in a handler becomes a response. This holds for every router that keeps chi's contract.
\<close>

theorem server_answers:
  assumes "chi_router http dispatch miss" "chi_laws (sv_chi env)" "unblocked miss"
    and "\<And>p req w. fst (ce_Stream (sv_chat env) p req w) \<noteq> (None, None)"
    and "\<And>keys w. AdminKeys opts = Some keys \<Longrightarrow> generatePlaintextKey (ae_read keys) w \<noteq> None"
  shows "returns (fst (http (New env reg opts lg) r x))"
  using assms by (rule server_serves)

theorem server_answers_witness:
  "returns (fst (mux_serve not_found (New sample_server NewRegistry sample_options \<lparr>loggerLevel = LevelInfo, loggerAttrs = []\<rparr>) sample_request
     \<lparr>info = None, emitted = [], logged = [], world = ()\<rparr>))"
proof (rule server_answers [OF mux.chi_router_axioms])
  fix keys :: "unit admin_env" and w
  assume "AdminKeys sample_options = Some keys"
  then have "ae_read keys w = (Inl (ErrText ''EOF''), w)" by (auto simp: sample_options_def)
  then have "generatePlaintextKey (ae_read keys) w = Some (Inl (ErrText ''EOF''), w)"
    by (auto simp: generated_error_iff accepted_def keyBodyLen_def intro!: exI [of _ "[]"])
  then show "generatePlaintextKey (ae_read keys) w \<noteq> None" by simp
qed (simp_all add: sample_server_def sample_env_def chi_laws_recovering unblocked_def not_found_def)

end
