(* ===== verification/Store_Connect.thy ===== *)
theory Store_Connect
  imports Key_Store "HOL-Library.Multiset"
begin

text \<open>
  Opening the stores: \<^verbatim>\<open>internal/store/postgres.go\<close>, \<^verbatim>\<open>redis.go\<close> and the runner of \<^verbatim>\<open>migrate.go\<close>. The drivers are not part of the repository; what the code
  calls of them are the fields of \<open>pgx\<close>, \<open>redis_lib\<close> and \<open>migrate_lib\<close> over a world of connections. What the callers rely on is that a constructor that
  fails leaves nothing open behind it.
\<close>

section \<open>Postgres\<close>

record ('c, 'cfg, 'pool) pgx =
  pg_ParseConfig :: "string \<Rightarrow> go_error + 'cfg"
  pg_setMaxConns :: "int \<Rightarrow> 'cfg \<Rightarrow> 'cfg"
  pg_NewWithConfig :: "'cfg \<Rightarrow> 'c \<Rightarrow> (go_error + 'pool) \<times> 'c"
  pg_Ping :: "'pool \<Rightarrow> 'c \<Rightarrow> go_error option \<times> 'c"
  pg_Close :: "'pool \<Rightarrow> 'c \<Rightarrow> 'c"

text \<open>The conversion to \<^verbatim>\<open>int32\<close> keeps the low 32 bits.\<close>

definition to_int32 :: "int \<Rightarrow> int" where
  "to_int32 n = (n + 2 ^ 31) mod 2 ^ 32 - 2 ^ 31"

definition NewPool :: "('c, 'cfg, 'pool) pgx \<Rightarrow> string \<Rightarrow> int \<Rightarrow> 'c \<Rightarrow> (go_error + 'pool) \<times> 'c" where
  "NewPool lib dsn maxConns c =
     (case pg_ParseConfig lib dsn of
        Inl err \<Rightarrow> (Inl (ErrWrapped ''parsing dsn: '' err), c)
      | Inr cfg \<Rightarrow>
          (let cfg = (if maxConns > 0 then pg_setMaxConns lib (to_int32 maxConns) cfg else cfg) in
           case pg_NewWithConfig lib cfg c of
             (Inl err, c) \<Rightarrow> (Inl (ErrWrapped ''creating pool: '' err), c)
           | (Inr pool, c) \<Rightarrow>
               (case pg_Ping lib pool c of
                  (Some err, c) \<Rightarrow> (Inl (ErrWrapped ''pinging database: '' err), pg_Close lib pool c)
                | (None, c) \<Rightarrow> (Inr pool, c))))"

section \<open>Redis\<close>

record ('c, 'opts, 'client) redis_lib =
  rd_ParseURL :: "string \<Rightarrow> go_error + 'opts"
  rd_NewClient :: "'opts \<Rightarrow> 'c \<Rightarrow> 'client \<times> 'c"
  rd_Ping :: "'client \<Rightarrow> 'c \<Rightarrow> go_error option \<times> 'c"
  rd_Close :: "'client \<Rightarrow> 'c \<Rightarrow> 'c"

definition store_NewRedis :: "('c, 'opts, 'client) redis_lib \<Rightarrow> string \<Rightarrow> 'c \<Rightarrow> (go_error + 'client) \<times> 'c" where
  "store_NewRedis lib dsn c =
     (if dsn = [] then (Inl (ErrText ''redis dsn is empty''), c)
      else case rd_ParseURL lib dsn of
          Inl err \<Rightarrow> (Inl (ErrWrapped ''parsing redis dsn: '' err), c)
        | Inr opts \<Rightarrow>
            (let (client, c) = rd_NewClient lib opts c in
             case rd_Ping lib client c of
               (Some err, c) \<Rightarrow> (Inl (ErrWrapped ''pinging redis: '' err), rd_Close lib client c)
             | (None, c) \<Rightarrow> (Inr client, c)))"

section \<open>Migrations\<close>

datatype up_result = UpApplied | UpNoChange | UpFailed go_error

record ('c, 'src, 'm) migrate_lib =
  mg_Source :: "'c \<Rightarrow> (go_error + 'src) \<times> 'c"
  mg_New :: "'src \<Rightarrow> string \<Rightarrow> 'c \<Rightarrow> (go_error + 'm) \<times> 'c"
  mg_Up :: "'m \<Rightarrow> 'c \<Rightarrow> up_result \<times> 'c"
  mg_Close :: "'m \<Rightarrow> 'c \<Rightarrow> (go_error option \<times> go_error option) \<times> 'c"

text \<open>The result and, when the deferred close fails, the two errors it logs.\<close>

definition RunMigrations :: "('c, 'src, 'm) migrate_lib \<Rightarrow> string \<Rightarrow> 'c \<Rightarrow>
  (go_error option \<times> (go_error option \<times> go_error option) option) \<times> 'c"
where
  "RunMigrations lib dsn c =
     (case mg_Source lib c of
        (Inl err, c) \<Rightarrow> ((Some (ErrWrapped ''opening embedded migrations: '' err), None), c)
      | (Inr src, c) \<Rightarrow>
          (case dsnForMigrate dsn of
             Inl err \<Rightarrow> ((Some (ErrWrapped ''normalising dsn: '' err), None), c)
           | Inr migrateDSN \<Rightarrow>
               (case mg_New lib src migrateDSN c of
                  (Inl err, c) \<Rightarrow> ((Some (ErrWrapped ''creating migrate instance: '' err), None), c)
                | (Inr m, c) \<Rightarrow>
                    (let (up, c) = mg_Up lib m c;
                         ((srcErr, dbErr), c) = mg_Close lib m c
                     in ((case up of UpFailed err \<Rightarrow> Some (ErrWrapped ''applying migrations: '' err) | _ \<Rightarrow> None,
                          if srcErr \<noteq> None \<or> dbErr \<noteq> None then Some (srcErr, dbErr) else None), c)))))"

section \<open>What the drivers document\<close>

text \<open>
  \<open>handles c\<close> are the handles open in the world \<open>c\<close>. A construction that fails opens nothing, a ping and a run of the migrations open and close nothing,
  and closing a handle closes that handle only, whatever errors it reports.
\<close>

definition pgx_laws :: "('c, 'cfg, 'pool) pgx \<Rightarrow> ('c \<Rightarrow> 'h multiset) \<Rightarrow> ('pool \<Rightarrow> 'h) \<Rightarrow> bool" where
  "pgx_laws lib handles handle \<longleftrightarrow>
     (\<forall>cfg c pool c'. pg_NewWithConfig lib cfg c = (Inr pool, c') \<longrightarrow> handles c' = add_mset (handle pool) (handles c)) \<and>
     (\<forall>cfg c err c'. pg_NewWithConfig lib cfg c = (Inl err, c') \<longrightarrow> handles c' = handles c) \<and>
     (\<forall>pool c. handles (snd (pg_Ping lib pool c)) = handles c) \<and>
     (\<forall>pool c. handles (pg_Close lib pool c) = handles c - {#handle pool#})"

definition redis_laws :: "('c, 'opts, 'client) redis_lib \<Rightarrow> ('c \<Rightarrow> 'h multiset) \<Rightarrow> ('client \<Rightarrow> 'h) \<Rightarrow> bool" where
  "redis_laws lib handles handle \<longleftrightarrow>
     (\<forall>opts c client c'. rd_NewClient lib opts c = (client, c') \<longrightarrow> handles c' = add_mset (handle client) (handles c)) \<and>
     (\<forall>client c. handles (snd (rd_Ping lib client c)) = handles c) \<and>
     (\<forall>client c. handles (rd_Close lib client c) = handles c - {#handle client#})"

definition migrate_laws :: "('c, 'src, 'm) migrate_lib \<Rightarrow> ('c \<Rightarrow> 'h multiset) \<Rightarrow> ('m \<Rightarrow> 'h) \<Rightarrow> bool" where
  "migrate_laws lib handles handle \<longleftrightarrow>
     (\<forall>c. handles (snd (mg_Source lib c)) = handles c) \<and>
     (\<forall>src dsn c m c'. mg_New lib src dsn c = (Inr m, c') \<longrightarrow> handles c' = add_mset (handle m) (handles c)) \<and>
     (\<forall>src dsn c err c'. mg_New lib src dsn c = (Inl err, c') \<longrightarrow> handles c' = handles c) \<and>
     (\<forall>m c. handles (snd (mg_Up lib m c)) = handles c) \<and>
     (\<forall>m c. handles (snd (mg_Close lib m c)) = handles c - {#handle m#})"

section \<open>Nothing is left open behind a failure\<close>

lemma NewPool_handles:
  assumes laws: "pgx_laws lib handles handle" and np: "NewPool lib dsn n c = (res, c')"
  shows "handles c' = (case res of Inr pool \<Rightarrow> add_mset (handle pool) (handles c) | Inl err \<Rightarrow> handles c)"
proof (cases "pg_ParseConfig lib dsn")
  case (Inr cfg0)
  define cfg where "cfg = (if n > 0 then pg_setMaxConns lib (to_int32 n) cfg0 else cfg0)"
  obtain r1 c1 where n: "pg_NewWithConfig lib cfg c = (r1, c1)" by fastforce
  show ?thesis
  proof (cases r1)
    case (Inl err)
    have "handles c1 = handles c" using laws n Inl by (simp add: pgx_laws_def)
    with np Inr n Inl show ?thesis by (auto simp: NewPool_def cfg_def [symmetric])
  next
    case r: (Inr pool)
    obtain e c2 where p: "pg_Ping lib pool c1 = (e, c2)" by fastforce
    have "handles (snd (pg_Ping lib pool c1)) = handles c1" "handles c1 = add_mset (handle pool) (handles c)"
      using laws n r by (simp_all add: pgx_laws_def)
    then have "handles c2 = add_mset (handle pool) (handles c)" using p by simp
    moreover have "handles (pg_Close lib pool c2) = handles c2 - {#handle pool#}" using laws by (simp add: pgx_laws_def)
    ultimately show ?thesis using np Inr n r p by (auto simp: NewPool_def cfg_def [symmetric] split: option.splits)
  qed
qed (use np in \<open>auto simp: NewPool_def\<close>)

lemma store_NewRedis_handles:
  assumes laws: "redis_laws lib handles handle" and nr: "store_NewRedis lib dsn c = (res, c')"
  shows "handles c' = (case res of Inr client \<Rightarrow> add_mset (handle client) (handles c) | Inl err \<Rightarrow> handles c)"
proof (cases "dsn = [] \<or> (\<exists>err. rd_ParseURL lib dsn = Inl err)")
  case True
  with nr show ?thesis by (auto simp: store_NewRedis_def split: if_splits)
next
  case False
  then obtain opts where o: "dsn \<noteq> []" "rd_ParseURL lib dsn = Inr opts" by (cases "rd_ParseURL lib dsn") auto
  obtain cl c1 where n: "rd_NewClient lib opts c = (cl, c1)" by fastforce
  obtain e c2 where p: "rd_Ping lib cl c1 = (e, c2)" by fastforce
  have "handles (snd (rd_Ping lib cl c1)) = handles c1" "handles c1 = add_mset (handle cl) (handles c)"
    using laws n by (simp_all add: redis_laws_def)
  then have "handles c2 = add_mset (handle cl) (handles c)" using p by simp
  moreover have "handles (rd_Close lib cl c2) = handles c2 - {#handle cl#}" using laws by (simp add: redis_laws_def)
  ultimately show ?thesis using nr o n p by (auto simp: store_NewRedis_def split: option.splits)
qed

lemma RunMigrations_handles:
  assumes laws: "migrate_laws lib handles handle" and rm: "RunMigrations lib dsn c = (res, c')"
  shows "handles c' = handles c"
proof -
  obtain s c1 where s: "mg_Source lib c = (s, c1)" by fastforce
  have "handles (snd (mg_Source lib c)) = handles c" using laws by (simp add: migrate_laws_def)
  then have h1: "handles c1 = handles c" using s by simp
  show ?thesis
  proof (cases "\<exists>src dsn'. s = Inr src \<and> dsnForMigrate dsn = Inr dsn'")
    case False
    with rm s h1 show ?thesis by (auto simp: RunMigrations_def split: sum.splits)
  next
    case True
    then obtain src dsn' where d: "s = Inr src" "dsnForMigrate dsn = Inr dsn'" by blast
    obtain r c2 where n: "mg_New lib src dsn' c1 = (r, c2)" by fastforce
    show ?thesis
    proof (cases r)
      case (Inl err)
      have "handles c2 = handles c1" using laws n Inl by (simp add: migrate_laws_def)
      with rm s d n Inl h1 show ?thesis by (auto simp: RunMigrations_def)
    next
      case (Inr m)
      obtain u c3 where u: "mg_Up lib m c2 = (u, c3)" by fastforce
      obtain a b c4 where cl: "mg_Close lib m c3 = ((a, b), c4)" by (metis prod.collapse)
      have "handles c2 = add_mset (handle m) (handles c1)" "handles (snd (mg_Up lib m c2)) = handles c2"
        "handles (snd (mg_Close lib m c3)) = handles c3 - {#handle m#}"
        using laws n Inr by (simp_all add: migrate_laws_def)
      then have "handles c4 = handles c1" using u cl by simp
      moreover have "c' = c4" using rm s d n Inr u cl by (simp add: RunMigrations_def)
      ultimately show ?thesis using h1 by simp
    qed
  qed
qed

end
