(* ===== verification/Gateway_Main.thy ===== *)
theory Gateway_Main
  imports Gateway_Server Provider_Adapters Store_Connect
begin

text \<open>
  \<^verbatim>\<open>cmd/gateway/main.go\<close>: building the parts from the configuration, opening the stores, waiting for a reason to stop and shutting down. What the process
  opens is threaded through as a world of connections; log lines and metric calls made during startup are results. A call of \<^verbatim>\<open>log.Fatalf\<close> is a value of
  \<open>fatal\<close>. A \<^verbatim>\<open>range\<close> over a Go map takes the order of the association list.
\<close>

section \<open>Logging\<close>

datatype log_format = TextFormat | JSONFormat

definition setupLogger :: "LogConfig \<Rightarrow> logger \<times> log_format" where
  "setupLogger cfg =
     (\<lparr>loggerLevel =
         (if Level cfg = ''debug'' then LevelDebug
          else if Level cfg = ''warn'' then LevelWarn
          else if Level cfg = ''error'' then LevelError
          else LevelInfo), loggerAttrs = []\<rparr>,
      if Format cfg = ''text'' then TextFormat else JSONFormat)"

definition log_line :: "logger \<Rightarrow> log_level \<Rightarrow> string \<Rightarrow> attrs \<Rightarrow> log_entry list" where
  "log_line l lv msg as = (if logger_Enabled l lv then [LogEntry lv msg (loggerAttrs l @ as)] else [])"

definition err_attr :: "go_error option \<Rightarrow> attr" where
  "err_attr err = StrAttr (case err of None \<Rightarrow> ''<nil>'' | Some e \<Rightarrow> err_Error e)"

section \<open>Providers\<close>

text \<open>
  \<open>bProviders\<close> are the wrapped providers in the order they were allocated; the index is the address of the decorator's \<^verbatim>\<open>ProviderHealth\<close>. \<open>bHealth\<close> is the
  map of provider names handed to the health endpoint.
\<close>

record built =
  bRegistry :: Registry
  bProviders :: "(HealthTrackingProvider \<times> provider_impl) list"
  bHealth :: "(string \<times> addr) list"
  bMetrics :: "metric_call list"
  bLogs :: "log_entry list"

definition base_provider :: "string \<Rightarrow> ProviderConfig \<Rightarrow> provider_impl option" where
  "base_provider name provCfg =
     (let cfg = \<lparr>acAPIKey = APIKey provCfg, acBaseURL = BaseURL provCfg, acTimeout = Timeout provCfg, acModels = Models provCfg\<rparr> in
      if name = ''openai'' then Some (OpenAI (openai_New cfg))
      else if name = ''anthropic'' then Some (Anthropic (anthropic_New cfg))
      else if name = ''google'' then Some (Google (google_New cfg))
      else None)"

fun impl_adapter :: "provider_impl \<Rightarrow> adapter" where
  "impl_adapter (OpenAI p) = p"
| "impl_adapter (Anthropic p) = p"
| "impl_adapter (Google p) = p"

definition build_provider :: "logger \<Rightarrow> HealthConfig \<Rightarrow> string \<times> ProviderConfig \<Rightarrow> built \<Rightarrow> built" where
  "build_provider lg healthCfg np b =
     (let (name, provCfg) = np in
      if APIKey provCfg = [] then
        b\<lparr>bLogs := bLogs b @ log_line lg LevelWarn ''skipping provider with no API key'' [(''provider'', StrAttr name)]\<rparr>
      else
        (let retryCfg = \<lparr>MaxRetries = cfgMaxRetries provCfg, RetryBackoff = cfgRetryBackoff provCfg\<rparr> in
         case base_provider name provCfg of
           None \<Rightarrow> b\<lparr>bLogs := bLogs b @ log_line lg LevelWarn ''unknown provider, skipping'' [(''provider'', StrAttr name)]\<rparr>
         | Some base \<Rightarrow>
             (let wrapped = NewHealthTrackingProvider (adName (impl_adapter base)) (adModels (impl_adapter base)) healthCfg retryCfg;
                  a = length (bProviders b)
              in b\<lparr>bProviders := bProviders b @ [(wrapped, base)],
                   bHealth := AList.update name a (bHealth b),
                   bRegistry := Register \<lparr>refName = wrappedName wrapped, refHealth = Some a\<rparr> (wrappedModels wrapped) (bRegistry b),
                   bMetrics := bMetrics b @ SetProviderHealth name True\<rparr>)))"

fun registry_error_text :: "(nat \<Rightarrow> bool) \<Rightarrow> registry_error \<Rightarrow> string" where
  "registry_error_text isPrint (AliasConflicts alias) = ''alias '' @ strconv_Quote isPrint alias @ '' conflicts with already-registered model''"
| "registry_error_text isPrint (AliasTargetUnregistered alias target) =
     ''alias '' @ strconv_Quote isPrint alias @ '' targets unregistered model '' @ strconv_Quote isPrint target"
| "registry_error_text isPrint (UnknownModelName m available) =
     ''unknown model '' @ strconv_Quote isPrint m @ '': available models: ['' @ strings_Join available '', '' @ '']''"

definition build_alias :: "logger \<Rightarrow> (nat \<Rightarrow> bool) \<Rightarrow> (string \<times> string) list \<Rightarrow> string \<Rightarrow> built \<Rightarrow> built" where
  "build_alias lg isPrint modelAliases alias b =
     (let target = (case map_of modelAliases alias of Some t \<Rightarrow> t | None \<Rightarrow> []) in
      case RegisterAlias alias target (bRegistry b) of
        (Some err, reg) \<Rightarrow> b\<lparr>bRegistry := reg, bLogs := bLogs b @ log_line lg LevelWarn ''skipping model alias with unregistered target''
          [(''alias'', StrAttr alias), (''target'', StrAttr target), (''err'', StrAttr (registry_error_text isPrint err))]\<rparr>
      | (None, reg) \<Rightarrow> b\<lparr>bRegistry := reg, bLogs := bLogs b @ log_line lg LevelInfo ''registered model alias''
          [(''alias'', StrAttr alias), (''target'', StrAttr target)]\<rparr>)"

definition buildProviders :: "logger \<Rightarrow> (nat \<Rightarrow> bool) \<Rightarrow> Config \<Rightarrow> built" where
  "buildProviders lg isPrint cfg =
     (let healthCfg = \<lparr>FailureThreshold = cfgFailureThreshold (cfgHealth cfg), CooldownPeriod = cfgCooldownPeriod (cfgHealth cfg)\<rparr>;
          b = fold (build_provider lg healthCfg) (Providers cfg)
                \<lparr>bRegistry = NewRegistry, bProviders = [], bHealth = [], bMetrics = [], bLogs = []\<rparr>;
          aliasKeys = sort (map fst (ModelAliases cfg))
      in fold (build_alias lg isPrint (ModelAliases cfg)) aliasKeys b)"

section \<open>Authentication and rate limiting\<close>

datatype fatal =
    FatalConfig go_error
  | FatalPostgres go_error
  | FatalMigrations go_error
  | FatalRedis go_error
  | FatalRouter router_error

text \<open>
  \<open>None\<close> is the authenticator that accepts every token, with no admin handler and no closer. \<open>Some\<close> is the cached authenticator and the pool that its store,
  the admin handler's store and the closer use.
\<close>

definition buildAuth ::
  "('p, 'n, 't) cache_ops \<Rightarrow> ('c, 'cfg, 'pool) pgx \<Rightarrow> ('c, 'src, 'm) migrate_lib \<Rightarrow> logger \<Rightarrow> Config \<Rightarrow> 'c \<Rightarrow>
   (fatal + (('p, 'n, 't) Cached \<times> 'pool) option) \<times> log_entry list \<times> 'c"
where
  "buildAuth ops pg mg lg cfg c =
     (if \<not> authEnabled (Auth cfg) then (Inr None, [], c)
      else case NewPool pg (pgDSN (Postgres (Database cfg))) (MaxConnections (Postgres (Database cfg))) c of
        (Inl err, c) \<Rightarrow> (Inl (FatalPostgres err), [], c)
      | (Inr pool, c) \<Rightarrow>
          (let cached = NewCached ops (CacheTTL (Auth cfg)) (CacheSize (Auth cfg)) in
           if AutoMigrate (Postgres (Database cfg)) then
             (case RunMigrations mg (pgDSN (Postgres (Database cfg))) c of
                ((err, closeErrs), c) \<Rightarrow>
                  (let released = (case closeErrs of
                         Some (srcErr, dbErr) \<Rightarrow> log_line lg LevelWarn ''releasing migrate handles'' [(''source_err'', err_attr srcErr), (''database_err'', err_attr dbErr)]
                       | None \<Rightarrow> []) in
                   case err of
                     Some err \<Rightarrow> (Inl (FatalMigrations err), released, pg_Close pg pool c)
                   | None \<Rightarrow> (Inr (Some (cached, pool)), released @ log_line lg LevelInfo ''database migrations applied'' [], c)))
           else (Inr (Some (cached, pool)), [], c)))"

definition buildRateLimiter ::
  "('c, 'opts, 'client) redis_lib \<Rightarrow> Config \<Rightarrow> 'c \<Rightarrow> (fatal + (redisLimiter \<times> 'client) option) \<times> 'c"
where
  "buildRateLimiter rd cfg c =
     (if \<not> rlEnabled (Config.RateLimit cfg) then (Inr None, c)
      else case store_NewRedis rd (redisDSN (Database cfg)) c of
        (Inl err, c) \<Rightarrow> (Inl (FatalRedis err), c)
      | (Inr rdb, c) \<Rightarrow> (Inr (Some (Rate_Limiter.NewRedis (Config.RateLimit cfg), rdb)), c))"

section \<open>The servers\<close>

record 'w http_server =
  srvAddr :: string
  srvHandler :: "'w handler"
  srvReadTimeout :: duration
  srvReadHeaderTimeout :: duration
  srvWriteTimeout :: duration

text \<open>
  \<^verbatim>\<open>http.ServeMux\<close> with fixed patterns on a clean path (one without empty, dot or dot-dot segments, which it redirects): the handler of the path, or 404.
  \<open>prometheus\<close> is the handler that \<^verbatim>\<open>promhttp\<close> supplies.
\<close>

definition serve_mux :: "(string \<times> 'w handler) list \<Rightarrow> 'w handler" where
  "serve_mux hs r x = (case map_of hs (Path r) of
       Some h \<Rightarrow> h r x
     | None \<Rightarrow> ([SetHeader ''Content-Type'' ''text/plain; charset=utf-8'', SetHeader ''X-Content-Type-Options'' ''nosniff'',
                 SendHeader 404, SendBytes (''404 page not found'' @ [CHR 0x0A])], x))"

definition buildMetricsServer :: "'w handler \<Rightarrow> MetricsConfig \<Rightarrow> 'w http_server option" where
  "buildMetricsServer prometheus cfg =
     (if \<not> metricsEnabled cfg then None
      else Some \<lparr>srvAddr = '':'' @ Itoa (metricsPort cfg),
        srvHandler = serve_mux [(''/metrics'', prometheus), (''/health'', \<lambda>r x. ([SendHeader 200], x))],
        srvReadTimeout = 0, srvReadHeaderTimeout = 5 * nanosPerSecond, srvWriteTimeout = 10 * nanosPerSecond\<rparr>)"

text \<open>
  \<open>shutdown\<close> is what \<^verbatim>\<open>Shutdown\<close> returns for a server within the shared timeout. The goroutines log in any order; the lines are listed in the order of the
  servers.
\<close>

definition shutdownTimeout :: duration where
  "shutdownTimeout = 30 * nanosPerSecond"

definition shutdownAll :: "logger \<Rightarrow> ('w http_server \<Rightarrow> duration \<Rightarrow> go_error option) \<Rightarrow> 'w http_server option list \<Rightarrow> log_entry list" where
  "shutdownAll lg shutdown servers =
     concat (map (\<lambda>s. case s of
         None \<Rightarrow> []
       | Some s \<Rightarrow> (case shutdown s shutdownTimeout of
           Some err \<Rightarrow> log_line lg LevelError ''graceful shutdown failed'' [(''addr'', StrAttr (srvAddr s)), (''err'', StrAttr (err_Error err))]
         | None \<Rightarrow> [])) servers)"

section \<open>The process\<close>

text \<open>
  What \<^verbatim>\<open>main\<close> has built when it starts to serve. \<open>stAuth\<close> and \<open>stLimiter\<close> hold the connections whose closers are deferred.
\<close>

record ('p, 'n, 't, 'pool, 'client) started =
  stConfig :: Config
  stLogger :: "logger \<times> log_format"
  stBuilt :: built
  stAuth :: "(('p, 'n, 't) Cached \<times> 'pool) option"
  stLimiter :: "(redisLimiter \<times> 'client) option"
  stRouter :: defaultRouter
  stStrategies :: "strategy list"

text \<open>The libraries and the clock and rune table that startup uses.\<close>

record ('p, 'n, 't, 'c, 'cfg, 'pool, 'opts, 'client, 'src, 'm) main_env =
  me_cache :: "('p, 'n, 't) cache_ops"
  me_pgx :: "('c, 'cfg, 'pool) pgx"
  me_redis :: "('c, 'opts, 'client) redis_lib"
  me_migrate :: "('c, 'src, 'm) migrate_lib"
  me_exp :: "float64 \<Rightarrow> float64"
  me_now :: instant
  me_isPrint :: "nat \<Rightarrow> bool"

definition main_start ::
  "('p, 'n, 't, 'c, 'cfg, 'pool, 'opts, 'client, 'src, 'm) main_env \<Rightarrow> go_error + Config \<Rightarrow> 'c \<Rightarrow>
   (fatal + ('p, 'n, 't, 'pool, 'client) started) \<times> log_entry list \<times> 'c"
where
  "main_start env loaded c =
     (case loaded of
        Inl err \<Rightarrow> (Inl (FatalConfig err), [], c)
      | Inr cfg \<Rightarrow>
          (let lg = setupLogger (Log cfg);
               b = buildProviders (fst lg) (me_isPrint env) cfg in
           case buildAuth (me_cache env) (me_pgx env) (me_migrate env) (fst lg) cfg c of
             (Inl err, logs, c) \<Rightarrow> (Inl err, bLogs b @ logs, c)
           | (Inr authenticator, logs, c) \<Rightarrow>
               (case buildRateLimiter (me_redis env) cfg c of
                  (Inl err, c) \<Rightarrow> (Inl err, bLogs b @ logs, c)
                | (Inr limiter, c) \<Rightarrow>
                    (case NewRouter (Some (bRegistry b)) (Routing cfg) (Providers cfg) (Some (Builder_Build (me_exp env) (me_now env))) NewBuilder of
                       (Inl err, builder) \<Rightarrow> (Inl (FatalRouter err), bLogs b @ logs, c)
                     | (Inr rtr, builder) \<Rightarrow>
                         (Inr \<lparr>stConfig = cfg, stLogger = lg, stBuilt = b, stAuth = authenticator, stLimiter = limiter,
                            stRouter = rtr, stStrategies = instances builder\<rparr>, bLogs b @ logs, c)))))"

text \<open>
  The reasons to stop, in the order they become ready: a server's channel delivers its error, or \<open>None\<close> once it is closed, and the signal context is done.
  \<open>select_stop\<close> is the \<^verbatim>\<open>select\<close>; without a metrics server its channel is nil and its case never taken. \<open>None\<close> is a process that keeps serving.
\<close>

datatype stop_event = ServerStopped "go_error option" | MetricsStopped "go_error option" | SignalReceived

fun select_stop :: "bool \<Rightarrow> stop_event list \<Rightarrow> stop_event option" where
  "select_stop hasMetrics [] = None"
| "select_stop hasMetrics (MetricsStopped err # evs) = (if hasMetrics then Some (MetricsStopped err) else select_stop hasMetrics evs)"
| "select_stop hasMetrics (ev # evs) = Some ev"

fun stop_outcome :: "logger \<Rightarrow> stop_event \<Rightarrow> log_entry list \<times> int" where
  "stop_outcome lg (ServerStopped (Some err)) = (log_line lg LevelError ''http server stopped with error'' [(''err'', StrAttr (err_Error err))], 1)"
| "stop_outcome lg (ServerStopped None) = ([], 0)"
| "stop_outcome lg (MetricsStopped (Some err)) = (log_line lg LevelError ''metrics server stopped with error'' [(''err'', StrAttr (err_Error err))], 1)"
| "stop_outcome lg (MetricsStopped None) = ([], 0)"
| "stop_outcome lg SignalReceived = (log_line lg LevelInfo ''shutdown signal received, draining'' [], 0)"

text \<open>The closers run in the reverse order of their \<^verbatim>\<open>defer\<close> statements, and only when \<^verbatim>\<open>main\<close> returns: \<^verbatim>\<open>os.Exit\<close> and \<^verbatim>\<open>log.Fatalf\<close> run none.\<close>

definition run_closers ::
  "('p, 'n, 't, 'c, 'cfg, 'pool, 'opts, 'client, 'src, 'm) main_env \<Rightarrow> ('p, 'n, 't, 'pool, 'client) started \<Rightarrow> 'c \<Rightarrow> 'c"
where
  "run_closers env st c =
     (let c = (case stLimiter st of Some (l, rdb) \<Rightarrow> rd_Close (me_redis env) rdb c | None \<Rightarrow> c)
      in case stAuth st of Some (a, pool) \<Rightarrow> pg_Close (me_pgx env) pool c | None \<Rightarrow> c)"

definition configPath :: "(string \<Rightarrow> string) \<Rightarrow> string" where
  "configPath getenv =
     (let path = getenv ''GATEWAY_CONFIG_PATH'' in if path = [] then ''configs/gateway.yaml'' else path)"

definition main ::
  "('p, 'n, 't, 'c, 'cfg, 'pool, 'opts, 'client, 'src, 'm) main_env \<Rightarrow> 'w handler \<Rightarrow> (('p, 'n, 't, 'pool, 'client) started \<Rightarrow> 'w handler) \<Rightarrow>
   ('w http_server \<Rightarrow> duration \<Rightarrow> go_error option) \<Rightarrow> stop_event list \<Rightarrow> (string \<Rightarrow> string) \<Rightarrow>
   (string \<Rightarrow> file_outcome \<times> go_error option \<times> (go_error + Config)) \<Rightarrow> 'c \<Rightarrow> int option \<times> log_entry list \<times> 'c"
where
  "main env prometheus handler shutdown evs getenv koanf c =
     (let (file, envErr, unmarshalled) = koanf (configPath getenv) in
      case main_start env (Load file envErr unmarshalled) c of
        (Inl err, logs, c) \<Rightarrow> (Some 1, logs, c)
      | (Inr st, logs, c) \<Rightarrow>
          (let cfg = stConfig st; lg = fst (stLogger st);
               httpServer = \<lparr>srvAddr = '':'' @ Itoa (Port (Server cfg)), srvHandler = handler st, srvReadTimeout = ReadTimeout (Server cfg),
                 srvReadHeaderTimeout = 0, srvWriteTimeout = WriteTimeout (Server cfg)\<rparr>;
               metricsServer = buildMetricsServer prometheus (MetricsCfg cfg);
               logs = logs @ log_line lg LevelInfo ''starting llm-gateway'' [(''addr'', StrAttr (srvAddr httpServer))] @
                 (case metricsServer of Some s \<Rightarrow> log_line lg LevelInfo ''starting metrics server'' [(''addr'', StrAttr (srvAddr s))] | None \<Rightarrow> [])
           in case select_stop (metricsServer \<noteq> None) evs of
                None \<Rightarrow> (None, logs, c)
              | Some ev \<Rightarrow>
                  (let (stopLogs, exitCode) = stop_outcome lg ev;
                       logs = logs @ stopLogs @ shutdownAll lg shutdown [Some httpServer, metricsServer]
                   in if exitCode \<noteq> 0 then (Some exitCode, logs, c) else (Some 0, logs, run_closers env st c))))"

section \<open>Specification vocabulary\<close>

text \<open>The configured providers the gateway builds, and what it builds for one of them at address \<open>a\<close>.\<close>

definition enabled :: "string \<times> ProviderConfig \<Rightarrow> bool" where
  "enabled = (\<lambda>(name, pc). APIKey pc \<noteq> [] \<and> base_provider name pc \<noteq> None)"

definition health_config :: "Config \<Rightarrow> HealthConfig" where
  "health_config cfg = \<lparr>FailureThreshold = cfgFailureThreshold (cfgHealth cfg), CooldownPeriod = cfgCooldownPeriod (cfgHealth cfg)\<rparr>"

definition wrapped_provider :: "HealthConfig \<Rightarrow> string \<times> ProviderConfig \<Rightarrow> HealthTrackingProvider \<times> provider_impl" where
  "wrapped_provider h = (\<lambda>(name, pc). (NewHealthTrackingProvider name (Models pc) h
     \<lparr>MaxRetries = cfgMaxRetries pc, RetryBackoff = cfgRetryBackoff pc\<rparr>, the (base_provider name pc)))"

definition registration :: "nat \<times> string \<times> ProviderConfig \<Rightarrow> ProviderRef \<times> string list" where
  "registration = (\<lambda>(a, name, pc). (\<lparr>refName = name, refHealth = Some a\<rparr>, Models pc))"

text \<open>The handles a started gateway holds.\<close>

definition held :: "('pool \<Rightarrow> 'h) \<Rightarrow> ('client \<Rightarrow> 'h) \<Rightarrow> (('p, 'n, 't) Cached \<times> 'pool) option \<Rightarrow> (redisLimiter \<times> 'client) option \<Rightarrow> 'h multiset" where
  "held hp hr a l = (case a of Some (c, pool) \<Rightarrow> {#hp pool#} | None \<Rightarrow> {#}) + (case l of Some (r, rdb) \<Rightarrow> {#hr rdb#} | None \<Rightarrow> {#})"

definition library_laws ::
  "('p, 'n, 't, 'c, 'cfg, 'pool, 'opts, 'client, 'src, 'm) main_env \<Rightarrow> ('c \<Rightarrow> 'h multiset) \<Rightarrow> ('pool \<Rightarrow> 'h) \<Rightarrow> ('client \<Rightarrow> 'h) \<Rightarrow> ('m \<Rightarrow> 'h) \<Rightarrow> bool"
where
  "library_laws env handles hp hr hm \<longleftrightarrow>
     pgx_laws (me_pgx env) handles hp \<and> redis_laws (me_redis env) handles hr \<and> migrate_laws (me_migrate env) handles hm"

text \<open>Drivers that always succeed, over the multiset of open handles, and a configuration that uses all of them.\<close>

definition sample_main ::
  "(KeyInfo list_cache, unit list_cache, instant list_cache, string multiset, string, string, string, string, string, string) main_env"
where
  "sample_main = \<lparr>me_cache = list_ops,
     me_pgx = \<lparr>pg_ParseConfig = Inr, pg_setMaxConns = (\<lambda>n cfg. cfg), pg_NewWithConfig = (\<lambda>cfg c. (Inr ''pool'', add_mset ''pool'' c)),
       pg_Ping = (\<lambda>p c. (None, c)), pg_Close = (\<lambda>p c. c - {#p#})\<rparr>,
     me_redis = \<lparr>rd_ParseURL = Inr, rd_NewClient = (\<lambda>opts c. (''client'', add_mset ''client'' c)), rd_Ping = (\<lambda>r c. (None, c)), rd_Close = (\<lambda>r c. c - {#r#})\<rparr>,
     me_migrate = \<lparr>mg_Source = (\<lambda>c. (Inr ''src'', c)), mg_New = (\<lambda>src dsn c. (Inr ''m'', add_mset ''m'' c)), mg_Up = (\<lambda>m c. (UpNoChange, c)),
       mg_Close = (\<lambda>m c. ((None, None), c - {#m#}))\<rparr>,
     me_exp = (\<lambda>f. f), me_now = 0, me_isPrint = (\<lambda>n. True)\<rparr>"

definition full_config :: Config where
  "full_config = sample_config
     \<lparr>Database := \<lparr>Postgres = \<lparr>pgDSN = ''postgres://db'', AutoMigrate = True, MaxConnections = 0\<rparr>, redisDSN = ''redis://r''\<rparr>,
      Auth := \<lparr>authEnabled = True, AdminToken = ''t'', CacheTTL = 0, CacheSize = 0\<rparr>,
      Config.RateLimit := \<lparr>rlEnabled = True, DefaultRPM = 0, DefaultTPM = 0\<rparr>\<rparr>"

section \<open>What is built\<close>

lemma base_provider_adapter: "base_provider name pc = Some base \<Longrightarrow> adName (impl_adapter base) = name \<and> adModels (impl_adapter base) = Models pc"
  by (auto simp: base_provider_def Let_def openai_New_def anthropic_New_def google_New_def split: if_splits)

lemma RegisterAll_append: "RegisterAll (xs @ ys) r = RegisterAll ys (RegisterAll xs r)"
  by (induction xs r rule: RegisterAll.induct) auto

lemma built_providers:
  assumes "b = fold (build_provider lg h) ps \<lparr>bRegistry = NewRegistry, bProviders = [], bHealth = [], bMetrics = [], bLogs = []\<rparr>"
  shows "bProviders b = map (wrapped_provider h) (filter enabled ps) \<and>
    bRegistry b = RegisterAll (map registration (enumerate 0 (filter enabled ps))) NewRegistry \<and> 
    (distinct (map fst ps) \<longrightarrow> bHealth b = map (\<lambda>(a, name, pc). (name, a)) (enumerate 0 (filter enabled ps)))"
  using assms
proof (induction ps arbitrary: b rule: rev_induct)
  case (snoc np ps)
  obtain name pc where np: "np = (name, pc)" by fastforce
  define b0 where "b0 = fold (build_provider lg h) ps \<lparr>bRegistry = NewRegistry, bProviders = [], bHealth = [], bMetrics = [], bLogs = []\<rparr>"
  note IH = snoc.IH [OF b0_def]
  have b: "b = build_provider lg h np b0" using snoc.prems by (simp add: b0_def)
  show ?case
  proof (cases "enabled np")
    case False
    then have "bProviders b = bProviders b0" "bRegistry b = bRegistry b0" "bHealth b = bHealth b0"
      by (auto simp: b np build_provider_def enabled_def split: option.splits)
    with IH False show ?thesis by auto
  next
    case True
    then obtain base where base: "APIKey pc \<noteq> []" "base_provider name pc = Some base" by (auto simp: enabled_def np)
    note ad = base_provider_adapter [OF base(2)]
    have "bProviders b = bProviders b0 @ [wrapped_provider h np]"
      "bRegistry b = Register \<lparr>refName = name, refHealth = Some (length (bProviders b0))\<rparr> (Models pc) (bRegistry b0)"
      "bHealth b = AList.update name (length (bProviders b0)) (bHealth b0)"
      using base ad by (simp_all add: b np build_provider_def wrapped_provider_def Let_def NewHealthTrackingProvider_def)
    moreover have "name \<notin> fst ` set ps \<Longrightarrow> name \<notin> fst ` set (map (\<lambda>(a, name, pc). (name, a)) (enumerate 0 (filter enabled ps)))"
      using in_set_enumerate_eq [where n = 0 and xs = "filter enabled ps"] nth_mem [where xs = "filter enabled ps"] by (fastforce simp: image_iff)
    moreover have "k \<notin> fst ` set al \<Longrightarrow> AList.update k v al = al @ [(k, v)]" for k :: string and v :: nat and al
      by (induction al) auto
    ultimately show ?thesis using IH True by (simp add: enumerate_append_eq RegisterAll_append registration_def np)
  qed
qed (simp add: NewRegistry_def)

lemma built_aliases:
  "bProviders (fold (build_alias lg isPrint al) ks b) = bProviders b \<and> bHealth (fold (build_alias lg isPrint al) ks b) = bHealth b \<and>
   bRegistry (fold (build_alias lg isPrint al) ks b) =
     RegisterAliases (map (\<lambda>k. (k, case map_of al k of Some t \<Rightarrow> t | None \<Rightarrow> [])) ks) (bRegistry b)"
  by (induction ks arbitrary: b) (simp_all add: build_alias_def Let_def split: prod.splits option.splits)

lemma buildProviders_built:
  "bProviders (buildProviders lg isPrint cfg) = map (wrapped_provider (health_config cfg)) (filter enabled (Providers cfg))"
  "bRegistry (buildProviders lg isPrint cfg) =
     RegisterAliases (map (\<lambda>k. (k, case map_of (ModelAliases cfg) k of Some t \<Rightarrow> t | None \<Rightarrow> [])) (sort (map fst (ModelAliases cfg))))
       (RegisterAll (map registration (enumerate 0 (filter enabled (Providers cfg)))) NewRegistry)"
  "distinct (map fst (Providers cfg)) \<Longrightarrow>
     bHealth (buildProviders lg isPrint cfg) = map (\<lambda>(a, name, pc). (name, a)) (enumerate 0 (filter enabled (Providers cfg)))"
  using built_providers [OF refl, of lg "health_config cfg" "Providers cfg"] by (simp_all add: buildProviders_def Let_def health_config_def built_aliases)

section \<open>What it resolves\<close>

lemma Register_models: "map_of (models (Register p ms r)) m = (if m \<in> set ms then Some p else map_of (models r) m)"
  by (induction p ms r rule: Register.induct) auto

lemma RegisterAll_resolves:
  "map_of (models (RegisterAll xs r)) m = Some p \<Longrightarrow> (\<exists>ms. (p, ms) \<in> set xs \<and> m \<in> set ms) \<or> map_of (models r) m = Some p"
  by (induction xs r rule: RegisterAll.induct) (fastforce simp: Register_models split: if_splits)+

lemma RegisterAll_registers:
  "(p, ms) \<in> set xs \<Longrightarrow> m \<in> set ms \<Longrightarrow> \<exists>q ms'. (q, ms') \<in> set xs \<and> m \<in> set ms' \<and> map_of (models (RegisterAll xs r)) m = Some q"
proof (induction xs rule: rev_induct)
  case (snoc y ys)
  obtain q ns where y: "y = (q, ns)" by fastforce
  then show ?case using snoc by (cases "m \<in> set ns") (fastforce simp: RegisterAll_append Register_models)+
qed simp

lemma RegisterAliases_models:
  "map_of (models r) m = Some p \<Longrightarrow> map_of (models (RegisterAliases xs r)) m = Some p"
proof (induction xs r rule: RegisterAliases.induct)
  case (2 a t xs r)
  have "map_of (models (snd (RegisterAlias a t r))) m = Some p"
    using 2(2) by (cases "m = a") (auto simp: RegisterAlias_def split: option.splits)
  from 2(1) [OF this] show ?case by simp
qed simp

lemma RegisterAliases_resolves:
  "map_of (models (RegisterAliases xs r)) m = Some p \<Longrightarrow>
     map_of (models r) m = Some p \<or> (m \<in> fst ` set xs \<and> (\<exists>n. map_of (models r) n = Some p))"
proof (induction xs r rule: RegisterAliases.induct)
  case (2 a t xs r)
  have step: "map_of (models (snd (RegisterAlias a t r))) n = Some p \<Longrightarrow> map_of (models r) n = Some p \<or> n = a \<and> map_of (models r) t = Some p" for n
    by (auto simp: RegisterAlias_def split: option.splits if_splits)
  from 2 consider "map_of (models (snd (RegisterAlias a t r))) m = Some p"
    | n where "m \<in> fst ` set xs" "map_of (models (snd (RegisterAlias a t r))) n = Some p" by auto
  then show ?case
  proof cases
    case 1
    with step [OF 1] show ?thesis by auto
  next
    case (2 n)
    with step [OF 2(2)] show ?thesis by auto
  qed
qed simp

lemma enabled_registration:
  assumes "(p, ms) \<in> set (map registration (enumerate 0 (filter enabled ps)))"
  obtains a name pc where "p = \<lparr>refName = name, refHealth = Some a\<rparr>" "ms = Models pc" "(name, pc) \<in> set ps" "enabled (name, pc)"
    "a < length (filter enabled ps)" "filter enabled ps ! a = (name, pc)"
proof -
  obtain a np where np: "(a, np) \<in> set (enumerate 0 (filter enabled ps))" "(p, ms) = registration (a, np)" using assms by auto
  then have a: "a < length (filter enabled ps)" "filter enabled ps ! a = np" by (simp_all add: in_set_enumerate_eq)
  then have "np \<in> set (filter enabled ps)" by (metis nth_mem)
  with np(2) a that show thesis by (cases np) (auto simp: registration_def)
qed

lemma enabled_registered:
  assumes "(name, pc) \<in> set ps" "enabled (name, pc)"
  obtains p where "(p, Models pc) \<in> set (map registration (enumerate 0 (filter enabled ps)))" "refName p = name"
proof -
  obtain a where "a < length (filter enabled ps)" "filter enabled ps ! a = (name, pc)" 
    using assms in_set_conv_nth [of "(name, pc)" "filter enabled ps"] by auto
  then have "(a, name, pc) \<in> set (enumerate 0 (filter enabled ps))" by (simp add: in_set_enumerate_eq)
  then have "registration (a, name, pc) \<in> set (map registration (enumerate 0 (filter enabled ps)))" by simp
  then show thesis by (intro that [of "\<lparr>refName = name, refHealth = Some a\<rparr>"]) (simp_all add: registration_def)
qed

lemma built_registry_inv:
  "registry_inv (bRegistry (buildProviders lg isPrint cfg)) \<and> aliases_agree (bRegistry (buildProviders lg isPrint cfg))"
proof -
  let ?r = "RegisterAll (map registration (enumerate 0 (filter enabled (Providers cfg)))) NewRegistry"
  have "registry_inv NewRegistry" by (simp add: registry_inv_def NewRegistry_def)
  then have "registry_inv ?r" "aliases ?r = []" using RegisterAll_inv [of NewRegistry] by (simp_all add: NewRegistry_def)
  moreover from this have "aliases_agree ?r" by (simp add: aliases_agree_def)
  ultimately show ?thesis unfolding buildProviders_built by (intro RegisterAliases_inv)
qed

lemma Resolve_models: "Resolve r m = Inr p \<longleftrightarrow> map_of (models r) m = Some p"
  by (simp add: Resolve_def split: option.splits)

text \<open>A model that resolves is served by a provider the configuration enables, which lists it or is reached by an alias.\<close>

lemma resolved_provider:
  assumes "Resolve (bRegistry (buildProviders lg isPrint cfg)) m = Inr p"
  obtains a name pc where "p = \<lparr>refName = name, refHealth = Some a\<rparr>" "(name, pc) \<in> set (Providers cfg)" "enabled (name, pc)"
    "a < length (bProviders (buildProviders lg isPrint cfg))"
    "bProviders (buildProviders lg isPrint cfg) ! a = wrapped_provider (health_config cfg) (name, pc)"
    "m \<in> set (Models pc) \<or> m \<in> fst ` set (ModelAliases cfg)"
proof -
  let ?xs = "map registration (enumerate 0 (filter enabled (Providers cfg)))"
  have keys: "fst ` set (map (\<lambda>k. (k, f k)) (sort (map fst (ModelAliases cfg)))) = fst ` set (ModelAliases cfg)" for f :: "string \<Rightarrow> string" by force
  from assms have "map_of (models (RegisterAll ?xs NewRegistry)) m = Some p \<or>
      m \<in> fst ` set (ModelAliases cfg) \<and> (\<exists>n. map_of (models (RegisterAll ?xs NewRegistry)) n = Some p)"
    unfolding Resolve_models buildProviders_built by (drule_tac RegisterAliases_resolves) (simp only: keys)
  moreover have "map_of (models (RegisterAll ?xs NewRegistry)) n = Some p \<Longrightarrow> \<exists>ms. (p, ms) \<in> set ?xs \<and> n \<in> set ms" for n
    using RegisterAll_resolves [of ?xs NewRegistry n p] by (simp add: NewRegistry_def)
  ultimately obtain ms where ms: "(p, ms) \<in> set ?xs" "m \<in> set ms \<or> m \<in> fst ` set (ModelAliases cfg)" by blast
  show thesis by (rule enabled_registration [OF ms(1)], rule that) (use ms(2) in \<open>auto simp: buildProviders_built\<close>)
qed

lemma listed_model_resolves:
  assumes "(name, pc) \<in> set (Providers cfg)" "enabled (name, pc)" "m \<in> set (Models pc)"
    and alone: "\<And>name' pc'. (name', pc') \<in> set (Providers cfg) \<Longrightarrow> enabled (name', pc') \<Longrightarrow> m \<in> set (Models pc') \<Longrightarrow> name' = name"
  shows "\<exists>p. Resolve (bRegistry (buildProviders lg isPrint cfg)) m = Inr p \<and> refName p = name"
proof -
  let ?xs = "map registration (enumerate 0 (filter enabled (Providers cfg)))"
  obtain p where "(p, Models pc) \<in> set ?xs" by (rule enabled_registered [OF assms(1,2)])
  from RegisterAll_registers [OF this assms(3), of NewRegistry] obtain q ms where q: "(q, ms) \<in> set ?xs" "m \<in> set ms"
    "map_of (models (RegisterAll ?xs NewRegistry)) m = Some q" by blast
  have "refName q = name" by (rule enabled_registration [OF q(1)]) (use q(2) alone in auto)
  with RegisterAliases_models [OF q(3)] show ?thesis unfolding Resolve_models buildProviders_built by blast
qed

section \<open>What is open\<close>

lemma buildAuth_handles:
  assumes laws: "pgx_laws pg handles hp" "migrate_laws mg handles hm" and ba: "buildAuth ops pg mg lg cfg c = (res, logs, c')"
  shows "handles c' = handles c + (case res of Inr a \<Rightarrow> held hp hr a None | Inl err \<Rightarrow> {#})"
proof (cases "authEnabled (Auth cfg)")
  case True
  obtain r c1 where np: "NewPool pg (pgDSN (Postgres (Database cfg))) (MaxConnections (Postgres (Database cfg))) c = (r, c1)" by fastforce
  note h1 = NewPool_handles [OF laws(1) np]
  show ?thesis
  proof (cases r)
    case (Inl err)
    with ba True np h1 show ?thesis by (auto simp: buildAuth_def)
  next
    case (Inr pool)
    obtain err cl c2 where rm: "RunMigrations mg (pgDSN (Postgres (Database cfg))) c1 = ((err, cl), c2)" by (metis prod.collapse)
    have "handles c2 = handles c1" by (rule RunMigrations_handles [OF laws(2) rm])
    moreover have "handles (pg_Close pg pool c2) = handles c2 - {#hp pool#}" using laws(1) by (simp add: pgx_laws_def)
    ultimately show ?thesis using ba True np h1 Inr rm
      by (auto simp: buildAuth_def held_def Let_def split: if_splits option.splits)
  qed
qed (use ba in \<open>auto simp: buildAuth_def held_def\<close>)

lemma buildRateLimiter_handles:
  assumes laws: "redis_laws rd handles hr" and rl: "buildRateLimiter rd cfg c = (res, c')"
  shows "handles c' = handles c + (case res of Inr l \<Rightarrow> held hp hr None l | Inl err \<Rightarrow> {#})"
proof (cases "rlEnabled (Config.RateLimit cfg)")
  case True
  obtain r c1 where nr: "store_NewRedis rd (redisDSN (Database cfg)) c = (r, c1)" by fastforce
  from store_NewRedis_handles [OF laws nr] rl True nr show ?thesis by (cases r) (auto simp: buildRateLimiter_def held_def)
qed (use rl in \<open>auto simp: buildRateLimiter_def held_def\<close>)

lemma buildAuth_guard:
  assumes "buildAuth ops pg mg lg cfg c = (Inr a, logs, c')"
  shows "a \<noteq> None \<longleftrightarrow> authEnabled (Auth cfg)"
proof (cases "authEnabled (Auth cfg)")
  case True
  obtain r c1 where np: "NewPool pg (pgDSN (Postgres (Database cfg))) (MaxConnections (Postgres (Database cfg))) c = (r, c1)" by fastforce
  obtain err cl c2 where rm: "RunMigrations mg (pgDSN (Postgres (Database cfg))) c1 = ((err, cl), c2)" by (metis prod.collapse)
  from assms True np rm show ?thesis by (cases r; cases err) (auto simp: buildAuth_def Let_def split: if_splits)
qed (use assms in \<open>simp add: buildAuth_def\<close>)

lemma buildRateLimiter_guard:
  assumes "buildRateLimiter rd cfg c = (Inr l, c')"
  shows "l \<noteq> None \<longleftrightarrow> rlEnabled (Config.RateLimit cfg)"
proof (cases "rlEnabled (Config.RateLimit cfg)")
  case True
  obtain r c1 where "store_NewRedis rd (redisDSN (Database cfg)) c = (r, c1)" by fastforce
  with assms True show ?thesis by (cases r) (auto simp: buildRateLimiter_def)
qed (use assms in \<open>simp add: buildRateLimiter_def\<close>)

lemma main_start_parts:
  assumes "main_start env loaded c = (Inr st, logs, c')"
  obtains cfg logs1 c1 builder where "loaded = Inr cfg" "stConfig st = cfg" "stLogger st = setupLogger (Log cfg)"
    "stBuilt st = buildProviders (fst (setupLogger (Log cfg))) (me_isPrint env) cfg"
    "buildAuth (me_cache env) (me_pgx env) (me_migrate env) (fst (setupLogger (Log cfg))) cfg c = (Inr (stAuth st), logs1, c1)"
    "buildRateLimiter (me_redis env) cfg c1 = (Inr (stLimiter st), c')"
    "NewRouter (Some (bRegistry (stBuilt st))) (Routing cfg) (Providers cfg) (Some (Builder_Build (me_exp env) (me_now env))) NewBuilder = (Inr (stRouter st), builder)"
    "stStrategies st = instances builder"
  using assms by (fastforce simp: main_start_def Let_def split: sum.splits prod.splits)

lemma main_start_handles:
  assumes laws: "library_laws env handles hp hr hm" and st: "main_start env loaded c = (Inr st, logs, c')"
  shows "handles c' = handles c + held hp hr (stAuth st) (stLimiter st)"
proof (rule main_start_parts [OF st])
  fix cfg logs1 c1
  assume "buildAuth (me_cache env) (me_pgx env) (me_migrate env) (fst (setupLogger (Log cfg))) cfg c = (Inr (stAuth st), logs1, c1)"
    "buildRateLimiter (me_redis env) cfg c1 = (Inr (stLimiter st), c')"
  then have "handles c1 = handles c + held hp hr (stAuth st) None" "handles c' = handles c1 + held hp hr None (stLimiter st)"
    using laws buildAuth_handles [of "me_pgx env" handles hp "me_migrate env" hm] buildRateLimiter_handles [of "me_redis env" handles hr]
    by (fastforce simp: library_laws_def)+
  then show ?thesis by (simp add: held_def)
qed

lemma run_closers_handles:
  assumes laws: "library_laws env handles hp hr hm" and h: "handles c = H + held hp hr (stAuth st) (stLimiter st)"
  shows "handles (run_closers env st c) = H"
proof -
  have rd: "handles (rd_Close (me_redis env) rdb c) = handles c - {#hr rdb#}" and pg: "handles (pg_Close (me_pgx env) pool c) = handles c - {#hp pool#}" for rdb pool c
    using laws by (simp_all add: library_laws_def redis_laws_def pgx_laws_def)
  show ?thesis using h by (auto simp: run_closers_def held_def rd pg split: option.splits)
qed

text \<open>When a server stops with an error, \<^verbatim>\<open>os.Exit\<close> ends the process with everything still open that startup opened.\<close>

lemma error_exit_skips_closers:
  assumes "koanf (configPath getenv) = (fl, envErr, u)" "main_start env (Load fl envErr u) c = (Inr st, logs, c1)"
  shows "\<exists>logs'. main env prometheus handler shutdown (ServerStopped (Some err) # evs) getenv koanf c = (Some 1, logs', c1)"
  using assms by (simp add: main_def Let_def)

section \<open>Theorems\<close>

text \<open>
  C9. The registry built at startup serves exactly what the configuration enables. It keeps its invariants; every model that resolves is served by a
  decorator that was built for a configured provider with an API key and a known name, with that entry's retry settings, and is one of the entry's models or
  an alias; and a model listed by only one such provider resolves to it, in whatever order the map of providers is walked.
\<close>

theorem buildProviders_serves_enabled:
  "registry_inv (bRegistry (buildProviders lg isPrint cfg)) \<and> aliases_agree (bRegistry (buildProviders lg isPrint cfg)) \<and>
   (\<forall>m p. Resolve (bRegistry (buildProviders lg isPrint cfg)) m = Inr p \<longrightarrow>
     (\<exists>a name pc. p = \<lparr>refName = name, refHealth = Some a\<rparr> \<and> (name, pc) \<in> set (Providers cfg) \<and> enabled (name, pc) \<and>
       a < length (bProviders (buildProviders lg isPrint cfg)) \<and>
       bProviders (buildProviders lg isPrint cfg) ! a = wrapped_provider (health_config cfg) (name, pc) \<and>
       (m \<in> set (Models pc) \<or> m \<in> fst ` set (ModelAliases cfg)))) \<and>
   (\<forall>m name pc. (name, pc) \<in> set (Providers cfg) \<and> enabled (name, pc) \<and> m \<in> set (Models pc) \<and>
       (\<forall>name' pc'. (name', pc') \<in> set (Providers cfg) \<and> enabled (name', pc') \<and> m \<in> set (Models pc') \<longrightarrow> name' = name) \<longrightarrow>
     (\<exists>p. Resolve (bRegistry (buildProviders lg isPrint cfg)) m = Inr p \<and> refName p = name))"
proof (intro conjI allI impI)
  fix m p assume "Resolve (bRegistry (buildProviders lg isPrint cfg)) m = Inr p"
  then show "\<exists>a name pc. p = \<lparr>refName = name, refHealth = Some a\<rparr> \<and> (name, pc) \<in> set (Providers cfg) \<and> enabled (name, pc) \<and>
      a < length (bProviders (buildProviders lg isPrint cfg)) \<and>
      bProviders (buildProviders lg isPrint cfg) ! a = wrapped_provider (health_config cfg) (name, pc) \<and>
      (m \<in> set (Models pc) \<or> m \<in> fst ` set (ModelAliases cfg))"
    by (rule resolved_provider) blast
next
  fix m name pc
  assume "(name, pc) \<in> set (Providers cfg) \<and> enabled (name, pc) \<and> m \<in> set (Models pc) \<and>
    (\<forall>name' pc'. (name', pc') \<in> set (Providers cfg) \<and> enabled (name', pc') \<and> m \<in> set (Models pc') \<longrightarrow> name' = name)"
  then show "\<exists>p. Resolve (bRegistry (buildProviders lg isPrint cfg)) m = Inr p \<and> refName p = name"
    by (intro listed_model_resolves [of name pc]) blast+
qed (use built_registry_inv in blast)+

theorem buildProviders_serves_enabled_witness:
  "\<exists>p. Resolve (bRegistry (buildProviders (fst (setupLogger (Log sample_config))) (\<lambda>n. True) sample_config)) ''gpt-4o'' = Inr p \<and> refName p = ''openai''"
proof -
  have "\<exists>pc. (''openai'', pc) \<in> set (Providers sample_config) \<and> enabled (''openai'', pc) \<and> ''gpt-4o'' \<in> set (Models pc) \<and>
      (\<forall>name' pc'. (name', pc') \<in> set (Providers sample_config) \<and> enabled (name', pc') \<and> ''gpt-4o'' \<in> set (Models pc') \<longrightarrow> name' = ''openai'')"
    by (simp add: sample_config_def enabled_def base_provider_def)
  with buildProviders_serves_enabled [of "fst (setupLogger (Log sample_config))" "\<lambda>n. True" sample_config] show ?thesis by meson
qed

text \<open>
  C10. A gateway that stops normally leaves nothing open: whatever it opened on the way up, the pool, the migration handles and the Redis client, is closed
  again when the process ends with exit code 0. The drivers are any that keep what they document.
\<close>

theorem main_releases_connections:
  assumes "library_laws env handles hp hr hm"
    and "main env prometheus handler shutdown evs getenv koanf c = (Some 0, logs, c')"
  shows "handles c' = handles c"
proof -
  obtain fl envErr u where k: "koanf (configPath getenv) = (fl, envErr, u)" by (metis prod_cases3)
  obtain res logs1 c1 where m: "main_start env (Load fl envErr u) c = (res, logs1, c1)" by (metis prod_cases3)
  from assms(2) k m obtain st where st: "res = Inr st" by (cases res) (auto simp: main_def)
  from assms(2) k m st have "c' = run_closers env st c1"
    by (auto simp: main_def Let_def split: option.splits prod.splits if_splits)
  with run_closers_handles [OF assms(1) main_start_handles [OF assms(1) m [unfolded st]]] show ?thesis by simp
qed

lemma sample_main_laws: "library_laws sample_main (\<lambda>c. c) (\<lambda>p. p) (\<lambda>r. r) (\<lambda>m. m)"
  by (auto simp: library_laws_def sample_main_def pgx_laws_def redis_laws_def migrate_laws_def)

lemma full_config_loads: "Load FileLoaded None (Inr full_config) = Inr (applyDefaults full_config)"
  by (simp add: Load_def validate_def applyDefaults_def full_config_def sample_config_def)

lemma NewRouter_default:
  assumes "DefaultStrategy cfg \<in> strategy_names" "ModelGroups cfg = []"
  shows "\<exists>rtr b. NewRouter (Some reg) cfg ps (Some (Builder_Build math_Exp now)) NewBuilder = (Inr rtr, b)"
proof -
  obtain s where "Build math_Exp now (DefaultStrategy cfg) = Inr s" using assms(1) Build_known by blast
  then show ?thesis by (simp add: NewRouter_def Builder_Build_def NewBuilder_def assms(2))
qed

lemma full_config_starts: "\<exists>st logs. main_start sample_main (Inr (applyDefaults full_config)) {#} = (Inr st, logs, {#''pool'', ''client''#}) \<and> stConfig st = applyDefaults full_config"
proof -
  let ?cfg = "applyDefaults full_config" and ?lg = "fst (setupLogger (Log (applyDefaults full_config)))"
  obtain a logs where a: "buildAuth list_ops (me_pgx sample_main) (me_migrate sample_main) ?lg ?cfg {#} = (Inr (Some (a, ''pool'')), logs, {#''pool''#})"
    by (simp add: buildAuth_def full_config_def applyDefaults_def sample_main_def NewPool_def RunMigrations_def dsnForMigrate_def HasPrefix_def)
  obtain l where l: "buildRateLimiter (me_redis sample_main) ?cfg {#''pool''#} = (Inr (Some (l, ''client'')), {#''pool'', ''client''#})"
    by (simp add: buildRateLimiter_def full_config_def applyDefaults_def sample_main_def store_NewRedis_def add_mset_commute)
  have "DefaultStrategy (Routing ?cfg) \<in> strategy_names" "ModelGroups (Routing ?cfg) = []"
    by (simp_all add: full_config_def sample_config_def applyDefaults_def or_string_def strategy_names_def)
  from NewRouter_default [OF this] obtain rtr b where
    "NewRouter (Some (bRegistry (buildProviders ?lg (me_isPrint sample_main) ?cfg))) (Routing ?cfg) (Providers ?cfg) (Some (Builder_Build (me_exp sample_main) (me_now sample_main)))
      NewBuilder = (Inr rtr, b)" by blast
  with a l show ?thesis by (simp add: main_start_def Let_def) (simp add: sample_main_def)
qed

theorem main_releases_connections_witness:
  "\<exists>logs. main sample_main (\<lambda>r x. ([], x :: unit exchange)) (\<lambda>st r x. ([], x)) (\<lambda>s d. None) [SignalReceived] (\<lambda>n. [])
     (\<lambda>path. (FileLoaded, None, Inr full_config)) {#} = (Some 0, logs, {#})"
proof -
  let ?main = "main sample_main (\<lambda>r x. ([], x :: unit exchange)) (\<lambda>st r x. ([], x)) (\<lambda>s d. None) [SignalReceived] (\<lambda>n. [])
     (\<lambda>path. (FileLoaded, None, Inr full_config)) {#}"
  obtain st logs where "main_start sample_main (Inr (applyDefaults full_config)) {#} = (Inr st, logs, {#''pool'', ''client''#})"
    using full_config_starts by blast
  then obtain logs' c' where m: "?main = (Some 0, logs', c')" by (simp add: main_def full_config_loads Let_def)
  from main_releases_connections [OF sample_main_laws this] have "c' = {#}" by simp
  with m show ?thesis by blast
qed

end
