(* ===== verification/Gateway_Process.thy ===== *)
theory Gateway_Process
  imports Gateway_Main
begin

text \<open>
  The gateway as one system: the server of \<^verbatim>\<open>server.New\<close> over the router, the decorated providers, the authenticator, the admin handler and the limiter that
  \<^verbatim>\<open>main\<close> built. The world of its handlers is a record of what those parts share. This is where the interfaces the handlers were verified against are filled
  with the gateway's own implementations.
\<close>

section \<open>State and surroundings\<close>

text \<open>
  \<open>gwHealth\<close> is the heap of the breakers, \<open>gwLimiter\<close> the limiter's request counter and Redis, \<open>gwOutside\<close> everything the model does not own: the provider
  services, the clock, the random source and the client.
\<close>

record ('p, 'n, 't, 's, 'u) gateway =
  gwRouter :: defaultRouter
  gwStrategies :: "strategy list"
  gwHealth :: health_heap
  gwKeys :: "('p, 'n, 't) key_state"
  gwLimiter :: "64 word \<times> 's"
  gwLastWarn :: int
  gwOutside :: 'u

record ('p, 'n, 't, 's, 'u) gateway_env =
  gv_cache :: "('p, 'n, 't) cache_ops"
  gv_uuid :: "string \<Rightarrow> string option"
  gv_chi :: "('p, 'n, 't, 's, 'u) gateway chi"
  gv_redis :: "'s redis"
  gv_other :: "string \<Rightarrow> int option"
  gv_fault :: "'u \<Rightarrow> fault \<times> 'u"
  gv_instance :: string
  gv_upstream :: "'u upstream"
  gv_wait :: "duration \<Rightarrow> 'u \<Rightarrow> go_error option \<times> 'u"
  gv_rand :: "'u \<Rightarrow> float64 \<times> 'u"
  gv_conv :: "float64 \<Rightarrow> int"
  gv_clock :: "'u \<Rightarrow> nat \<Rightarrow> instant"
  gv_stop :: "'u \<Rightarrow> nat option \<times> nat option"
  gv_ctxDone :: "'u \<Rightarrow> bool"
  gv_flusher :: bool
  gv_isPrint :: "nat \<Rightarrow> bool"
  gv_zone :: "instant \<Rightarrow> int"

definition gateway_now :: "('p, 'n, 't, 's, 'u) gateway_env \<Rightarrow> ('p, 'n, 't, 's, 'u) gateway \<Rightarrow> instant" where
  "gateway_now env g = up_now (gv_upstream env) (gwOutside g)"

definition unix_millis :: "instant \<Rightarrow> int" where
  "unix_millis t = t div nanosPerMilli - 62135596800000"

section \<open>Calling a provider\<close>

definition chat_calls :: "('p, 'n, 't, 's, 'u) gateway_env \<Rightarrow> provider_impl \<Rightarrow> ('u, ChatCompletionResponse) provider_env" where
  "chat_calls env impl = \<lparr>env_call = impl_ChatCompletion (gv_upstream env) impl, env_wait = gv_wait env, env_now = up_now (gv_upstream env),
     env_rand = gv_rand env, env_conv = gv_conv env\<rparr>"

definition stream_calls :: "('p, 'n, 't, 's, 'u) gateway_env \<Rightarrow> provider_impl \<Rightarrow> ('u, StreamEvent list) provider_env" where
  "stream_calls env impl = \<lparr>env_call = (\<lambda>req u. impl_ChatCompletionStream (gv_upstream env) impl (gv_clock env u) (fst (gv_stop env u)) req u),
     env_wait = gv_wait env, env_now = up_now (gv_upstream env), env_rand = gv_rand env, env_conv = gv_conv env\<rparr>"

text \<open>
  A reference points to the decorator at its address. The registry holds references to built providers only (\<open>resolved_provider\<close>); for any other the
  functions below report an error so that they are total.
\<close>

definition provider_at :: "(HealthTrackingProvider \<times> provider_impl) list \<Rightarrow> ProviderRef \<Rightarrow> (addr \<times> HealthTrackingProvider \<times> provider_impl) option" where
  "provider_at provs p = (case refHealth p of Some a \<Rightarrow> if a < length provs then Some (a, provs ! a) else None | None \<Rightarrow> None)"

definition gateway_Chat ::
  "('p, 'n, 't, 's, 'u) gateway_env \<Rightarrow> (HealthTrackingProvider \<times> provider_impl) list \<Rightarrow> ProviderRef \<Rightarrow> ChatCompletionRequest \<Rightarrow>
   ('p, 'n, 't, 's, 'u) gateway \<Rightarrow> (ChatCompletionResponse option \<times> go_error option) \<times> metric_call list \<times> ('p, 'n, 't, 's, 'u) gateway"
where
  "gateway_Chat env provs p req g =
     (case provider_at provs p of
        None \<Rightarrow> ((None, Some (ErrText ''no such provider'')), [], g)
      | Some (a, htp, impl) \<Rightarrow>
          (let (res, htp', ms, u) = HTP_ChatCompletion (chat_calls env impl) (htp\<lparr>Health := gwHealth g a\<rparr>) req (gwOutside g)
           in (res, ms, g\<lparr>gwOutside := u, gwHealth := (gwHealth g)(a := Health htp')\<rparr>)))"

text \<open>The events of a stream are those the health goroutine forwards; it records the outcome when the inner channel ends.\<close>

definition gateway_Stream ::
  "('p, 'n, 't, 's, 'u) gateway_env \<Rightarrow> (HealthTrackingProvider \<times> provider_impl) list \<Rightarrow> ProviderRef \<Rightarrow> ChatCompletionRequest \<Rightarrow>
   ('p, 'n, 't, 's, 'u) gateway \<Rightarrow> (StreamEvent list option \<times> go_error option) \<times> metric_call list \<times> ('p, 'n, 't, 's, 'u) gateway"
where
  "gateway_Stream env provs p req g =
     (case provider_at provs p of
        None \<Rightarrow> ((None, Some (ErrText ''no such provider'')), [], g)
      | Some (a, htp, impl) \<Rightarrow>
          (let (res, htp', ms, u) = HTP_ChatCompletionStream (stream_calls env impl) (htp\<lparr>Health := gwHealth g a\<rparr>) req (gwOutside g) in
           case res of
             (Some (evts, start), err) \<Rightarrow>
               (let (out, htp'', ms') = trackStreamHealth (snd (gv_stop env u)) start (up_now (gv_upstream env) u) evts htp'
                in ((Some out, err), ms @ ms', g\<lparr>gwOutside := u, gwHealth := (gwHealth g)(a := Health htp'')\<rparr>))
           | (None, err) \<Rightarrow> ((None, err), ms, g\<lparr>gwOutside := u, gwHealth := (gwHealth g)(a := Health htp')\<rparr>)))"

definition gateway_Route ::
  "('p, 'n, 't, 's, 'u) gateway_env \<Rightarrow> ChatCompletionRequest \<Rightarrow> RequestMeta \<Rightarrow> ('p, 'n, 't, 's, 'u) gateway \<Rightarrow> route_result \<times> ('p, 'n, 't, 's, 'u) gateway"
where
  "gateway_Route env req meta g =
     (let (res, rtr, insts) = Route (gv_conv env) (\<lambda>i. (gateway_now env g, gwHealth g)) (Some req) meta (gwRouter g) (gwStrategies g)
      in (res, g\<lparr>gwRouter := rtr, gwStrategies := insts\<rparr>))"

section \<open>Keys and limits\<close>

definition on_keys ::
  "('p, 'n, 't, 's, 'u) gateway_env \<Rightarrow> (('p, 'n, 't) key_state \<Rightarrow> 'a \<times> ('p, 'n, 't) key_state) \<Rightarrow> ('p, 'n, 't, 's, 'u) gateway \<Rightarrow> 'a \<times> ('p, 'n, 't, 's, 'u) gateway"
where
  "on_keys env f g = (let (r, k) = f ((gwKeys g)\<lparr>ksNow := gateway_now env g\<rparr>) in (r, g\<lparr>gwKeys := k\<rparr>))"

definition gateway_auth ::
  "('p, 'n, 't, 's, 'u) gateway_env \<Rightarrow> string \<Rightarrow> ('p, 'n, 't, 's, 'u) gateway \<Rightarrow> (go_error + KeyInfo) \<times> ('p, 'n, 't, 's, 'u) gateway"
where
  "gateway_auth env token = on_keys env (key_auth (gv_cache env) (gv_uuid env) token)"

definition gateway_admin :: "('p, 'n, 't, 's, 'u) gateway_env \<Rightarrow> ('p, 'n, 't, 's, 'u) gateway admin_env" where
  "gateway_admin env =
     (let a = NewAdminKeysHandler (gv_cache env) (gv_uuid env) (chi_URLParam (gv_chi env)) (gv_zone env) in
      \<lparr>ae_read = on_keys env (ae_read a), ae_Create = (\<lambda>k h p. on_keys env (ae_Create a k h p)), ae_GetByID = (\<lambda>i. on_keys env (ae_GetByID a i)),
       ae_Revoke = (\<lambda>i. on_keys env (ae_Revoke a i)), ae_invalidate = map_option (\<lambda>f h g. snd (on_keys env (\<lambda>k. ((), f h k)) g)) (ae_invalidate a),
       ae_URLParam = ae_URLParam a, ae_zone = ae_zone a\<rparr>)"

definition gateway_reserver :: "('p, 'n, 't, 's, 'u) gateway_env \<Rightarrow> redisLimiter \<Rightarrow> ('p, 'n, 't, 's, 'u) gateway reserver" where
  "gateway_reserver env l =
     \<lparr>rs_Reserve = (\<lambda>key g. let (flt, u) = gv_fault env (gwOutside g);
          (res, st) = Reserve (gv_redis env) (gv_other env) flt (gv_instance env) l (unix_millis (gateway_now env g)) key (gwLimiter g)
        in (res, g\<lparr>gwLimiter := st, gwOutside := u\<rparr>)),
      rs_RecordTokens = (\<lambda>key tokens g. let (flt, u) = gv_fault env (gwOutside g);
          (err, st) = RecordTokens (gv_redis env) flt (gv_instance env) l (unix_millis (gateway_now env g)) key tokens (gwLimiter g)
        in (err, g\<lparr>gwLimiter := st, gwOutside := u\<rparr>)),
      rs_now = (\<lambda>g. gateway_now env g - 62135596800 * nanosPerSecond), rs_lastWarn = gwLastWarn, rs_setLastWarn = (\<lambda>n g. g\<lparr>gwLastWarn := n\<rparr>)\<rparr>"

section \<open>The server\<close>

definition gateway_options :: "('p, 'n, 't, 's, 'u) gateway_env \<Rightarrow> ('p, 'n, 't, 'pool, 'client) started \<Rightarrow> ('p, 'n, 't, 's, 'u) gateway Options" where
  "gateway_options env st =
     \<lparr>HealthProviders = map (\<lambda>(name, a). (name, \<lambda>g. gwHealth g a)) (bHealth (stBuilt st)),
      Authenticator = Some (if stAuth st \<noteq> None then gateway_auth env else (\<lambda>token g. (AllowAll_Authenticate token, g))),
      AdminToken = AuthConfig.AdminToken (Auth (stConfig st)),
      AdminKeys = (if stAuth st \<noteq> None then Some (gateway_admin env) else None),
      RateLimiter = map_option (\<lambda>(l, rdb). gateway_reserver env l) (stLimiter st),
      DebugBodies = LogConfig.DebugBodies (Log (stConfig st))\<rparr>"

definition gateway_server :: "('p, 'n, 't, 's, 'u) gateway_env \<Rightarrow> ('p, 'n, 't, 'pool, 'client) started \<Rightarrow> ('p, 'n, 't, 's, 'u) gateway server_env" where
  "gateway_server env st =
     \<lparr>sv_chi = gv_chi env,
      sv_chat = \<lparr>ce_Route = gateway_Route env, ce_Chat = gateway_Chat env (bProviders (stBuilt st)), ce_Stream = gateway_Stream env (bProviders (stBuilt st)),
        ce_ctxDone = (\<lambda>g. gv_ctxDone env (gwOutside g)), ce_flusher = gv_flusher env, ce_jsonMsg = up_jsonMsg (gv_upstream env), ce_isPrint = gv_isPrint env\<rparr>,
      sv_now = gateway_now env, sv_zone = gv_zone env, sv_conv = gv_conv env, sv_default = fst (stLogger st)\<rparr>"

definition gateway_calls :: "('p, 'n, 't, 's, 'u) gateway_env \<Rightarrow> ('p, 'n, 't, 'pool, 'client) started \<Rightarrow> ('p, 'n, 't, 's, 'u) gateway chi_call list" where
  "gateway_calls env st = New (gateway_server env st) (bRegistry (stBuilt st)) (gateway_options env st) (fst (stLogger st))"

section \<open>Specification vocabulary\<close>

text \<open>Surroundings whose services refuse every connection, and a gateway as it has just started.\<close>

definition sample_gateway_env ::
  "(KeyInfo list_cache, unit list_cache, instant list_cache, list_server, http_response list) gateway_env"
where
  "sample_gateway_env = \<lparr>gv_cache = list_ops, gv_uuid = Some, gv_chi = recovering_chi, gv_redis = list_redis, gv_other = (\<lambda>s. None),
     gv_fault = (\<lambda>u. (NoFault, u)), gv_instance = ''i'', gv_upstream = answering [] 0, gv_wait = (\<lambda>d u. (None, u)), gv_rand = (\<lambda>u. (Fin 0, u)),
     gv_conv = (\<lambda>f. 0), gv_clock = (\<lambda>u n. 0), gv_stop = (\<lambda>u. (None, None)), gv_ctxDone = (\<lambda>u. False), gv_flusher = True, gv_isPrint = (\<lambda>n. True),
     gv_zone = (\<lambda>t. 0)\<rparr>"

definition fresh_gateway ::
  "('p, 'n, 't, 'pool, 'client) started \<Rightarrow> ('p, 'n, 't) Cached \<Rightarrow> 's \<Rightarrow> 'u \<Rightarrow> ('p, 'n, 't, 's, 'u) gateway exchange"
where
  "fresh_gateway st cache s u = \<lparr>info = None, emitted = [], logged = [], world =
     \<lparr>gwRouter = stRouter st, gwStrategies = stStrategies st, gwHealth = (\<lambda>a. Health (fst (bProviders (stBuilt st) ! a))),
      gwKeys = \<lparr>ksRows = [], ksCache = cache, ksNow = 0, ksFaults = [], ksIDs = [], ksBytes = []\<rparr>, gwLimiter = (0, s), gwLastWarn = 0, gwOutside = u\<rparr>\<rparr>"

section \<open>Lemmas\<close>

text \<open>With at least one attempt, the loop ends with a response or an error.\<close>

lemma retry_loop_exit:
  "attempt \<le> MaxRetries cfg \<Longrightarrow> fst (retry_loop env cfg req attempt lastErr w) \<noteq> AttemptsExhausted None"
proof (induction env cfg req attempt lastErr w rule: retry_loop.induct)
  case (1 env cfg req attempt lastErr w)
  obtain e w1 where b: "backoff_wait env cfg attempt lastErr w = (e, w1)" by fastforce
  obtain r w2 where c: "env_call env req w1 = (r, w2)" by fastforce
  show ?case
  proof (cases "e = None \<and> (\<exists>err. r = Inl err \<and> isRetryable err) \<and> attempt \<noteq> MaxRetries cfg")
    case True
    then obtain err where r: "e = None" "r = Inl err" "isRetryable err" "attempt \<noteq> MaxRetries cfg" by blast
    have "fst (retry_loop env cfg req (attempt + 1) (Some err) w2) \<noteq> AttemptsExhausted None"
      by (rule "1.IH" [OF _ b [symmetric] r(1) c [symmetric]]) (use r "1.prems" in auto)
    with r b c "1.prems" show ?thesis by (subst retry_loop.simps) simp
  next
    case False
    with b c "1.prems" show ?thesis by (subst retry_loop.simps) (auto split: option.splits sum.splits)
  qed
qed

lemma stream_or_error:
  assumes "0 \<le> MaxRetries (retry p)"
  shows "fst (HTP_ChatCompletionStream env p req w) \<noteq> (None, None)"
proof -
  obtain e w1 where l: "retry_loop env (retry p) req 0 None w = (e, w1)" by fastforce
  have "e \<noteq> AttemptsExhausted None" using retry_loop_exit [OF assms, of env req None w] l by simp
  then show ?thesis using l by (cases e) (auto simp: HTP_ChatCompletionStream_def Let_def split: prod.splits)
qed

text \<open>With a negative count the decorator returns neither a channel nor an error.\<close>

lemma negative_retries_nil_stream: "MaxRetries (retry p) < 0 \<Longrightarrow> fst (HTP_ChatCompletionStream env p req w) = (None, None)"
  by (simp add: HTP_ChatCompletionStream_def Let_def retry_loop.simps case_prod_unfold)

lemma gateway_Stream_answers:
  assumes "\<And>htp impl. (htp, impl) \<in> set provs \<Longrightarrow> 0 \<le> MaxRetries (retry htp)"
  shows "fst (gateway_Stream env provs p req g) \<noteq> (None, None)"
proof (cases "provider_at provs p")
  case (Some q)
  obtain a htp impl where q: "q = (a, htp, impl)" by (cases q) auto
  then have "(htp, impl) \<in> set provs" using Some by (auto simp: provider_at_def split: option.splits if_splits) (metis nth_mem)
  then have "0 \<le> MaxRetries (retry (htp\<lparr>Health := gwHealth g a\<rparr>))" using assms by simp
  from stream_or_error [OF this, of "stream_calls env impl" req "gwOutside g"] show ?thesis
    using Some q by (auto simp: gateway_Stream_def Let_def split: prod.splits option.splits)
qed (simp add: gateway_Stream_def)

lemma gateway_key_loop_ends: "key_loop (on_keys env (\<lambda>s. let (r, bs) = list_read (ksBytes s) in (r, s\<lparr>ksBytes := bs\<rparr>))) i out g \<noteq> None"
proof (induction "ksBytes (gwKeys g)" arbitrary: g i out)
  case Nil
  from Nil [symmetric] show ?case by (subst key_loop.simps) (simp add: on_keys_def)
next
  case (Cons b bs)
  note IH = Cons.hyps(1) [of "g\<lparr>gwKeys := (gwKeys g)\<lparr>ksNow := gateway_now env g, ksBytes := bs\<rparr>\<rparr>"]
  from Cons.hyps(2) [symmetric] IH show ?case by (subst key_loop.simps) (simp add: on_keys_def)
qed

lemma gateway_key_generated: "generatePlaintextKey (ae_read (gateway_admin env)) g \<noteq> None"
  using gateway_key_loop_ends [of env] by (simp add: generatePlaintextKey_def gateway_admin_def NewAdminKeysHandler_def Let_def)

lemma started_retries:
  assumes "main_start menv loaded c = (Inr st, logs, c')" and "\<And>name pc. (name, pc) \<in> set (Providers (stConfig st)) \<Longrightarrow> 0 \<le> cfgMaxRetries pc"
    and "(htp, impl) \<in> set (bProviders (stBuilt st))"
  shows "0 \<le> MaxRetries (retry htp)"
proof (rule main_start_parts [OF assms(1)])
  fix cfg assume "stConfig st = cfg" "stBuilt st = buildProviders (fst (setupLogger (Log cfg))) (me_isPrint menv) cfg"
  then show ?thesis using assms(2,3)
    by (auto simp: buildProviders_built wrapped_provider_def NewHealthTrackingProvider_def)
qed

lemma gateway_auth_keys: "\<exists>k. snd (gateway_auth env token g) = g\<lparr>gwKeys := k\<rparr>"
  by (auto simp: gateway_auth_def on_keys_def Let_def split: prod.splits)

text \<open>A configuration that loads with authentication has an admin token, and the gateway it starts has the authenticator it asks for.\<close>

lemma loaded_admin_token: "Load fl envErr u = Inr cfg \<Longrightarrow> authEnabled (Auth cfg) \<Longrightarrow> AuthConfig.AdminToken (Auth cfg) \<noteq> []"
  by (auto simp: Load_def validate_def Let_def split: file_outcome.splits option.splits sum.splits if_splits)

lemma started_guards:
  assumes "main_start menv loaded c = (Inr st, logs, c')"
  shows "(stAuth st \<noteq> None \<longleftrightarrow> authEnabled (Auth (stConfig st))) \<and> (stLimiter st \<noteq> None \<longleftrightarrow> rlEnabled (Config.RateLimit (stConfig st)))"
proof (rule main_start_parts [OF assms])
  fix cfg logs1 c1
  assume cfg: "stConfig st = cfg"
    and a: "buildAuth (me_cache menv) (me_pgx menv) (me_migrate menv) (fst (setupLogger (Log cfg))) cfg c = (Inr (stAuth st), logs1, c1)"
    and l: "buildRateLimiter (me_redis menv) cfg c1 = (Inr (stLimiter st), c')"
  show ?thesis unfolding cfg by (rule conjI [OF buildAuth_guard [OF a] buildRateLimiter_guard [OF l]])
qed

section \<open>Theorems\<close>



text \<open>
  C3. A gateway whose configuration asks for authentication never serves without it: if \<^verbatim>\<open>main\<close> gets as far as serving, a request to the API whose token the
  key store does not confirm is refused and nothing but the key state changes, so no router, limiter or provider sees it; an admin request without the
  configured admin token is refused and changes nothing; and a limiter is in place when the configuration asks for one.
\<close>

theorem gateway_fails_closed:
  assumes "chi_router http dispatch miss" "chi_laws (gv_chi env)" "\<And>r x. returns (fst (miss r x)) \<and> world (snd (miss r x)) = world x"
    and "main_start menv (Load fl envErr u) c = (Inr st, logs, c')" "authEnabled (Auth (stConfig st))"
  shows "(api_request r \<and> \<not> authorised (gateway_auth env) r (world x) \<longrightarrow>
      status_of (fst (http (gateway_calls env st) r x)) \<in> {Some 401, Some 503} \<and> (\<exists>k. world (snd (http (gateway_calls env st) r x)) = (world x)\<lparr>gwKeys := k\<rparr>)) \<and>
    (admin_path r \<and> presented r \<noteq> Some (AuthConfig.AdminToken (Auth (stConfig st))) \<longrightarrow>
      status_of (fst (http (gateway_calls env st) r x)) = Some 401 \<and> world (snd (http (gateway_calls env st) r x)) = world x) \<and>
    (rlEnabled (Config.RateLimit (stConfig st)) \<longrightarrow> RateLimiter (gateway_options env st) \<noteq> None)"
proof -
  have chi: "chi_laws (sv_chi (gateway_server env st))" using assms(2) by (simp add: gateway_server_def)
  note guards = conjunct1 [OF started_guards [OF assms(4)]] conjunct2 [OF started_guards [OF assms(4)]]
  have auth: "Authenticator (gateway_options env st) = Some (gateway_auth env)" "AdminKeys (gateway_options env st) \<noteq> None"
    using guards(1) assms(5) by (simp_all add: gateway_options_def)
  have token: "AdminToken (gateway_options env st) = AuthConfig.AdminToken (Auth (stConfig st))" "AuthConfig.AdminToken (Auth (stConfig st)) \<noteq> []"
    by (simp add: gateway_options_def, rule main_start_parts [OF assms(4)]) (use assms(5) in \<open>auto dest: loaded_admin_token\<close>)
  have same: "\<exists>k. w = w\<lparr>gwKeys := k\<rparr>" for w :: "('a, 'b, 'c, 'd, 'e) gateway" by (rule exI [of _ "gwKeys w"]) simp
  show ?thesis
  proof (intro conjI impI)
    assume r: "api_request r \<and> \<not> authorised (gateway_auth env) r (world x)"
    note refused = api_refused [OF assms(1) chi _ auth(1), of r x "bRegistry (stBuilt st)" "fst (stLogger st)", folded gateway_calls_def]
    show "status_of (fst (http (gateway_calls env st) r x)) \<in> {Some 401, Some 503}"
      by (rule conjunct1 [OF refused]) (use r in simp_all)
    have "world (snd (http (gateway_calls env st) r x)) = (case presented r of Some t \<Rightarrow> snd (gateway_auth env t (world x)) | None \<Rightarrow> world x)"
      by (rule conjunct2 [OF refused]) (use r in simp_all)
    then show "\<exists>k. world (snd (http (gateway_calls env st) r x)) = (world x)\<lparr>gwKeys := k\<rparr>"
      using gateway_auth_keys [of env _ "world x"] same [of "world x"] by (cases "presented r") simp_all
  next
    assume a: "admin_path r \<and> presented r \<noteq> Some (AuthConfig.AdminToken (Auth (stConfig st)))"
    from admin_refused [OF assms(1) chi assms(3), of r "gateway_options env st" "bRegistry (stBuilt st)" "fst (stLogger st)" x, folded gateway_calls_def] a auth(2) token
    show "status_of (fst (http (gateway_calls env st) r x)) = Some 401" "world (snd (http (gateway_calls env st) r x)) = world x" by simp_all
  next
    assume "rlEnabled (Config.RateLimit (stConfig st))"
    with guards(2) show "RateLimiter (gateway_options env st) \<noteq> None" by (simp add: gateway_options_def)
  qed
qed

theorem gateway_fails_closed_witness:
  "\<exists>st logs c'. main_start sample_main (Load FileLoaded None (Inr full_config)) {#} = (Inr st, logs, c') \<and>
     status_of (fst (mux_serve not_found (gateway_calls sample_gateway_env st) (admin_request sample_create)
       (fresh_gateway st (NewCached list_ops 300 10) [] []))) = Some 401"
proof -
  obtain st logs where st: "main_start sample_main (Load FileLoaded None (Inr full_config)) {#} = (Inr st, logs, {#''pool'', ''client''#})"
    "stConfig st = applyDefaults full_config" using full_config_starts unfolding full_config_loads by blast
  have "authEnabled (Auth (stConfig st))" by (simp add: st(2) full_config_def applyDefaults_def)
  note closed = gateway_fails_closed [OF mux.chi_router_axioms _ _ st(1) this, where r = "admin_request sample_create" and env = sample_gateway_env
    and x = "fresh_gateway st (NewCached list_ops 300 10) [] []" and miss = not_found]
  have "chi_laws (gv_chi sample_gateway_env)" by (simp add: sample_gateway_env_def chi_laws_recovering)
  from conjunct1 [OF conjunct2 [OF closed [OF this]]]
  have "status_of (fst (mux_serve not_found (gateway_calls sample_gateway_env st) (admin_request sample_create)
      (fresh_gateway st (NewCached list_ops 300 10) [] []))) = Some 401"
    by (simp add: sample_admin_path sample_admin_token not_found_def returns_def)
  with st(1) show ?thesis by blast
qed

end
