(* ===== verification/Gateway_Reachable.thy ===== *)
theory Gateway_Reachable
  imports Gateway_Process
begin

text \<open>
  What holds of a running gateway at any time. The gateway's states are those a sequence of requests leads to, each served by the whole server, with the
  surroundings changing as they like in between. A predicate on the world that every interface of the handlers keeps is kept by the server; the routing
  invariant is one.
\<close>

section \<open>Reachable states\<close>

inductive reachable ::
  "(('p, 'n, 't, 's, 'u) gateway chi_call list \<Rightarrow> ('p, 'n, 't, 's, 'u) gateway handler) \<Rightarrow> ('p, 'n, 't, 's, 'u) gateway chi_call list \<Rightarrow>
   ('p, 'n, 't, 's, 'u) gateway \<Rightarrow> ('p, 'n, 't, 's, 'u) gateway \<Rightarrow> bool"
  for http calls g0
where
  started: "reachable http calls g0 g0"
| request: "reachable http calls g0 (world x) \<Longrightarrow> reachable http calls g0 (world (snd (http calls r x)))"
| surroundings: "reachable http calls g0 g \<Longrightarrow>
     reachable http calls g0 (g\<lparr>gwOutside := u, gwKeys := (gwKeys g)\<lparr>ksFaults := fs, ksIDs := ids, ksBytes := bs\<rparr>\<rparr>)"

text \<open>The router's indices are in range, its registry is the one built at startup, and the strategies are those of startup.\<close>

definition routing_inv :: "('p, 'n, 't, 'pool, 'client) started \<Rightarrow> ('p, 'n, 't, 's, 'u) gateway \<Rightarrow> bool" where
  "routing_inv st g \<longleftrightarrow> router_inv (gwRouter g) (gwStrategies g) \<and> registry (gwRouter g) = bRegistry (stBuilt st) \<and>
     map Strategy_Name (gwStrategies g) = map Strategy_Name (stStrategies st)"

text \<open>A handler, and each interface the handlers use, keeps a predicate on the world.\<close>

definition keeps :: "('w \<Rightarrow> bool) \<Rightarrow> 'w handler \<Rightarrow> bool" where
  "keeps P h \<longleftrightarrow> (\<forall>r x. P (world x) \<longrightarrow> P (world (snd (h r x))))"

definition reserver_keeps :: "('w \<Rightarrow> bool) \<Rightarrow> 'w reserver \<Rightarrow> bool" where
  "reserver_keeps P s \<longleftrightarrow> (\<forall>k w. P w \<longrightarrow> P (snd (rs_Reserve s k w))) \<and> (\<forall>k n w. P w \<longrightarrow> P (snd (rs_RecordTokens s k n w))) \<and>
     (\<forall>n w. P w \<longrightarrow> P (rs_setLastWarn s n w))"

definition chat_keeps :: "('w \<Rightarrow> bool) \<Rightarrow> 'w chat_env \<Rightarrow> bool" where
  "chat_keeps P e \<longleftrightarrow> (\<forall>req meta w. P w \<longrightarrow> P (snd (ce_Route e req meta w))) \<and> (\<forall>p req w. P w \<longrightarrow> P (snd (snd (ce_Chat e p req w)))) \<and>
     (\<forall>p req w. P w \<longrightarrow> P (snd (snd (ce_Stream e p req w))))"

definition admin_keeps :: "('w \<Rightarrow> bool) \<Rightarrow> 'w admin_env \<Rightarrow> bool" where
  "admin_keeps P e \<longleftrightarrow> (\<forall>w. P w \<longrightarrow> P (snd (ae_read e w))) \<and> (\<forall>k h p w. P w \<longrightarrow> P (snd (ae_Create e k h p w))) \<and>
     (\<forall>i w. P w \<longrightarrow> P (snd (ae_GetByID e i w))) \<and> (\<forall>i w. P w \<longrightarrow> P (snd (ae_Revoke e i w))) \<and>
     (\<forall>f h w. ae_invalidate e = Some f \<longrightarrow> P w \<longrightarrow> P (f h w))"

section \<open>Handlers that keep a predicate\<close>

named_theorems keeping_handlers

lemma keepsI: "(\<And>r x. P (world x) \<Longrightarrow> P (world (snd (h r x)))) \<Longrightarrow> keeps P h"
  by (simp add: keeps_def)

lemma keepsD: "keeps P h \<Longrightarrow> P (world x) \<Longrightarrow> P (world (snd (h r x)))"
  by (simp add: keeps_def)

lemma world_simps [simp]:
  "world (emit ms x) = world x" "world (log_to l lv msg as x) = world x" "world (on_info f x) = world x"
  by (simp_all add: emit_def log_to_def on_info_def)

lemma world_setters [simp]:
  "world (SetOrgKey a b x) = world x" "world (SetModel a x) = world x" "world (SetProvider a x) = world x" "world (SetTokens m n x) = world x"
  "world (SetStrategy a x) = world x" "world (SetGroup a x) = world x" "world (MarkRateLimited x) = world x"
  by (simp_all add: SetOrgKey_def SetModel_def SetProvider_def SetTokens_def SetStrategy_def SetGroup_def MarkRateLimited_def)

lemma keeps_info [keeping_handlers]: "keeps P HandleHealth" "keeps P (HandleInternalHealth zone now ps)" "keeps P (HandleListModels reg)"
  by (simp_all add: keeps_def HandleHealth_def HandleInternalHealth_def HandleListModels_def Let_def)

lemma keeps_RequireAdminToken [keeping_handlers]: "keeps P h \<Longrightarrow> keeps P (RequireAdminToken tok h)"
  by (auto simp: keeps_def RequireAdminToken_def Let_def split: option.splits)

lemma keeps_RequireAPIKey [keeping_handlers]:
  assumes "keeps P h" "\<And>t w. P w \<Longrightarrow> P (snd (a t w))"
  shows "keeps P (RequireAPIKey dflt a h)"
proof (rule keepsI)
  fix r and x :: "'a exchange" assume x: "P (world x)"
  have "P (world (snd (h q (SetOrgKey o' k (x\<lparr>world := snd (a t (world x))\<rparr>)))))" for q o' k t
    by (rule keepsD [OF assms(1)]) (simp add: assms(2) x)
  with x assms(2) show "P (world (snd (RequireAPIKey dflt a h r x)))"
    by (simp add: RequireAPIKey_def Let_def case_prod_unfold split: option.split sum.split)
qed

lemma keeps_DebugRequestBodies [keeping_handlers]: "keeps P h \<Longrightarrow> keeps P (DebugRequestBodies dflt n h)"
  by (simp add: keeps_def DebugRequestBodies_def Let_def split: option.split prod.split read_end.split)

lemma keeps_RequestLogger [keeping_handlers]: "keeps P h \<Longrightarrow> keeps P (RequestLogger c now lg h)"
  by (simp add: keeps_def RequestLogger_def Let_def case_prod_unfold)

lemma keeps_Observe_requests [keeping_handlers]: "keeps P h \<Longrightarrow> keeps P (Observe_requests c now h)"
  by (simp add: keeps_def Observe_requests_def Let_def case_prod_unfold)

lemma warnFailOpen_keeps: "reserver_keeps P s \<Longrightarrow> P (world x) \<Longrightarrow> P (world (warnFailOpen dflt s r err x))"
  by (simp add: warnFailOpen_def Let_def reserver_keeps_def)

lemma finish_keeps: "reserver_keeps P s \<Longrightarrow> P (world x) \<Longrightarrow> P (world (snd (finish dflt s r key cw x)))"
  by (simp add: finish_def Let_def case_prod_unfold reserver_keeps_def split: option.split)

lemma keeps_RateLimit [keeping_handlers]:
  assumes "keeps P h" "\<And>s. l = Some s \<Longrightarrow> reserver_keeps P s"
  shows "keeps P (RateLimit conv dflt l h)"
proof (cases l)
  case (Some s)
  have s: "reserver_keeps P s" by (rule assms(2) [OF Some])
  have "keeps P (serve conv dflt s h)"
  proof (rule keepsI)
    fix r and x :: "'a exchange" assume x: "P (world x)"
    show "P (world (snd (serve conv dflt s h r x)))"
    proof (cases "ctxKeyInfo r")
      case (Some key)
      obtain reply w where w: "rs_Reserve s key (world x) = (reply, w)" by fastforce
      have "P w" using s x w by (metis reserver_keeps_def snd_conv)
      then have "P (world (snd (h r (warnFailOpen dflt s r err (emit ms (x\<lparr>world := w\<rparr>))))))" "P (world (snd (h r (emit ms (x\<lparr>world := w\<rparr>)))))" for ms err
        by (auto intro!: keepsD [OF assms(1)] warnFailOpen_keeps [OF s])
      with Some w \<open>P w\<close> show ?thesis
        by (cases reply) (simp_all add: serve_def Let_def case_prod_unfold finish_keeps [OF s])
    qed (use keepsD [OF assms(1) x] in \<open>simp add: serve_def\<close>)
  qed
  with Some show ?thesis by (simp add: RateLimit_def)
qed (use assms(1) in \<open>simp add: RateLimit_def\<close>)

lemma stream_loop_world [simp]: "world (snd (stream_loop lg name evts x)) = world x"
  by (induction lg name evts x rule: stream_loop.induct) (simp_all add: Let_def case_prod_unfold)

lemma keeps_chat [keeping_handlers]:
  assumes "chat_keeps P e"
  shows "keeps P (HandleChatCompletion e dflt)"
proof (rule keepsI)
  fix r and x :: "'a exchange" assume x: "P (world x)"
  have non: "P (world (snd (handleNonStream e p req d y)))" if "P (world y)" for p req d y
    using assms that by (simp add: handleNonStream_def Let_def case_prod_unfold chat_keeps_def split: option.split)
  have str: "P (world (snd (handleStream e dflt r p req d y)))" if "P (world y)" for p req d y
    using assms that by (simp add: handleStream_def Let_def case_prod_unfold chat_keeps_def split: option.split)
  have route: "P (snd (ce_Route e req meta (world x)))" for req meta using assms x by (simp add: chat_keeps_def)
  show "P (world (snd (HandleChatCompletion e dflt r x)))"
    unfolding HandleChatCompletion_def
    using x route by (auto simp: Let_def case_prod_unfold split: decoded.split route_result.split intro!: non str)
qed

lemma delivers_keeps: "delivers read w bs w' \<Longrightarrow> (\<And>w. P w \<Longrightarrow> P (snd (read w))) \<Longrightarrow> P w \<Longrightarrow> P w'"
  by (induction read w bs w' rule: delivers.induct) auto

lemma generated_keeps:
  assumes "generatePlaintextKey read w = Some (res, w')" "\<And>w. P w \<Longrightarrow> P (snd (read w))" "P w"
  shows "P w'"
proof (cases res)
  case (Inr k)
  with assms(1) obtain bs where "delivers read w bs w'" by (auto simp: generated_key_iff)
  then show ?thesis by (rule delivers_keeps) (fact assms(2,3))+
next
  case (Inl e)
  with assms(1) obtain bs w1 where d: "delivers read w bs w1" "read w1 = (Inl e, w')" by (auto simp: generated_error_iff)
  have "P w1" by (rule delivers_keeps [OF d(1)]) (fact assms(2,3))+
  from assms(2) [OF this] d(2) show ?thesis by simp
qed

lemma keeps_Create_key [keeping_handlers]:
  assumes "admin_keeps P e"
  shows "keeps P (Create_key e dflt)"
proof (rule keepsI)
  fix r and x :: "'a exchange" assume x: "P (world x)"
  have gen: "P w'" if "generatePlaintextKey (ae_read e) (world x) = Some (res, w')" for res w'
    by (rule generated_keeps [OF that]) (use assms x in \<open>auto simp: admin_keeps_def\<close>)
  have "P (snd (ae_Create e k h p w'))" if "generatePlaintextKey (ae_read e) (world x) = Some (res, w')" for k h p res w'
    using gen [OF that] assms by (simp add: admin_keeps_def)
  with x gen show "P (world (snd (Create_key e dflt r x)))"
    unfolding Create_key_def by (auto simp: Let_def case_prod_unfold split: decoded.split option.split sum.split)
qed

lemma keeps_Revoke_key [keeping_handlers]:
  assumes "admin_keeps P e"
  shows "keeps P (Revoke_key e dflt)"
proof (rule keepsI)
  fix r and x :: "'a exchange" assume x: "P (world x)"
  let ?i = "ae_URLParam e r ''id''"
  have g: "P (snd (ae_GetByID e ?i (world x)))" using assms x by (simp add: admin_keeps_def)
  then have v: "P (snd (ae_Revoke e ?i (snd (ae_GetByID e ?i (world x)))))" using assms by (simp add: admin_keeps_def)
  then have "ae_invalidate e = Some f \<Longrightarrow> P (f h (snd (ae_Revoke e ?i (snd (ae_GetByID e ?i (world x))))))" for f h using assms by (simp add: admin_keeps_def)
  with x g v show "P (world (snd (Revoke_key e dflt r x)))"
    unfolding Revoke_key_def by (simp add: Let_def case_prod_unfold split: option.split sum.split)
qed

lemma server_keeps:
  assumes "chi_router http dispatch miss" "chi_laws (sv_chi env)" "keeps P miss" "chat_keeps P (sv_chat env)"
    and "\<And>a t w. Authenticator opts = Some a \<Longrightarrow> P w \<Longrightarrow> P (snd (a t w))"
    and "\<And>s. RateLimiter opts = Some s \<Longrightarrow> reserver_keeps P s"
    and "\<And>keys. AdminKeys opts = Some keys \<Longrightarrow> admin_keeps P keys"
  shows "keeps P (http (New env reg opts lg))"
proof -
  have api: "keeps P (api_handler env opts h)" if "keeps P h" for h
    using that assms(5,6) by (auto simp: api_handler_def Let_def split: option.split intro!: keeping_handlers)
  have mounted: "keeps P h" if "(m, p, h) \<in> set (routes (New env reg opts lg))" for m p h
    using New_handlers [OF that] by (auto intro!: keeping_handlers api assms(4,7))
  have dispatched: "P (world (snd (dispatch (New env reg opts lg) r x)))" if x: "P (world x)" for r x
  proof (rule chi_router.dispatch_cases [OF assms(1), of "New env reg opts lg" r, OF distinct_routes])
    fix m p h assume "(m, p, h) \<in> set (routes (New env reg opts lg))" "dispatch (New env reg opts lg) r = h r"
    with keepsD [OF mounted x] show ?thesis by simp
  next
    assume "dispatch (New env reg opts lg) r = miss r"
    with keepsD [OF assms(3) x] show ?thesis by simp
  qed
  have inner: "keeps P (RequestLogger (sv_chi env) (sv_now env) lg (dispatch (New env reg opts lg)))"
    by (intro keeping_handlers keepsI dispatched)
  then have rec: "keeps P (Observe_requests (sv_chi env) (sv_now env) (chi_Recoverer (sv_chi env) (RequestLogger (sv_chi env) (sv_now env) lg (dispatch (New env reg opts lg)))))"
    using assms(2) by (intro keeping_handlers) (simp add: keeps_def chi_laws_def)
  show ?thesis
  proof (rule keepsI)
    fix r and x :: "'a exchange" assume x: "P (world x)"
    let ?h = "Observe_requests (sv_chi env) (sv_now env) (chi_Recoverer (sv_chi env) (RequestLogger (sv_chi env) (sv_now env) lg (dispatch (New env reg opts lg))))"
    obtain i where "chi_RequestID (sv_chi env) ?h r x = ?h (r\<lparr>ctxReqID := i\<rparr>) x" using assms(2) unfolding chi_laws_def by blast
    with keepsD [OF rec x] show "P (world (snd (http (New env reg opts lg) r x)))" unfolding chi_router.server_New [OF assms(1)] by simp
  qed
qed

section \<open>The gateway keeps its routing\<close>

lemma build_groups_range:
  "build_groups (Builder_Build math_Exp now) ps gs acc b = (Inr m, b') \<Longrightarrow> builder_inv b \<Longrightarrow>
   (\<And>g s. acc g = Some s \<Longrightarrow> s < length (instances b)) \<Longrightarrow>
   length (instances b) \<le> length (instances b') \<and> (\<forall>g s. m g = Some s \<longrightarrow> s < length (instances b'))"
proof (induction "Builder_Build math_Exp now" ps gs acc b rule: build_groups.induct)
  case (2 ps name mg rest acc b)
  show ?case
  proof (cases "mgStrategy mg = []")
    case True
    with 2 show ?thesis by (auto split: option.splits)
  next
    case False
    obtain res b1 where b1: "Builder_Build math_Exp now (mgStrategy mg) b = (res, b1)" by fastforce
    obtain i where res: "res = Inr i" "check_candidates ps name 0 (mgCandidates mg) = None"
      using "2.prems"(1) False b1 by (cases res) (auto split: option.splits)
    note spec = Builder_Build_result [OF "2.prems"(2), where math_Exp = math_Exp and now = now and name = "mgStrategy mg", unfolded b1 res(1), simplified]
    have inv: "builder_inv b1" using builder_inv_Build [OF "2.prems"(2), of math_Exp now "mgStrategy mg"] b1 by simp
    from spec have len: "length (instances b) \<le> length (instances b1)" by auto
    have acc: "s < length (instances b1)" if "(acc(name \<mapsto> i)) g = Some s" for g s
      using that spec len "2.prems"(3) [of g s] by (cases "g = name") auto
    have rest: "build_groups (Builder_Build math_Exp now) ps rest (acc(name \<mapsto> i)) b1 = (Inr m, b')" using "2.prems"(1) False b1 res by simp
    have "length (instances b1) \<le> length (instances b') \<and> (\<forall>g s. m g = Some s \<longrightarrow> s < length (instances b'))"
      by (rule "2.hyps"(1) [OF res(2) False b1 [unfolded res(1), symmetric] refl rest inv]) (fact acc)
    with len show ?thesis by auto
  qed
qed auto

lemma NewRouter_inv:
  assumes "NewRouter (Some reg) cfg ps (Some (Builder_Build math_Exp now)) NewBuilder = (Inr r, b)"
    and "\<And>g mg. (g, mg) \<in> set (ModelGroups cfg) \<Longrightarrow> length (mgCandidates mg) \<le> 2 ^ 53"
  shows "router_inv r (instances b) \<and> registry r = reg"
proof -
  obtain res b1 where b1: "Builder_Build math_Exp now (DefaultStrategy cfg) NewBuilder = (res, b1)" by fastforce
  obtain d where d: "res = Inr d" using assms(1) b1 by (cases res) (auto simp: NewRouter_def)
  obtain res' b2 where b2: "build_groups (Builder_Build math_Exp now) ps (ModelGroups cfg) Map.empty b1 = (res', b2)" by fastforce
  obtain gs where gs: "res' = Inr gs" using assms(1) b1 d b2 by (cases res') (auto simp: NewRouter_def)
  have r: "b = b2" "defaultStrategy r = d" "groupStrategies r = gs" "groups r = ModelGroups cfg" "registry r = reg"
    using assms(1) b1 d b2 gs by (auto simp: NewRouter_def)
  have "builder_inv b1" "d < length (instances b1)"
    using builder_inv_Build [OF builder_inv_New, of math_Exp now "DefaultStrategy cfg"]
      Builder_Build_result [OF builder_inv_New, where math_Exp = math_Exp and now = now and name = "DefaultStrategy cfg"] b1 d by simp_all
  with build_groups_range [OF b2 [unfolded gs]] r assms(2) show ?thesis
    by (auto simp: router_inv_def dest: map_of_SomeD)
qed

lemma gateway_Route_keeps: "routing_inv st g \<Longrightarrow> routing_inv st (snd (gateway_Route env req meta g))"
proof -
  assume inv: "routing_inv st g"
  then have r: "router_inv (gwRouter g) (gwStrategies g)" by (simp add: routing_inv_def)
  have keep: "router_inv (snd (resolveCandidates m (gwRouter g))) insts" if "length insts = length (gwStrategies g)" for m insts
    using r that by (simp add: router_inv_def gw_frame)
  from r show ?thesis
  proof (cases rule: Route_cases [where req = req and conv = "gv_conv env" and view = "\<lambda>i. (gateway_now env g, gwHealth g)" and meta = meta])
    case (picked grp cs i s)
    have "map Strategy_Name ((gwStrategies g)[strategy_for (gwRouter g) grp := s]) = map Strategy_Name (gwStrategies g)"
      using picked(4) by (simp add: map_update list_update_same_conv [THEN iffD2] strategy_for_bound [OF r])
    with picked(5) inv keep show ?thesis by (simp add: gateway_Route_def routing_inv_def gw_frame)
  qed (use inv keep in \<open>simp_all add: gateway_Route_def routing_inv_def gw_frame\<close>)
qed

lemma on_keys_router [simp]: "gwRouter (snd (on_keys env f g)) = gwRouter g" "gwStrategies (snd (on_keys env f g)) = gwStrategies g"
  by (simp_all add: on_keys_def Let_def case_prod_unfold)

lemma gateway_calls_keep:
  assumes "chi_router http dispatch miss" "chi_laws (gv_chi env)" "keeps (routing_inv st) miss"
  shows "keeps (routing_inv st) (http (gateway_calls env st))"
  unfolding gateway_calls_def
proof (rule server_keeps [OF assms(1) _ assms(3)])
  show "chi_laws (sv_chi (gateway_server env st))" using assms(2) by (simp add: gateway_server_def)
  have "gwRouter (snd (snd (gateway_Chat env ps p req g))) = gwRouter g \<and> gwStrategies (snd (snd (gateway_Chat env ps p req g))) = gwStrategies g" for ps p req g
    by (simp add: gateway_Chat_def Let_def case_prod_unfold split: option.split)
  moreover have "gwRouter (snd (snd (gateway_Stream env ps p req g))) = gwRouter g \<and> gwStrategies (snd (snd (gateway_Stream env ps p req g))) = gwStrategies g" for ps p req g
    by (simp add: gateway_Stream_def Let_def case_prod_unfold split: option.split)
  ultimately have "routing_inv st (snd (snd (gateway_Chat env ps p req g)))" "routing_inv st (snd (snd (gateway_Stream env ps p req g)))"
    if "routing_inv st g" for ps p req g using that by (simp_all add: routing_inv_def)
  then show "chat_keeps (routing_inv st) (sv_chat (gateway_server env st))"
    using gateway_Route_keeps [of st _ env] by (simp add: chat_keeps_def gateway_server_def)
next
  fix a t and w :: "('a, 'b, 'c, 'd, 'e) gateway" assume "Authenticator (gateway_options env st) = Some a" "routing_inv st w"
  then show "routing_inv st (snd (a t w))" by (auto simp: gateway_options_def gateway_auth_def routing_inv_def)
next
  fix s assume "RateLimiter (gateway_options env st) = Some s"
  then obtain l where "s = gateway_reserver env l" by (auto simp: gateway_options_def)
  then show "reserver_keeps (routing_inv st) s" by (simp add: reserver_keeps_def gateway_reserver_def routing_inv_def Let_def case_prod_unfold)
next
  fix keys assume "AdminKeys (gateway_options env st) = Some keys"
  then have "keys = gateway_admin env" by (simp add: gateway_options_def split: if_splits)
  then show "admin_keeps (routing_inv st) keys"
    by (auto simp: admin_keeps_def gateway_admin_def NewAdminKeysHandler_def routing_inv_def Let_def)
qed

lemma reachable_routing_inv:
  assumes "chi_router http dispatch miss" "chi_laws (gv_chi env)" "keeps (routing_inv st) miss" "routing_inv st g0"
    and "reachable http (gateway_calls env st) g0 g"
  shows "routing_inv st g"
  using assms(5)
proof (induction rule: reachable.induct)
  case (request x r)
  show ?case by (rule keepsD [OF gateway_calls_keep [OF assms(1,2,3)] request(2)])
qed (use assms(4) in \<open>simp_all add: routing_inv_def\<close>)

lemma resolveCandidates_resolved:
  assumes "fst (resolveCandidates m r) = Inr (grp, cs)" "c \<in> set cs"
  shows "\<exists>n. Resolve (registry r) n = Inr (candProvider c)"
proof (cases "map_of (groups r) m")
  case (Some mg)
  with assms have "c \<in> set (fst (expandGroup (mgCandidates mg) r))" by (simp add: resolveCandidates_group)
  from expandGroup_member [OF this] show ?thesis by blast
next
  case None
  then obtain p where p: "Resolve (registry r) m = Inr p"
    using assms(1) resolveCandidates_unknown [of m r] by (cases "Resolve (registry r) m") auto
  from None p obtain c' where "fst (resolveCandidates m r) = Inr ([], [c'])" "candProvider c' = p" by (rule resolveCandidates_concrete)
  with assms p show ?thesis by auto
qed

section \<open>Theorems\<close>



end
