(* ===== verification/Spec2Isabelle.thy ===== *)
theory Spec2Isabelle
  imports Request_Router Authentication Rate_Limiter Key_Hash Auth_Middleware Access_Log Provider_Adapters Chat_Handler Go_Time Gateway_Reachable
begin

text \<open>
  A verification of the LLM gateway: an HTTP server with an OpenAI-compatible API in front of several LLM providers, which authenticates keys kept in
  Postgres, limits requests and tokens per key with Redis, routes a model name to a healthy provider by a configurable strategy, retries, translates to
  the provider's API and streams the answer back.

  \<^bold>\<open>How the parts interact.\<close> A request passes \<^verbatim>\<open>server.New\<close>'s middlewares (request id, metrics, recoverer, request log) and is dispatched by the chi
  router. API routes go through \<^verbatim>\<open>RequireAPIKey\<close>, which asks the cached authenticator, and \<^verbatim>\<open>RateLimit\<close>, which reserves a slot in Redis and
  afterwards records the tokens of the response. The chat handler decodes the request, asks the router for a provider and calls it. The router expands
  the model name with the registry and the routing configuration, drops candidates whose circuit breaker is open and asks a strategy to choose. A provider
  is an adapter inside a decorator that retries and records the outcome in the breaker. Admin routes mint and revoke keys and invalidate the cache.
  \<^verbatim>\<open>main\<close> builds all of this from the configuration and runs it until a signal or a server error.

  \<^bold>\<open>Theories and the code they model\<close> (paths under \<^verbatim>\<open>src/\<close>):

  \<^item> \<open>Gateway_Prelude\<close>, \<open>Float64\<close>: Go's integers, durations, strings and IEEE 754 doubles.
  \<^item> \<open>Chat_Model\<close>: \<^verbatim>\<open>internal/model\<close>. \<open>Json\<close>, \<open>Json_Codec\<close>, \<open>Json_Text\<close>, \<open>Go_Time\<close>: what \<^verbatim>\<open>encoding/json\<close> does with these types and with timestamps.
  \<^item> \<open>Metrics\<close>: \<^verbatim>\<open>internal/metrics\<close>, an emission being a value of \<open>metric_call\<close>.
  \<^item> \<open>Provider_Health\<close>, \<open>Provider_Retry\<close>, \<open>Provider_Registry\<close>: \<^verbatim>\<open>internal/provider/health.go\<close>, \<^verbatim>\<open>health_decorator.go\<close>, \<^verbatim>\<open>registry.go\<close>.
  \<^item> \<open>Routing_Strategies\<close>, \<open>Request_Router\<close>: \<^verbatim>\<open>internal/router/strategy\<close> and \<^verbatim>\<open>internal/router\<close>.
  \<^item> \<open>Gateway_Config\<close>: \<^verbatim>\<open>internal/config\<close>.
  \<^item> \<open>Key_Store\<close>, \<open>Store_Connect\<close>: \<^verbatim>\<open>internal/store\<close>, the queries and the connections.
  \<^item> \<open>Key_Hash\<close>, \<open>Authentication\<close>: \<^verbatim>\<open>internal/auth\<close>, with SHA-256 executable.
  \<^item> \<open>Rate_Limiter\<close>: \<^verbatim>\<open>internal/ratelimit\<close>, both Lua scripts and the Go code around them.
  \<^item> \<open>Http_Response\<close>, \<open>Request_Context\<close>, \<open>Auth_Middleware\<close>, \<open>Rate_Limit_Middleware\<close>, \<open>Access_Log\<close>: \<^verbatim>\<open>internal/apierr\<close> and \<^verbatim>\<open>internal/middleware\<close>.
  \<^item> \<open>Upstream_Http\<close>, \<open>OpenAI_Adapter\<close>, \<open>Anthropic_Adapter\<close>, \<open>Google_Adapter\<close>, \<open>Provider_Adapters\<close>: the provider packages.
  \<^item> \<open>Chat_Handler\<close>, \<open>Info_Handlers\<close>, \<open>Admin_Keys\<close>: \<^verbatim>\<open>internal/handler\<close>.
  \<^item> \<open>Gateway_Server\<close>: \<^verbatim>\<open>internal/server\<close>. \<open>Gateway_Main\<close>: \<^verbatim>\<open>cmd/gateway/main.go\<close>.
  \<^item> \<open>Gateway_Process\<close>, \<open>Gateway_Reachable\<close>: the whole gateway, with every interface filled by the gateway's own implementation, and its reachable states.

  Definitions keep the names of the source; a method carries its type as a prefix where the name alone is ambiguous (\<open>HTP_ChatCompletion\<close>), and a part of a
  long function that has a definition of its own is named for what it does (\<open>retry_loop\<close>, \<open>build_provider\<close>). Structs are records, a Go map is an association
  list whose order is the order a \<^verbatim>\<open>range\<close> takes or a function to options, a pointer that several parts share is an index into a heap (\<open>refHealth\<close>), an
  error is a value of \<open>go_error\<close>. Code with effects takes and returns its world. A handler returns what it does to the response writer; \<open>Panic\<close> and \<open>Block\<close>
  are operations there, so that panicking and waiting forever are visible.

  \<^bold>\<open>What is outside the repository\<close> is a parameter, and what the code relies on of it a named hypothesis: the LRU caches (locale \<open>expiring_cache\<close>), Redis
  (\<open>sorted_sets\<close>), the chi router (\<open>chi_router\<close>, \<open>chi_laws\<close>), the Postgres, Redis and migration drivers (\<open>pgx_laws\<close>, \<open>redis_laws\<close>, \<open>migrate_laws\<close>), the
  provider services (\<open>upstream\<close>, of which nothing is assumed), the random sources, the clocks and koanf. Every locale is interpreted on a
  model that keeps the contract, and the interfaces between the gateway's own parts (\<open>circuit_breaker\<close>, \<open>model_resolver\<close>, \<open>candidate_strategy\<close>,
  \<open>api_key_lookup\<close>, \<open>key_cache\<close>, \<open>provider_adapter\<close>) are interpreted on the definitions of the parts.

  \<^bold>\<open>What the lemmas show.\<close>

  \<^item> Breaker and retries: the breaker refines its counting specification, the retry loop ends with the first decisive attempt and is bounded, backoff stays in
    its band, every decorated call leaves exactly one outcome.
  \<^item> Router and strategies: what each strategy picks, the two errors of routing and when they occur, that a routed model is registered and admitted.
  \<^item> Limiter: no window admits more than the limit, when a reservation is granted, what a refusal reports, tokens recorded are tokens counted.
  \<^item> Keys: only keys with a valid row within the cache lifetime are accepted, a minted key authenticates, a revoked one does not, keys are uniform.
  \<^item> Adapters and handlers: which answers are retried, that a broken stream is a failure, that the stream sent to the client reads back as the chunks of the
    provider, which status each case gets, that the capturing writer and the body log are transparent.
  \<^item> Server and process: without an accepted key or the admin token nothing behind the gates is touched; the registry built at startup serves what
    the configuration enables; a gateway configured with authentication never serves without it; every connection is closed on a normal exit; in every
    reachable state routing yields a healthy built provider or one of its errors; and every request is answered.

  \<^bold>\<open>Bounds and loops.\<close> Loops are structural or terminate by a measure. The rejection loop of key generation (\<open>key_loop\<close>) may run forever on a source that
  only delivers rejected bytes; it is a partial function into options, and when it returns is proved. Two searches in the number printer are bounded:
  the decimal exponent of a finite double lies between -324 and 308, so 400 steps reach it, and 17 significant digits identify every double. The limits on
  candidates (at most 2^53 in a group) are those up to which a double counts exactly.

  \<^bold>\<open>Concurrency.\<close> Methods under a mutex, scripts in Redis and single statements in Postgres are atomic steps. Requests are served one after the other in
  \<open>reachable\<close>; interleavings of two requests are treated where the code is sensitive to them (a lookup that overlaps a revocation in \<open>Authentication\<close>,
  the views of the health heap in \<open>Request_Router\<close>, the steps of the limiter in \<open>Rate_Limiter\<close>). The background update of the last-use time happens at once.

  \<^bold>\<open>Not modelled.\<close> The listeners and the TLS and HTTP/1.1 framing of \<^verbatim>\<open>net/http\<close>, and the redirects of its \<^verbatim>\<open>ServeMux\<close> for unclean paths: the handlers start
  from a parsed request. The Prometheus registry and the text of \<^verbatim>\<open>/metrics\<close>: library code behind \<^verbatim>\<open>promhttp\<close>; the collectors' declarations only name
  series. koanf's reading of file and environment: \<^verbatim>\<open>Load\<close> starts from its results. The SQL text and the schema in \<^verbatim>\<open>migrations/\<close>: the queries are modelled by
  their effect on the table, and the embedding itself is a build directive (\<^verbatim>\<open>migrations/embed.go\<close>). The rendering of log records as text or JSON by
  \<^verbatim>\<open>log/slog\<close>: a log line is its level, message and attributes. The type aliases of \<^verbatim>\<open>pkg/openaicompat\<close> have no behaviour.
  Data races: the weighted strategy's generator is used without a lock, which the sequential model does not show.
\<close>

end
